(* ===== verification/Prelude.thy ===== *)
theory Prelude
  imports Main "HOL-Library.Word"
begin

text \<open>
  Shared vocabulary of the development: the machine integer types, the result type of kernel
  code (a kernel function returns, panics, or leaves the kernel for good), its sequencing
  operators with the rules the component proofs use, and lemmas on 32-bit words that the
  address arithmetic of every component needs.

  Kernel code is modelled by explicit state passing.  A C function with a result of type
  \<open>'a\<close> is a HOL function into \<open>('a, 's) outcome\<close>: \<open>Ret\<close> is a normal return with the new
  state, \<open>Panic\<close> a call of \<open>panic\<close> (which never returns), \<open>Leave\<close> one of the calls that
  leave the kernel without returning to the caller (the \<open>iret\<close> of \<open>env_pop_tf\<close>, the halt
  loop of \<open>sched_halt\<close>, the endless monitor loop, and waiting for the kernel lock).
\<close>

unbundle bit_operations_syntax

type_synonym u8 = "8 word"
type_synonym u16 = "16 word"
type_synonym u32 = "32 word"
type_synonym u64 = "64 word"

named_theorems jos_consts \<open>numeric constants of the C headers\<close>
named_theorems addr_simps \<open>address arithmetic: page numbers, table indices, rounding\<close>
named_theorems kops \<open>definitions of the primitive state accessors\<close>
named_theorems frame \<open>what an operation leaves unchanged\<close>

section \<open>Outcomes of kernel code\<close>

datatype leave =
    Resume nat     \<comment> \<open>\<open>iret\<close> into the environment with this index of \<open>envs\<close>\<close>
  | Halted         \<comment> \<open>the \<open>hlt\<close> loop at the end of \<open>sched_halt\<close>\<close>
  | InMonitor      \<comment> \<open>the endless \<open>monitor(NULL)\<close> loop\<close>
  | Spinning       \<comment> \<open>the spin loop of \<open>spin_lock\<close> while another CPU holds the lock\<close>

datatype ('a, 's) outcome =
    Ret 'a 's
  | Panic string 's
  | Leave leave 's

fun kbind :: "('a, 's) outcome \<Rightarrow> ('a \<Rightarrow> 's \<Rightarrow> ('b, 's) outcome) \<Rightarrow> ('b, 's) outcome" where
  "kbind (Ret x s) f = f x s"
| "kbind (Panic m s) f = Panic m s"
| "kbind (Leave l s) f = Leave l s"

text \<open>
  A C function that returns \<open>0\<close> or a negative error code and stores its result through a
  pointer is modelled by a result of type \<open>'e + 'a\<close>; \<open>ebind\<close> is the source's
  \<open>if ((r = f()) < 0) return r;\<close>.
\<close>

definition ebind ::
  "('e + 'a, 's) outcome \<Rightarrow> ('a \<Rightarrow> 's \<Rightarrow> ('e + 'b, 's) outcome) \<Rightarrow> ('e + 'b, 's) outcome" where
  "ebind m f = kbind m (\<lambda>r s. case r of Inl e \<Rightarrow> Ret (Inl e) s | Inr x \<Rightarrow> f x s)"

fun panics :: "('a, 's) outcome \<Rightarrow> bool" where
  "panics (Panic m s) = True"
| "panics (Ret x s) = False"
| "panics (Leave l s) = False"

text \<open>The state an outcome ends in, however it ends.\<close>

fun final :: "('a, 's) outcome \<Rightarrow> 's" where
  "final (Ret x s) = s"
| "final (Panic m s) = s"
| "final (Leave l s) = s"

lemma kbind_Ret_iff:
  "kbind m f = Ret y t \<longleftrightarrow> (\<exists>x s. m = Ret x s \<and> f x s = Ret y t)"
  by (cases m) auto

lemma kbind_RetE [elim!]:
  assumes "kbind m f = Ret y t"
  obtains x s where "m = Ret x s" and "f x s = Ret y t"
  using assms by (auto simp: kbind_Ret_iff)

lemma kbind_assoc: "kbind (kbind m f) g = kbind m (\<lambda>x s. kbind (f x s) g)"
  by (cases m) auto

lemma kbind_cong:
  "m = m' \<Longrightarrow> (\<And>x s. m' = Ret x s \<Longrightarrow> f x s = g x s) \<Longrightarrow> kbind m f = kbind m' g"
  by (cases m) auto

lemma final_kbind:
  "final (kbind m f) = (case m of Ret x s \<Rightarrow> final (f x s) | _ \<Rightarrow> final m)"
  by (cases m) auto

lemma ebind_Ret_Inr [simp]: "ebind (Ret (Inr x) s) f = f x s"
  by (simp add: ebind_def)

lemma ebind_Ret_Inl [simp]: "ebind (Ret (Inl e) s) f = Ret (Inl e) s"
  by (simp add: ebind_def)

lemma ebind_Panic [simp]: "ebind (Panic m s) f = Panic m s"
  by (simp add: ebind_def)

lemma ebind_Leave [simp]: "ebind (Leave l s) f = Leave l s"
  by (simp add: ebind_def)

text \<open>
  A C \<open>for\<close> loop over a list of index values whose body has no result.  The rules prove that
  the loop returns and what holds then, from an invariant that each iteration keeps.
\<close>

primrec kfor :: "('a \<Rightarrow> 's \<Rightarrow> (unit, 's) outcome) \<Rightarrow> 'a list \<Rightarrow> 's \<Rightarrow> (unit, 's) outcome" where
  "kfor f [] s = Ret () s"
| "kfor f (x # xs) s = kbind (f x s) (\<lambda>_ s. kfor f xs s)"

lemma kfor_append: "kfor f (xs @ ys) s = kbind (kfor f xs s) (\<lambda>_ s. kfor f ys s)"
  by (induction xs arbitrary: s) (auto simp: kbind_assoc)

lemma kfor_prefix_rule:
  assumes "\<And>ys x zs s. xs = ys @ x # zs \<Longrightarrow> I ys s \<Longrightarrow> \<exists>t. f x s = Ret () t \<and> I (ys @ [x]) t"
    and "I [] s"
  shows "\<exists>t. kfor f xs s = Ret () t \<and> I xs t"
  using assms(1)
proof (induction xs rule: rev_induct)
  case Nil
  then show ?case using assms(2) by simp
next
  case (snoc x xs)
  have "\<exists>t. f y u = Ret () t \<and> I (ys @ [y]) t" if "xs = ys @ y # zs" "I ys u" for ys y zs u
    using snoc.prems [of ys y "zs @ [x]" u] that by simp
  then obtain t where "kfor f xs s = Ret () t" "I xs t" using snoc.IH by blast
  moreover obtain u where "f x t = Ret () u" "I (xs @ [x]) u"
    using snoc.prems [of xs x "[]" t] \<open>I xs t\<close> by auto
  ultimately show ?case by (auto simp: kfor_append)
qed

lemma kfor_rule:
  assumes "\<And>x s. x \<in> set xs \<Longrightarrow> I s \<Longrightarrow> \<exists>t. f x s = Ret () t \<and> I t" and "I s"
  shows "\<exists>t. kfor f xs s = Ret () t \<and> I t"
  using kfor_prefix_rule [of xs "\<lambda>_. I" f s] assms by auto

section \<open>Bits of 32-bit words\<close>

text \<open>\<open>flag x f\<close> is the C condition \<open>if (x & f)\<close>.\<close>

definition flag :: "('n::len) word \<Rightarrow> 'n word \<Rightarrow> bool" where
  "flag x f \<longleftrightarrow> x AND f \<noteq> 0"

lemma flag_zero [simp]: "\<not> flag 0 f"
  by (simp add: flag_def)

lemma flag_or [simp]: "flag (a OR b) f \<longleftrightarrow> flag a f \<or> flag b f"
  by (simp add: flag_def bit.conj_disj_distrib2 or_eq_0_iff)

lemma flag_bit: "flag x (2 ^ n) \<longleftrightarrow> bit x n"
  by (simp add: flag_def and_exp_eq_0_iff_not_bit)

lemma and_mask12: "(a::u32) AND 0xFFF = a mod 4096"
  using take_bit_eq_mask [of 12 a] by (simp add: mask_eq_decr_exp take_bit_eq_mod)

lemma and_mask10: "(a::u32) AND 0x3FF = a mod 1024"
  using take_bit_eq_mask [of 10 a] by (simp add: mask_eq_decr_exp take_bit_eq_mod)

lemma unat_push12:
  "unat (p::u32) < 0x100000 \<Longrightarrow> unat (push_bit 12 p) = unat p * 4096"
  by (simp add: push_bit_eq_mult unat_word_ariths)

lemma unat_mono_less: "(a::('n::len) word) < b \<longleftrightarrow> unat a < unat b"
  by (simp add: word_less_nat_alt)

lemma word_of_nat_eq_iff_bounded:
  "i < 2 ^ LENGTH('n::len) \<Longrightarrow> j < 2 ^ LENGTH('n) \<Longrightarrow>
   (of_nat i :: 'n word) = of_nat j \<longleftrightarrow> i = j"
  by (metis of_nat_inverse)

lemma sint_unat_small:
  assumes "unat (x::u32) < 2 ^ 31"
  shows "sint x = int (unat x)"
proof -
  define n where "n = unat x"
  have ux: "uint x = int n" by (simp add: n_def)
  have "sint x = (int n + 2 ^ 31) mod 2 ^ 32 - 2 ^ 31"
    unfolding sint_uint ux by (simp add: signed_take_bit_eq_take_bit_shift take_bit_eq_mod)
  moreover have "(int n + 2 ^ 31) mod 2 ^ 32 = int n + 2 ^ 31"
    using assms by (intro mod_pos_pos_trivial) (simp_all add: n_def [symmetric])
  ultimately show ?thesis by (simp add: n_def)
qed

section \<open>Lists\<close>

lemma fold_invariant_list:
  assumes "P s" and "\<And>x s. x \<in> set xs \<Longrightarrow> P s \<Longrightarrow> P (f x s)"
  shows "P (fold f xs s)"
  using assms by (induction xs arbitrary: s) auto

end
