(* ===== verification/Mmu.thy ===== *)
theory Mmu
  imports Prelude
begin

text \<open>
  The constants and macros of \<^verbatim>\<open>inc/types.h\<close>, \<^verbatim>\<open>inc/mmu.h\<close>, \<^verbatim>\<open>inc/memlayout.h\<close> and
  \<^verbatim>\<open>inc/error.h\<close>: rounding, the three-part decomposition of linear addresses, page table
  entry flags, the virtual memory map, segment and gate descriptors, and the error codes.
  All addresses are 32-bit words and all arithmetic wraps as it does in the C code.
\<close>

section \<open>Rounding (inc/types.h)\<close>

definition ROUNDDOWN :: "u32 \<Rightarrow> u32 \<Rightarrow> u32" where
  "ROUNDDOWN a n = a - a mod n"

definition ROUNDUP :: "u32 \<Rightarrow> u32 \<Rightarrow> u32" where
  "ROUNDUP a n = ROUNDDOWN (a + n - 1) n"

section \<open>Paging constants and macros (inc/mmu.h)\<close>

definition PGNUM :: "u32 \<Rightarrow> u32" where
  "PGNUM la = drop_bit 12 la"

definition PDX :: "u32 \<Rightarrow> u32" where
  "PDX la = drop_bit 22 la AND 0x3FF"

definition PTX :: "u32 \<Rightarrow> u32" where
  "PTX la = drop_bit 12 la AND 0x3FF"

definition PGOFF :: "u32 \<Rightarrow> u32" where
  "PGOFF la = la AND 0xFFF"

definition PGADDR :: "u32 \<Rightarrow> u32 \<Rightarrow> u32 \<Rightarrow> u32" where
  "PGADDR d t off = push_bit 22 d OR push_bit 12 t OR off"

definition NPDENTRIES :: nat where [jos_consts]: "NPDENTRIES = 1024"
definition NPTENTRIES :: nat where [jos_consts]: "NPTENTRIES = 1024"
definition PGSIZE :: u32 where [jos_consts]: "PGSIZE = 4096"
definition PTSIZE :: u32 where [jos_consts]: "PTSIZE = 4096 * 1024"

definition PTE_P :: u32 where [jos_consts]: "PTE_P = 0x001"
definition PTE_W :: u32 where [jos_consts]: "PTE_W = 0x002"
definition PTE_U :: u32 where [jos_consts]: "PTE_U = 0x004"
definition PTE_PWT :: u32 where [jos_consts]: "PTE_PWT = 0x008"
definition PTE_PCD :: u32 where [jos_consts]: "PTE_PCD = 0x010"
definition PTE_AVAIL :: u32 where [jos_consts]: "PTE_AVAIL = 0xE00"

definition PTE_SYSCALL :: u32 where
  "PTE_SYSCALL = PTE_AVAIL OR PTE_P OR PTE_W OR PTE_U"

definition PTE_ADDR :: "u32 \<Rightarrow> u32" where
  "PTE_ADDR pte = pte AND NOT 0xFFF"

definition FL_IF :: u32 where [jos_consts]: "FL_IF = 0x200"
definition FEC_PR :: u32 where [jos_consts]: "FEC_PR = 0x1"
definition FEC_WR :: u32 where [jos_consts]: "FEC_WR = 0x2"
definition FEC_U :: u32 where [jos_consts]: "FEC_U = 0x4"

section \<open>Virtual memory map (inc/memlayout.h)\<close>

definition GD_KT :: u16 where [jos_consts]: "GD_KT = 0x08"
definition GD_KD :: u16 where [jos_consts]: "GD_KD = 0x10"
definition GD_UT :: u16 where [jos_consts]: "GD_UT = 0x18"
definition GD_UD :: u16 where [jos_consts]: "GD_UD = 0x20"
definition GD_TSS0 :: u16 where [jos_consts]: "GD_TSS0 = 0x28"

definition KERNBASE :: u32 where [jos_consts]: "KERNBASE = 0xF0000000"
definition IOPHYSMEM :: u32 where [jos_consts]: "IOPHYSMEM = 0x0A0000"
definition EXTPHYSMEM :: u32 where [jos_consts]: "EXTPHYSMEM = 0x100000"
definition KSTACKTOP :: u32 where [jos_consts]: "KSTACKTOP = KERNBASE"
definition KSTKSIZE :: u32 where [jos_consts]: "KSTKSIZE = 8 * PGSIZE"
definition KSTKGAP :: u32 where [jos_consts]: "KSTKGAP = 8 * PGSIZE"
definition MMIOLIM :: u32 where [jos_consts]: "MMIOLIM = KSTACKTOP - PTSIZE"
definition MMIOBASE :: u32 where [jos_consts]: "MMIOBASE = MMIOLIM - PTSIZE"
definition ULIM :: u32 where [jos_consts]: "ULIM = MMIOBASE"
definition UVPT :: u32 where [jos_consts]: "UVPT = ULIM - PTSIZE"
definition UPAGES :: u32 where [jos_consts]: "UPAGES = UVPT - PTSIZE"
definition UENVS :: u32 where [jos_consts]: "UENVS = UPAGES - PTSIZE"
definition UTOP :: u32 where [jos_consts]: "UTOP = UENVS"
definition UXSTACKTOP :: u32 where [jos_consts]: "UXSTACKTOP = UTOP"
definition USTACKTOP :: u32 where [jos_consts]: "USTACKTOP = UTOP - 2 * PGSIZE"
definition UTEXT :: u32 where [jos_consts]: "UTEXT = 2 * PTSIZE"
definition UTEMP :: u32 where [jos_consts]: "UTEMP = PTSIZE"
definition PFTEMP :: u32 where [jos_consts]: "PFTEMP = UTEMP + PTSIZE - PGSIZE"
definition USTABDATA :: u32 where [jos_consts]: "USTABDATA = PTSIZE div 2"
definition MPENTRY_PADDR :: u32 where [jos_consts]: "MPENTRY_PADDR = 0x7000"

section \<open>Error codes (inc/error.h)\<close>

datatype jerror =
    E_UNSPECIFIED | E_BAD_ENV | E_INVAL | E_NO_MEM | E_NO_FREE_ENV
  | E_FAULT | E_IPC_NOT_RECV | E_EOF

fun ecode :: "jerror \<Rightarrow> nat" where
  "ecode E_UNSPECIFIED = 1"
| "ecode E_BAD_ENV = 2"
| "ecode E_INVAL = 3"
| "ecode E_NO_MEM = 4"
| "ecode E_NO_FREE_ENV = 5"
| "ecode E_FAULT = 6"
| "ecode E_IPC_NOT_RECV = 7"
| "ecode E_EOF = 8"

definition MAXERROR :: nat where [jos_consts]: "MAXERROR = 9"

text \<open>What a function returns to its caller as an \<open>int\<close>: \<open>-E_XXX\<close>.\<close>

definition neg_errno :: "jerror \<Rightarrow> u32" where
  "neg_errno e = - of_nat (ecode e)"

section \<open>Address arithmetic\<close>

lemma unat_PGNUM [addr_simps]: "unat (PGNUM a) = unat a div 4096"
  by (simp add: PGNUM_def drop_bit_eq_div unat_div_distrib)

lemma unat_PTX [addr_simps]: "unat (PTX a) = unat a div 4096 mod 1024"
  by (simp add: PTX_def and_mask10 drop_bit_eq_div unat_div_distrib unat_mod_distrib)

lemma unat_PDX [addr_simps]: "unat (PDX a) = unat a div 4194304 mod 1024"
  by (simp add: PDX_def and_mask10 drop_bit_eq_div unat_div_distrib unat_mod_distrib)

lemma unat_PGOFF [addr_simps]: "unat (PGOFF a) = unat a mod 4096"
  by (simp add: PGOFF_def and_mask12 unat_mod_distrib)

lemma PDX_less: "unat (PDX a) < 1024"
  by (simp add: unat_PDX)

lemma PTX_less: "unat (PTX a) < 1024"
  by (simp add: unat_PTX)

lemma PGNUM_less: "unat (PGNUM a) < 0x100000"
  using unsigned_less [of a, where ?'a = nat] by (simp add: unat_PGNUM)

lemma PTE_ADDR_PGNUM: "PTE_ADDR a = push_bit 12 (PGNUM a)"
proof -
  have m: "(0xFFF::u32) = mask 12" by (simp add: mask_eq_decr_exp)
  show ?thesis
    unfolding PTE_ADDR_def PGNUM_def m
    by (rule bit_word_eqI) (auto simp add: bit_simps)
qed

lemma unat_PTE_ADDR [addr_simps]: "unat (PTE_ADDR a) = unat a div 4096 * 4096"
  by (simp add: PTE_ADDR_PGNUM unat_push12 PGNUM_less) (simp add: unat_PGNUM)

lemma PGNUM_or [simp]: "PGNUM (a OR b) = PGNUM a OR PGNUM b"
  by (simp add: PGNUM_def drop_bit_or)

lemma PGNUM_0 [simp]: "PGNUM 0 = 0"
  by (simp add: PGNUM_def)

lemma PGNUM_push12: "unat p < 0x100000 \<Longrightarrow> PGNUM (push_bit 12 p) = p"
  by (simp add: word_unat_eq_iff unat_PGNUM unat_push12)

lemma PTE_ADDR_0 [simp]: "PTE_ADDR 0 = 0"
  by (simp add: PTE_ADDR_def)

text \<open>The entry flags lie below the page number.\<close>

lemma PGNUM_PTE_flags [simp]:
  "PGNUM PTE_P = 0" "PGNUM PTE_W = 0" "PGNUM PTE_U = 0" "PGNUM PTE_PWT = 0" "PGNUM PTE_PCD = 0"
  by (simp_all add: PGNUM_def jos_consts)

lemma flag_P_P [simp]: "flag PTE_P PTE_P"
  by (simp add: flag_def jos_consts)

lemma flag_P_iff: "flag x PTE_P \<longleftrightarrow> bit x 0"
  using flag_bit [of x 0] by (simp add: jos_consts)

lemma flag_push12_P [simp]: "\<not> flag (push_bit 12 p) PTE_P"
  by (simp add: flag_P_iff bit_simps)

lemma flag_U_U [simp]: "flag PTE_U PTE_U" "flag PTE_W PTE_W"
  by (simp_all add: flag_def jos_consts)

lemma PGADDR_decompose: "PGADDR (PDX la) (PTX la) (PGOFF la) = la"
proof -
  have m: "(0xFFF::u32) = mask 12" "(0x3FF::u32) = mask 10" by (simp_all add: mask_eq_decr_exp)
  show ?thesis
    unfolding PGADDR_def PDX_def PTX_def PGOFF_def m
  proof (rule bit_word_eqI)
    fix n assume "n < LENGTH(32)"
    then show "bit (push_bit 22 (drop_bit 22 la AND mask 10) OR push_bit 12 (drop_bit 12 la AND mask 10)
        OR la AND mask 12) n = bit la n"
      by (cases "n < 12"; cases "n < 22") (auto simp add: bit_simps)
  qed
qed

lemma unat_ROUNDDOWN: "unat (ROUNDDOWN a n) = unat a - unat a mod unat n"
proof -
  have "a mod n \<le> a"
    by (simp add: word_le_nat_alt unat_mod_distrib)
  then show ?thesis
    by (simp add: ROUNDDOWN_def unat_sub unat_mod_distrib)
qed

end
