(* ===== verification/Console.thy ===== *)
theory Console
  imports Prelude
begin

text \<open>
  The console driver of \<^verbatim>\<open>kern/console.c\<close>: the serial port, the text screen, the keyboard
  state machine and the circular input buffer.  The devices are modelled by the input they
  still have to deliver (\<open>ser_in\<close>, \<open>kbd_in\<close>) and by the log of the port writes; the text
  screen memory is \<open>crt_buf\<close>.  A write outside \<open>crt_buf\<close> or outside the input buffer is the
  result \<open>None\<close>, so that the absence of out-of-bounds writes is a theorem.
\<close>

section \<open>State\<close>

text \<open>A byte waiting in the keyboard controller; a mouse byte has \<open>KBS_TERR\<close> set.\<close>

datatype kbd_byte = KeyByte u8 | MouseByte

record console =
  ser_in :: "u8 list"
  kbd_in :: "kbd_byte list"
  port_log :: "(u32 \<times> u8) list"
  cprintf_log :: "string list"  \<comment> \<open>messages the driver itself prints\<close>
  serial_exists :: bool
  addr_6845 :: u32
  crt_buf :: "u16 list"
  crt_pos :: u16
  shift :: u32
  cons_buf :: "u8 list"
  rpos :: u32
  wpos :: u32

definition COM1 :: u32 where [jos_consts]: "COM1 = 0x3F8"
definition COM_TX :: u32 where [jos_consts]: "COM_TX = 0"
definition CRT_COLS :: u16 where [jos_consts]: "CRT_COLS = 80"
definition CRT_SIZE :: u16 where [jos_consts]: "CRT_SIZE = 25 * 80"
definition CONSBUFSIZE :: u32 where [jos_consts]: "CONSBUFSIZE = 512"

definition outb :: "u32 \<Rightarrow> u8 \<Rightarrow> console \<Rightarrow> console" where
  "outb port v c = c\<lparr>port_log := port_log c @ [(port, v)]\<rparr>"

section \<open>Serial port\<close>

definition serial_proc_data :: "console \<Rightarrow> int \<times> console" where
  "serial_proc_data c =
     (case ser_in c of [] \<Rightarrow> (-1, c) | b # bs \<Rightarrow> (uint b, c\<lparr>ser_in := bs\<rparr>))"

text \<open>The bounded wait for \<open>COM_LSR_TXRDY\<close> has no effect on the state.\<close>

definition serial_putc :: "u32 \<Rightarrow> console \<Rightarrow> console" where
  "serial_putc ch = outb (COM1 + COM_TX) (ucast ch)"

definition lpt_putc :: "u32 \<Rightarrow> console \<Rightarrow> console" where
  "lpt_putc ch c =
     outb (0x378 + 2) 0x08 (outb (0x378 + 2) (0x08 OR 0x04 OR 0x01) (outb (0x378 + 0) (ucast ch) c))"

section \<open>Text screen\<close>

definition crt_write :: "u16 \<Rightarrow> u16 \<Rightarrow> console \<Rightarrow> console option" where
  "crt_write i v c =
     (if unat i < length (crt_buf c) then Some (c\<lparr>crt_buf := (crt_buf c)[unat i := v]\<rparr>) else None)"

text \<open>
  The scrolling step: \<open>memmove\<close> of all rows but the first, blanks in the last row, and the
  cursor one row up; then the cursor registers are written.
\<close>

definition cga_finish :: "console \<Rightarrow> console" where
  "cga_finish c =
     (let c = (if CRT_SIZE \<le> crt_pos c
               then c\<lparr>crt_buf := drop (unat CRT_COLS) (take (unat CRT_SIZE) (crt_buf c)) @
                        replicate (unat CRT_COLS) (0x0700 OR 0x20) @ drop (unat CRT_SIZE) (crt_buf c),
                      crt_pos := crt_pos c - CRT_COLS\<rparr>
               else c)
      in outb (addr_6845 c + 1) (ucast (crt_pos c)) (outb (addr_6845 c) 15
           (outb (addr_6845 c + 1) (ucast (drop_bit 8 (crt_pos c))) (outb (addr_6845 c) 14 c))))"

text \<open>The switch of \<open>cga_putc\<close> for every character but the tab.\<close>

definition cga_char :: "u32 \<Rightarrow> console \<Rightarrow> console option" where
  "cga_char ch c =
     (let ch = (if ch AND NOT 0xFF = 0 then ch OR 0x0700 else ch); low = ch AND 0xFF in
      if low = 8 then
        (if crt_pos c > 0
         then crt_write (crt_pos c - 1) (ucast ((ch AND NOT 0xFF) OR 0x20)) (c\<lparr>crt_pos := crt_pos c - 1\<rparr>)
         else Some c)
      else if low = 10 then
        (let p = crt_pos c + CRT_COLS in Some (c\<lparr>crt_pos := p - p mod CRT_COLS\<rparr>))
      else if low = 13 then Some (c\<lparr>crt_pos := crt_pos c - crt_pos c mod CRT_COLS\<rparr>)
      else map_option (\<lambda>c. c\<lparr>crt_pos := crt_pos c + 1\<rparr>) (crt_write (crt_pos c) (ucast ch) c))"

text \<open>
  \<open>cga_putc\<close> and \<open>cons_putc\<close> call each other for the tab, which is five times
  \<open>cons_putc(' ')\<close>; the blank itself does not recur.
\<close>

definition cons_put_blank :: "console \<Rightarrow> console option" where
  "cons_put_blank c = map_option cga_finish (cga_char 0x20 (lpt_putc 0x20 (serial_putc 0x20 c)))"

definition cga_putc :: "u32 \<Rightarrow> console \<Rightarrow> console option" where
  "cga_putc ch c =
     map_option cga_finish
       (if ch AND 0xFF = 9
        then Option.bind (cons_put_blank c) (\<lambda>c. Option.bind (cons_put_blank c) (\<lambda>c.
             Option.bind (cons_put_blank c) (\<lambda>c. Option.bind (cons_put_blank c) cons_put_blank)))
        else cga_char ch c)"

definition cons_putc :: "u32 \<Rightarrow> console \<Rightarrow> console option" where
  "cons_putc ch c = cga_putc ch (lpt_putc ch (serial_putc ch c))"

definition cputchar :: "u32 \<Rightarrow> console \<Rightarrow> console option" where
  "cputchar ch c = cons_putc ch c"

section \<open>Keyboard\<close>

definition SHIFT :: u32 where [jos_consts]: "SHIFT = 0x01"
definition CTL :: u32 where [jos_consts]: "CTL = 0x02"
definition ALT :: u32 where [jos_consts]: "ALT = 0x04"
definition CAPSLOCK :: u32 where [jos_consts]: "CAPSLOCK = 0x08"
definition NUMLOCK :: u32 where [jos_consts]: "NUMLOCK = 0x10"
definition SCROLLLOCK :: u32 where [jos_consts]: "SCROLLLOCK = 0x20"
definition E0ESC :: u32 where [jos_consts]: "E0ESC = 0x40"
definition KEY_DEL :: u32 where [jos_consts]: "KEY_DEL = 0xE9"

text \<open>A 256-entry table: positional entries first, then designated ones, \<open>NO\<close> elsewhere.\<close>

definition keymap :: "u8 list \<Rightarrow> (u8 \<times> u8) list \<Rightarrow> u8 \<Rightarrow> u8" where
  "keymap base designated i =
     (if unat i < length base then base ! unat i
      else case map_of designated i of None \<Rightarrow> 0 | Some v \<Rightarrow> v)"

definition shiftcode :: "u8 \<Rightarrow> u32" where
  "shiftcode d = (if d \<in> {0x1D, 0x9D} then CTL else if d \<in> {0x2A, 0x36} then SHIFT
     else if d \<in> {0x38, 0xB8} then ALT else 0)"

definition togglecode :: "u8 \<Rightarrow> u32" where
  "togglecode d = (if d = 0x3A then CAPSLOCK else if d = 0x45 then NUMLOCK
     else if d = 0x46 then SCROLLLOCK else 0)"

definition normalmap :: "u8 \<Rightarrow> u8" where
  "normalmap = keymap
     [0x00, 0x1B, 0x31, 0x32, 0x33, 0x34, 0x35, 0x36,
      0x37, 0x38, 0x39, 0x30, 0x2D, 0x3D, 0x08, 0x09,
      0x71, 0x77, 0x65, 0x72, 0x74, 0x79, 0x75, 0x69,
      0x6F, 0x70, 0x5B, 0x5D, 0x0A, 0x00, 0x61, 0x73,
      0x64, 0x66, 0x67, 0x68, 0x6A, 0x6B, 0x6C, 0x3B,
      0x27, 0x60, 0x00, 0x5C, 0x7A, 0x78, 0x63, 0x76,
      0x62, 0x6E, 0x6D, 0x2C, 0x2E, 0x2F, 0x00, 0x2A,
      0x00, 0x20, 0x00, 0x00, 0x00, 0x00, 0x00, 0x00,
      0x00, 0x00, 0x00, 0x00, 0x00, 0x00, 0x00, 0x37,
      0x38, 0x39, 0x2D, 0x34, 0x35, 0x36, 0x2B, 0x31,
      0x32, 0x33, 0x30, 0x2E, 0x00, 0x00, 0x00, 0x00]
     [(0xC7, 0xE0), (0x9C, 0x0A), (0xB5, 0x2F), (0xC8, 0xE2), (0xC9, 0xE6),
      (0xCB, 0xE4), (0xCD, 0xE5), (0xCF, 0xE1), (0xD0, 0xE3), (0xD1, 0xE7),
      (0xD2, 0xE8), (0xD3, 0xE9)]"

definition shiftmap :: "u8 \<Rightarrow> u8" where
  "shiftmap = keymap
     [0x00, 0x1B, 0x21, 0x40, 0x23, 0x24, 0x25, 0x5E,
      0x26, 0x2A, 0x28, 0x29, 0x5F, 0x2B, 0x08, 0x09,
      0x51, 0x57, 0x45, 0x52, 0x54, 0x59, 0x55, 0x49,
      0x4F, 0x50, 0x7B, 0x7D, 0x0A, 0x00, 0x41, 0x53,
      0x44, 0x46, 0x47, 0x48, 0x4A, 0x4B, 0x4C, 0x3A,
      0x22, 0x7E, 0x00, 0x7C, 0x5A, 0x58, 0x43, 0x56,
      0x42, 0x4E, 0x4D, 0x3C, 0x3E, 0x3F, 0x00, 0x2A,
      0x00, 0x20, 0x00, 0x00, 0x00, 0x00, 0x00, 0x00,
      0x00, 0x00, 0x00, 0x00, 0x00, 0x00, 0x00, 0x37,
      0x38, 0x39, 0x2D, 0x34, 0x35, 0x36, 0x2B, 0x31,
      0x32, 0x33, 0x30, 0x2E, 0x00, 0x00, 0x00, 0x00]
     [(0xC7, 0xE0), (0x9C, 0x0A), (0xB5, 0x2F), (0xC8, 0xE2), (0xC9, 0xE6),
      (0xCB, 0xE4), (0xCD, 0xE5), (0xCF, 0xE1), (0xD0, 0xE3), (0xD1, 0xE7),
      (0xD2, 0xE8), (0xD3, 0xE9)]"

definition ctlmap :: "u8 \<Rightarrow> u8" where
  "ctlmap = keymap
     [0x00, 0x00, 0x00, 0x00, 0x00, 0x00, 0x00, 0x00,
      0x00, 0x00, 0x00, 0x00, 0x00, 0x00, 0x00, 0x00,
      0x11, 0x17, 0x05, 0x12, 0x14, 0x19, 0x15, 0x09,
      0x0F, 0x10, 0x00, 0x00, 0x0D, 0x00, 0x01, 0x13,
      0x04, 0x06, 0x07, 0x08, 0x0A, 0x0B, 0x0C, 0x00,
      0x00, 0x00, 0x00, 0x1C, 0x1A, 0x18, 0x03, 0x16,
      0x02, 0x0E, 0x0D, 0x00, 0x00, 0xEF, 0x00, 0x00]
     [(0x97, 0xE0), (0xB5, 0xEF), (0xC8, 0xE2), (0xC9, 0xE6), (0xCB, 0xE4),
      (0xCD, 0xE5), (0xCF, 0xE1), (0xD0, 0xE3), (0xD1, 0xE7), (0xD2, 0xE8),
      (0xD3, 0xE9)]"

definition charcode :: "u32 \<Rightarrow> u8 \<Rightarrow> u8" where
  "charcode sel = (if sel = 0 then normalmap else if sel = 1 then shiftmap else ctlmap)"

definition kbd_proc_data :: "console \<Rightarrow> int \<times> console" where
  "kbd_proc_data c =
     (case kbd_in c of
        [] \<Rightarrow> (-1, c)
      | MouseByte # ks \<Rightarrow> (-1, c)
      | KeyByte data # ks \<Rightarrow>
          let c = c\<lparr>kbd_in := ks\<rparr> in
          if data = 0xE0 then (0, c\<lparr>shift := shift c OR E0ESC\<rparr>)
          else if flag data 0x80 then
            (let data = (if flag (shift c) E0ESC then data else data AND 0x7F)
             in (0, c\<lparr>shift := shift c AND NOT (shiftcode data OR E0ESC)\<rparr>))
          else
            (let (data, sh) = (if flag (shift c) E0ESC
                               then (data OR 0x80, shift c AND NOT E0ESC) else (data, shift c));
                 sh = (sh OR shiftcode data) XOR togglecode data;
                 ch = ucast (charcode (sh AND (CTL OR SHIFT)) data) :: u32;
                 ch = (if flag sh CAPSLOCK
                       then (if 0x61 \<le> ch \<and> ch \<le> 0x7A then ch - 0x20
                             else if 0x41 \<le> ch \<and> ch \<le> 0x5A then ch + 0x20 else ch)
                       else ch);
                 c = c\<lparr>shift := sh\<rparr>;
                 c = (if NOT sh AND (CTL OR ALT) = 0 \<and> ch = KEY_DEL 
                      then outb 0x92 0x3 (c\<lparr>cprintf_log := cprintf_log c @ [''Rebooting!'']\<rparr>)
                      else c)
             in (uint ch, c)))"

section \<open>Input buffer\<close>

text \<open>
  \<open>cons_intr\<close> runs \<open>proc\<close> until it returns \<open>-1\<close>.  The first argument bounds the number of
  iterations (\<open>None\<close> when it is exhausted or a write is out of bounds); theorem
  \<open>input_device.cons_intr_total\<close> shows that the number of bytes the device has to deliver
  plus one is enough.
\<close>

definition cons_store :: "int \<Rightarrow> console \<Rightarrow> console option" where
  "cons_store ch c =
     (if unat (wpos c) < length (cons_buf c) then
        let w = wpos c + 1 in
        Some (c\<lparr>cons_buf := (cons_buf c)[unat (wpos c) := word_of_int ch],
                wpos := (if w = CONSBUFSIZE then 0 else w)\<rparr>)
      else None)"

fun cons_intr :: "nat \<Rightarrow> (console \<Rightarrow> int \<times> console) \<Rightarrow> console \<Rightarrow> console option" where
  "cons_intr 0 proc c = None"
| "cons_intr (Suc n) proc c =
     (let (ch, c) = proc c in
      if ch = -1 then Some c
      else if ch = 0 then cons_intr n proc c
      else Option.bind (cons_store ch c) (cons_intr n proc))"

definition serial_intr :: "console \<Rightarrow> console option" where
  "serial_intr c =
     (if serial_exists c then cons_intr (Suc (length (ser_in c))) serial_proc_data c else Some c)"

definition kbd_intr :: "console \<Rightarrow> console option" where
  "kbd_intr c = cons_intr (Suc (length (kbd_in c))) kbd_proc_data c"

definition cons_getc :: "console \<Rightarrow> (u8 \<times> console) option" where
  "cons_getc c =
     Option.bind (serial_intr c) (\<lambda>c. Option.bind (kbd_intr c) (\<lambda>c.
       if rpos c \<noteq> wpos c then
         if unat (rpos c) < length (cons_buf c) then
           let ch = cons_buf c ! unat (rpos c); r = rpos c + 1
           in Some (ch, c\<lparr>rpos := (if r = CONSBUFSIZE then 0 else r)\<rparr>)
         else None
       else Some (0, c)))"

end
