(* ===== verification/Kstate.thy ===== *)
theory Kstate
  imports Mmu Console
begin

text \<open>
  The global state of the kernel: the records of \<^verbatim>\<open>inc/trap.h\<close>, \<^verbatim>\<open>inc/memlayout.h\<close>,
  \<^verbatim>\<open>inc/env.h\<close>, \<^verbatim>\<open>kern/cpu.h\<close> and \<^verbatim>\<open>kern/spinlock.h\<close>, the global variables of \<^verbatim>\<open>kern/\<close>
  gathered in one record, and the primitive accesses to memory.

  A pointer into one of the kernel's arrays is the index it points to (\<open>struct PageInfo *\<close> is
  a page number, \<open>struct Env *\<close> an index of \<open>envs\<close>, \<open>None\<close> is \<open>NULL\<close>); a pointer to memory
  (\<open>pde_t *\<close>, \<open>pte_t *\<close>) is the 32-bit kernel virtual address itself.  Physical memory is
  an array of 32-bit words, keyed by the physical address of the word; the kernel reads and
  writes it through the mapping of all physical memory at \<open>KERNBASE\<close>.
\<close>

section \<open>Trap frames (inc/trap.h)\<close>

record PushRegs =
  reg_edi :: u32
  reg_esi :: u32
  reg_ebp :: u32
  reg_oesp :: u32
  reg_ebx :: u32
  reg_edx :: u32
  reg_ecx :: u32
  reg_eax :: u32

record Trapframe =
  tf_regs :: PushRegs
  tf_es :: u16
  tf_ds :: u16
  tf_trapno :: u32
  tf_err :: u32
  tf_eip :: u32
  tf_cs :: u16
  tf_eflags :: u32
  tf_esp :: u32
  tf_ss :: u16

definition zero_regs :: PushRegs where
  "zero_regs = \<lparr>reg_edi = 0, reg_esi = 0, reg_ebp = 0, reg_oesp = 0,
     reg_ebx = 0, reg_edx = 0, reg_ecx = 0, reg_eax = 0\<rparr>"

definition zero_tf :: Trapframe where
  "zero_tf = \<lparr>tf_regs = zero_regs, tf_es = 0, tf_ds = 0, tf_trapno = 0, tf_err = 0,
     tf_eip = 0, tf_cs = 0, tf_eflags = 0, tf_esp = 0, tf_ss = 0\<rparr>"

section \<open>Pages, environments, processors\<close>

record PageInfo =
  pp_link :: "u32 option"
  pp_ref :: u16

datatype EnvStatus = ENV_FREE | ENV_DYING | ENV_RUNNABLE | ENV_RUNNING | ENV_NOT_RUNNABLE

datatype EnvType = ENV_TYPE_USER

record Env =
  env_tf :: Trapframe
  env_link :: "nat option"
  env_id :: u32
  env_parent_id :: u32
  env_type :: EnvType
  env_status :: EnvStatus
  env_runs :: u32
  env_cpunum :: nat
  env_pgdir :: u32
  env_pgfault_upcall :: u32
  env_ipc_recving :: bool
  env_ipc_dstva :: u32
  env_ipc_value :: u32
  env_ipc_from :: u32
  env_ipc_perm :: u32

definition NENV :: nat where [jos_consts]: "NENV = 1024"
definition ENVGENSHIFT :: nat where [jos_consts]: "ENVGENSHIFT = 12"
definition NCPU :: nat where [jos_consts]: "NCPU = 8"

definition ENVX :: "u32 \<Rightarrow> nat" where
  "ENVX envid = unat (envid AND (of_nat NENV - 1))"

datatype CpuStatus = CPU_UNUSED | CPU_STARTED | CPU_HALTED

text \<open>The padding fields of the structure are left out.\<close>

record Taskstate =
  ts_link :: u32
  ts_esp0 :: u32
  ts_ss0 :: u16
  ts_esp1 :: u32
  ts_ss1 :: u16
  ts_esp2 :: u32
  ts_ss2 :: u16
  ts_cr3 :: u32
  ts_eip :: u32
  ts_eflags :: u32
  ts_eax :: u32
  ts_ecx :: u32
  ts_edx :: u32
  ts_ebx :: u32
  ts_esp :: u32
  ts_ebp :: u32
  ts_esi :: u32
  ts_edi :: u32
  ts_es :: u16
  ts_cs :: u16
  ts_ss :: u16
  ts_ds :: u16
  ts_fs :: u16
  ts_gs :: u16
  ts_ldt :: u16
  ts_t :: u16
  ts_iomb :: u16

record CpuInfo =
  cpu_id :: u8
  cpu_status :: CpuStatus
  cpu_env :: "nat option"
  cpu_ts :: Taskstate

record spinlock =
  locked :: bool
  lk_name :: string
  lk_cpu :: "nat option"
  lk_pcs :: "u32 list"

section \<open>The kernel's global state\<close>

record kstate =
  npages :: u32
  npages_basemem :: u32
  pages :: "u32 \<Rightarrow> PageInfo"
  page_free_list :: "u32 option"
  phys :: "u32 \<Rightarrow> u32"
  kern_pgdir :: u32
  nextfree :: u32
  mmio_base :: u32
  user_mem_check_addr :: u32
  envs :: "nat \<Rightarrow> Env"
  env_free_list :: "nat option"
  cpus :: "nat \<Rightarrow> CpuInfo"
  cpunum :: nat
  cr2 :: u32
  cr3 :: u32
  tlb :: "u32 \<Rightarrow> u32 option"
  kernel_lock :: spinlock
  cons :: console
  conout :: string
  ebp :: u32
  kstack :: "u32 \<Rightarrow> u32"
  panicstr :: "string option"
  ncpu :: nat
  bootcpu :: nat
  ismp :: bool
  lapicaddr :: u32
  lapic :: u32
  lapic_log :: "(u32 \<times> u32) list"
  ports :: "(u16 \<times> u8) list"
  irq_mask_8259A :: u16
  didinit :: bool

text \<open>
  \<open>lapic_log\<close> is the sequence of writes to the registers of the local APIC (register index,
  value), \<open>ports\<close> the sequence of \<open>outb\<close>s to the interrupt controllers and the clock.

  \<open>conout\<close> is the character stream handed to \<open>cputchar\<close> by \<open>cprintf\<close>; what the driver makes of
  each character is theory \<open>Console\<close>.  \<open>ebp\<close> and \<open>kstack\<close> are the frame pointer and the words
  of the kernel stacks, which only the debugging code reads.
\<close>

definition kputs :: "string \<Rightarrow> kstate \<Rightarrow> kstate" where [kops]:
  "kputs str s = s\<lparr>conout := conout s @ str\<rparr>"

definition hexdigit :: "nat \<Rightarrow> char" where
  "hexdigit d = ''0123456789abcdef'' ! d"

text \<open>\<open>%08x\<close>: eight hexadecimal digits.\<close>

definition hex8 :: "u32 \<Rightarrow> string" where
  "hex8 x = map (\<lambda>k. hexdigit (unat (drop_bit (4 * k) x AND 0xF))) [7, 6, 5, 4, 3, 2, 1, 0]"

text \<open>
  The value of the globals when the kernel is entered: the C compiler's zero initialisation.
  Everything the kernel relies on is established from here by its initialisation code.
\<close>

definition zero_env :: Env where
  "zero_env = \<lparr>env_tf = zero_tf, env_link = None, env_id = 0, env_parent_id = 0,
     env_type = ENV_TYPE_USER, env_status = ENV_FREE, env_runs = 0, env_cpunum = 0,
     env_pgdir = 0, env_pgfault_upcall = 0, env_ipc_recving = False, env_ipc_dstva = 0,
     env_ipc_value = 0, env_ipc_from = 0, env_ipc_perm = 0\<rparr>"

definition zero_page :: PageInfo where
  "zero_page = \<lparr>pp_link = None, pp_ref = 0\<rparr>"

definition zero_cpu :: CpuInfo where
  "zero_cpu = \<lparr>cpu_id = 0, cpu_status = CPU_UNUSED, cpu_env = None,
     cpu_ts = \<lparr>ts_link = 0, ts_esp0 = 0, ts_ss0 = 0, ts_esp1 = 0, ts_ss1 = 0, ts_esp2 = 0, ts_ss2 = 0,
       ts_cr3 = 0, ts_eip = 0, ts_eflags = 0, ts_eax = 0, ts_ecx = 0, ts_edx = 0, ts_ebx = 0, ts_esp = 0,
       ts_ebp = 0, ts_esi = 0, ts_edi = 0, ts_es = 0, ts_cs = 0, ts_ss = 0, ts_ds = 0, ts_fs = 0, ts_gs = 0,
       ts_ldt = 0, ts_t = 0, ts_iomb = 0\<rparr>\<rparr>"

definition zero_console :: console where
  "zero_console = \<lparr>ser_in = [], kbd_in = [], port_log = [], cprintf_log = [],
     serial_exists = False, addr_6845 = 0, crt_buf = replicate 2000 0, crt_pos = 0, shift = 0,
     cons_buf = replicate 512 0, rpos = 0, wpos = 0\<rparr>"

definition bss_state :: kstate where
  "bss_state = \<lparr>npages = 0, npages_basemem = 0, pages = (\<lambda>_. zero_page), page_free_list = None,
     phys = (\<lambda>_. 0), kern_pgdir = 0, nextfree = 0, mmio_base = 0, user_mem_check_addr = 0,
     envs = (\<lambda>_. zero_env), env_free_list = None, cpus = (\<lambda>_. zero_cpu), cpunum = 0,
     cr2 = 0, cr3 = 0, tlb = Map.empty,
     kernel_lock = \<lparr>locked = False, lk_name = ''kernel_lock'', lk_cpu = None, lk_pcs = replicate 10 0\<rparr>,
     cons = zero_console, conout = [], ebp = 0, kstack = (\<lambda>_. 0),
     panicstr = None, ncpu = 0, bootcpu = 0, ismp = False, lapicaddr = 0, lapic = 0, lapic_log = [],
     ports = [], irq_mask_8259A = 0xFFFB, didinit = False\<rparr>"

definition curenv :: "kstate \<Rightarrow> nat option" where
  "curenv s = cpu_env (cpus s (cpunum s))"

definition set_curenv :: "nat option \<Rightarrow> kstate \<Rightarrow> kstate" where [kops]:
  "set_curenv e s =
     s\<lparr>cpus := (cpus s)(cpunum s := (cpus s (cpunum s))\<lparr>cpu_env := e\<rparr>)\<rparr>"

definition upd_page :: "u32 \<Rightarrow> (PageInfo \<Rightarrow> PageInfo) \<Rightarrow> kstate \<Rightarrow> kstate" where [kops]:
  "upd_page p f s = s\<lparr>pages := (pages s)(p := f (pages s p))\<rparr>"

definition upd_env :: "nat \<Rightarrow> (Env \<Rightarrow> Env) \<Rightarrow> kstate \<Rightarrow> kstate" where [kops]:
  "upd_env e f s = s\<lparr>envs := (envs s)(e := f (envs s e))\<rparr>"

section \<open>Memory\<close>

text \<open>Reads and writes through the kernel's mapping of physical memory at \<open>KERNBASE\<close>.\<close>

definition kload :: "kstate \<Rightarrow> u32 \<Rightarrow> u32" where [kops]:
  "kload s kva = phys s (kva - KERNBASE)"

definition kstore :: "u32 \<Rightarrow> u32 \<Rightarrow> kstate \<Rightarrow> kstate" where [kops]:
  "kstore kva v s = s\<lparr>phys := (phys s)(kva - KERNBASE := v)\<rparr>"

text \<open>\<open>memset(kva, 0, PGSIZE)\<close> and \<open>memcpy(dst, src, PGSIZE)\<close> on whole pages.\<close>

definition kzero_page :: "u32 \<Rightarrow> kstate \<Rightarrow> kstate" where [kops]:
  "kzero_page kva s =
     s\<lparr>phys := (\<lambda>a. if PGNUM a = PGNUM (kva - KERNBASE) then 0 else phys s a)\<rparr>"

definition kcopy_page :: "u32 \<Rightarrow> u32 \<Rightarrow> kstate \<Rightarrow> kstate" where [kops]:
  "kcopy_page dst src s =
     s\<lparr>phys := (\<lambda>a. if PGNUM a = PGNUM (dst - KERNBASE)
        then phys s (PTE_ADDR (src - KERNBASE) OR PGOFF a) else phys s a)\<rparr>"

text \<open>\<open>lcr3\<close> loads the page directory base and flushes the TLB, \<open>invlpg\<close> drops one entry.\<close>

definition lcr3 :: "u32 \<Rightarrow> kstate \<Rightarrow> kstate" where [kops]:
  "lcr3 pa s = s\<lparr>cr3 := pa, tlb := Map.empty\<rparr>"

definition invlpg :: "u32 \<Rightarrow> kstate \<Rightarrow> kstate" where [kops]:
  "invlpg va s = s\<lparr>tlb := (tlb s)(PGNUM va := None)\<rparr>"

section \<open>Address conversions (kern/pmap.h)\<close>

definition PADDR :: "u32 \<Rightarrow> kstate \<Rightarrow> (u32, kstate) outcome" where
  "PADDR kva s =
     (if kva < KERNBASE then Panic ''PADDR called with invalid kva'' s
      else Ret (kva - KERNBASE) s)"

definition KADDR :: "u32 \<Rightarrow> kstate \<Rightarrow> (u32, kstate) outcome" where
  "KADDR pa s =
     (if npages s \<le> PGNUM pa then Panic ''KADDR called with invalid pa'' s
      else Ret (pa + KERNBASE) s)"

definition page2pa :: "u32 \<Rightarrow> u32" where
  "page2pa pp = push_bit 12 pp"

definition pa2page :: "u32 \<Rightarrow> kstate \<Rightarrow> (u32, kstate) outcome" where
  "pa2page pa s =
     (if npages s \<le> PGNUM pa then Panic ''pa2page called with invalid pa'' s
      else Ret (PGNUM pa) s)"

definition page2kva :: "u32 \<Rightarrow> kstate \<Rightarrow> (u32, kstate) outcome" where
  "page2kva pp s = KADDR (page2pa pp) s"

definition ALLOC_ZERO :: u32 where [jos_consts]: "ALLOC_ZERO = 1"

section \<open>Facts about the conversions\<close>

lemma PGNUM_page2pa: "unat p < 0x100000 \<Longrightarrow> PGNUM (page2pa p) = p"
  by (simp add: page2pa_def PGNUM_push12)

lemma flag_page2pa_P [simp]: "\<not> flag (page2pa p) PTE_P"
  by (simp add: page2pa_def)

lemma page2pa_PGNUM: "page2pa (PGNUM a) = PTE_ADDR a"
  by (simp add: page2pa_def PTE_ADDR_PGNUM)

text \<open>
  The kernel's mapping covers at most 256 MB (\<open>2 ^ 32 - KERNBASE\<close>), so a machine it can
  manage has at most \<open>0x10000\<close> pages.
\<close>

definition npages_ok :: "kstate \<Rightarrow> bool" where
  "npages_ok s \<longleftrightarrow> unat (npages s) \<le> 0x10000"

lemma page_bound: "npages_ok s \<Longrightarrow> p < npages s \<Longrightarrow> unat p < 0x10000"
  by (auto simp: npages_ok_def unat_mono_less)

lemma PGNUM_page2pa_valid [simp]:
  "npages_ok s \<Longrightarrow> p < npages s \<Longrightarrow> PGNUM (page2pa p) = p"
  using page_bound [of s p] by (simp add: PGNUM_page2pa)

lemma page2kva_valid:
  "npages_ok s \<Longrightarrow> p < npages s \<Longrightarrow> page2kva p s = Ret (page2pa p + KERNBASE) s"
  by (auto simp: page2kva_def KADDR_def)

lemma PADDR_page2kva:
  assumes "npages_ok s" and "p < npages s"
  shows "PADDR (page2pa p + KERNBASE) t = Ret (page2pa p) t"
proof -
  from page_bound [OF assms] have "unat (page2pa p) = unat p * 4096" and "unat p < 0x10000"
    by (simp_all add: page2pa_def unat_push12)
  then have "\<not> page2pa p + KERNBASE < KERNBASE"
    by (simp add: unat_mono_less unat_word_ariths jos_consts)
  then show ?thesis by (simp add: PADDR_def)
qed

text \<open>
  The kernel virtual address of word \<open>i\<close> of page \<open>p\<close>.  On pages the kernel can address and
  indices below 1024 it determines both.
\<close>

definition kva :: "u32 \<Rightarrow> u32 \<Rightarrow> u32" where
  "kva p i = page2pa p + KERNBASE + 4 * i"

lemma unat_word_in_page:
  assumes "unat p < 0x100000" and "unat i < 1024"
  shows "unat (page2pa p + 4 * i) = unat p * 4096 + 4 * unat i"
  using assms by (simp add: page2pa_def push_bit_eq_mult unat_word_ariths)

lemma kva_offset: "kva p i - KERNBASE = page2pa p + 4 * i"
  by (simp add: kva_def)

lemma PGNUM_kva [simp]:
  assumes "unat p < 0x10000" and "unat i < 1024"
  shows "PGNUM (kva p i - KERNBASE) = p"
proof -
  have "unat (PGNUM (kva p i - KERNBASE)) = (unat p * 4096 + 4 * unat i) div 4096"
    using assms by (simp add: kva_offset unat_PGNUM unat_word_in_page)
  also have "\<dots> = unat p"
    using assms by simp
  finally show ?thesis by (simp add: word_unat_eq_iff)
qed

lemma kva_eq_iff:
  assumes "unat p < 0x10000" and "unat i < 1024" and "unat q < 0x10000" and "unat j < 1024"
  shows "kva p i - KERNBASE = kva q j - KERNBASE \<longleftrightarrow> p = q \<and> i = j"
proof
  assume *: "kva p i - KERNBASE = kva q j - KERNBASE"
  with PGNUM_kva [OF assms(1,2)] PGNUM_kva [OF assms(3,4)] have "p = q" by simp
  moreover from * have "unat (page2pa p + 4 * i) = unat (page2pa q + 4 * j)"
    by (simp add: kva_offset)
  ultimately have "unat i = unat j"
    using assms by (simp add: unat_word_in_page)
  with \<open>p = q\<close> show "p = q \<and> i = j" by (simp add: word_unat_eq_iff)
qed simp

lemma kload_kstore_kva:
  assumes "unat p < 0x10000" and "unat i < 1024" and "unat q < 0x10000" and "unat j < 1024"
  shows "kload (kstore (kva p i) v s) (kva q j) = (if p = q \<and> i = j then v else kload s (kva q j))"
  using kva_eq_iff [OF assms] by (auto simp: kops)

lemma kload_kzero_page_kva:
  assumes "unat p < 0x10000" and "unat q < 0x10000" and "unat j < 1024"
  shows "kload (kzero_page (kva p 0) s) (kva q j) = (if p = q then 0 else kload s (kva q j))"
  using PGNUM_kva [OF assms(1), of 0] PGNUM_kva [OF assms(2,3)] by (auto simp: kops)

end
