(* ===== verification/Free_List.thy ===== *)
theory Free_List
  imports Kstate
begin

text \<open>
  Intrusive singly linked free lists.  The kernel keeps two of them: the free physical pages
  (\<open>page_free_list\<close>, linked by \<open>pp_link\<close>) and the free environments (\<open>env_free_list\<close>, linked
  by \<open>env_link\<close>).  Both are used as stacks.  \<open>chain\<close> relates the links in the state to the
  list of elements; the locale states what a push and a pop do to head and links, and
  derives what they do to the list, once for both instances.
\<close>

section \<open>Linked chains\<close>

primrec chain :: "('k \<Rightarrow> 'k option) \<Rightarrow> 'k option \<Rightarrow> 'k list \<Rightarrow> bool" where
  "chain link h [] \<longleftrightarrow> h = None"
| "chain link h (x # xs) \<longleftrightarrow> h = Some x \<and> chain link (link x) xs"

lemma chain_None [simp]: "chain link None xs \<longleftrightarrow> xs = []"
  by (cases xs) auto

lemma chain_Some: "chain link (Some x) xs \<longleftrightarrow> (\<exists>ys. xs = x # ys \<and> chain link (link x) ys)"
  by (cases xs) auto

lemma chain_unique: "chain link h xs \<Longrightarrow> chain link h ys \<Longrightarrow> xs = ys"
  by (induction xs arbitrary: h ys) (auto simp: chain_Some)

lemma chain_upd: "x \<notin> set xs \<Longrightarrow> chain (link(x := v)) h xs = chain link h xs"
  by (induction xs arbitrary: h) auto

lemma chain_cong: "(\<And>x. x \<in> set xs \<Longrightarrow> link x = link' x) \<Longrightarrow> chain link h xs = chain link' h xs"
  by (induction xs arbitrary: h) auto

lemma chain_suffix: "chain link h (ys @ x # zs) \<Longrightarrow> chain link (link x) zs"
  by (induction ys arbitrary: h) auto

text \<open>A chain that ends cannot come back to an element it has passed.\<close>

lemma chain_distinct: "chain link h xs \<Longrightarrow> distinct xs"
proof (induction xs arbitrary: h)
  case Nil
  then show ?case by simp
next
  case (Cons x xs)
  have "x \<notin> set xs"
  proof
    assume "x \<in> set xs"
    then obtain ys zs where xs: "xs = ys @ x # zs" by (auto simp: in_set_conv_decomp)
    from Cons.prems have "chain link (link x) xs" by simp
    moreover from this have "chain link (link x) zs" unfolding xs by (rule chain_suffix)
    ultimately have "zs = xs" by (blast intro: chain_unique)
    with \<open>xs = ys @ x # zs\<close> show False by simp
  qed
  with Cons show ?case by auto
qed

section \<open>The interface\<close>

locale free_stack =
  fixes head :: "'s \<Rightarrow> 'k option"
    and link :: "'s \<Rightarrow> 'k \<Rightarrow> 'k option"
    and push :: "'k \<Rightarrow> 's \<Rightarrow> 's"
    and pop :: "'s \<Rightarrow> 's"
  assumes head_push: "head (push k s) = Some k"
    and link_push: "link (push k s) = (link s)(k := head s)"
    and head_pop: "head s = Some k \<Longrightarrow> head (pop s) = link s k"
    and link_pop: "head s = Some k \<Longrightarrow> j \<noteq> k \<Longrightarrow> link (pop s) j = link s j"
begin

definition elems :: "'s \<Rightarrow> 'k list \<Rightarrow> bool" where
  "elems s xs \<longleftrightarrow> chain (link s) (head s) xs"

lemma elems_distinct: "elems s xs \<Longrightarrow> distinct xs"
  unfolding elems_def by (rule chain_distinct)

lemma elems_unique: "elems s xs \<Longrightarrow> elems s ys \<Longrightarrow> xs = ys"
  unfolding elems_def by (rule chain_unique)

lemma elems_Nil: "elems s [] \<longleftrightarrow> head s = None"
  by (simp add: elems_def)

lemma elems_head: "elems s (k # xs) \<Longrightarrow> head s = Some k"
  by (simp add: elems_def)

lemma elems_push: "elems s xs \<Longrightarrow> k \<notin> set xs \<Longrightarrow> elems (push k s) (k # xs)"
  by (simp add: elems_def head_push link_push chain_upd)

lemma elems_pop:
  assumes "elems s (k # xs)"
  shows "elems (pop s) xs"
proof -
  from assms have hd: "head s = Some k" and ch: "chain (link s) (link s k) xs"
    by (simp_all add: elems_def)
  from elems_distinct [OF assms] have "k \<notin> set xs" by simp
  then have "chain (link (pop s)) (link s k) xs = chain (link s) (link s k) xs"
    by (intro chain_cong link_pop [OF hd]) auto
  with hd ch show ?thesis by (simp add: elems_def head_pop)
qed

lemma pop_push: "elems s xs \<Longrightarrow> k \<notin> set xs \<Longrightarrow> elems (pop (push k s)) xs"
  by (rule elems_pop) (rule elems_push)

text \<open>Pushing the members of a list one after the other stacks them in reverse.\<close>

lemma elems_push_all:
  assumes "elems s xs" and "distinct ks" and "set ks \<inter> set xs = {}"
  shows "elems (fold push ks s) (rev ks @ xs)"
  using assms
proof (induction ks arbitrary: s xs)
  case Nil
  then show ?case by simp
next
  case (Cons k ks)
  have "elems (push k s) (k # xs)"
    using Cons.prems by (intro elems_push) auto
  moreover have "set ks \<inter> set (k # xs) = {}" using Cons.prems by auto
  ultimately show ?case using Cons.IH [of "push k s" "k # xs"] Cons.prems by simp
qed

end

end
