(* ===== verification/Page_Alloc.thy ===== *)
theory Page_Alloc
  imports Free_List
begin

text \<open>
  The physical page allocator of \<^verbatim>\<open>kern/pmap.c\<close>: \<open>boot_alloc\<close>, \<open>page_init\<close>, \<open>page_alloc\<close>,
  \<open>page_free\<close> and \<open>page_decref\<close>, with the free-list invariant and the functional behaviour
  of every operation.
\<close>

section \<open>boot_alloc\<close>

text \<open>
  \<open>end_sym\<close> is the address of the linker's \<open>end\<close> symbol.  The static variable
  \<open>nextfree\<close> is a field of the state; \<open>0\<close> is its initial \<open>NULL\<close>.
\<close>

definition boot_alloc :: "u32 \<Rightarrow> u32 \<Rightarrow> kstate \<Rightarrow> u32 \<times> kstate" where
  "boot_alloc end_sym n s =
     (let s = (if nextfree s = 0 then s\<lparr>nextfree := ROUNDUP end_sym PGSIZE\<rparr> else s);
          result = nextfree s
      in (result, s\<lparr>nextfree := ROUNDUP (result + n) PGSIZE\<rparr>))"

section \<open>The free list\<close>

definition page_list_push :: "u32 \<Rightarrow> kstate \<Rightarrow> kstate" where
  "page_list_push p s =
     (upd_page p (\<lambda>i. i\<lparr>pp_link := page_free_list s\<rparr>) s)\<lparr>page_free_list := Some p\<rparr>"

definition page_list_pop :: "kstate \<Rightarrow> kstate" where
  "page_list_pop s =
     (case page_free_list s of
        None \<Rightarrow> s
      | Some ret \<Rightarrow>
          upd_page ret (\<lambda>i. i\<lparr>pp_link := None\<rparr>)
            (s\<lparr>page_free_list := pp_link (pages s ret)\<rparr>))"

interpretation pl: free_stack page_free_list "\<lambda>s p. pp_link (pages s p)" page_list_push page_list_pop
  by unfold_locales (auto simp: page_list_push_def page_list_pop_def kops fun_eq_iff)

abbreviation free_pages :: "kstate \<Rightarrow> u32 list \<Rightarrow> bool" where
  "free_pages \<equiv> pl.elems"

section \<open>page_init\<close>

definition page_init_step :: "u32 \<Rightarrow> u32 \<Rightarrow> u32 \<Rightarrow> kstate \<Rightarrow> kstate" where
  "page_init_step io_hole_start_page kernel_end_page i s =
     (if i = 0 then upd_page i (\<lambda>_. \<lparr>pp_link = None, pp_ref = 1\<rparr>) s
      else if io_hole_start_page \<le> i \<and> i < kernel_end_page
        then upd_page i (\<lambda>_. \<lparr>pp_link = None, pp_ref = 1\<rparr>) s
      else if i = MPENTRY_PADDR div PGSIZE
        then upd_page i (\<lambda>_. \<lparr>pp_link = None, pp_ref = 1\<rparr>) s
      else page_list_push i (upd_page i (\<lambda>pi. pi\<lparr>pp_ref := 0\<rparr>) s))"

definition page_init :: "u32 \<Rightarrow> kstate \<Rightarrow> (unit, kstate) outcome" where
  "page_init end_sym s =
     (let (va, s) = boot_alloc end_sym 0 s in
      kbind (PADDR va s) (\<lambda>pa s.
        Ret () (fold (page_init_step (IOPHYSMEM div PGSIZE) (pa div PGSIZE))
                  (map of_nat [0..<unat (npages s)]) s)))"

section \<open>page_alloc, page_free, page_decref\<close>

definition page_alloc :: "u32 \<Rightarrow> kstate \<Rightarrow> (u32 option, kstate) outcome" where
  "page_alloc alloc_flags s =
     (case page_free_list s of
        None \<Rightarrow> Ret None s
      | Some ret \<Rightarrow>
          let s = page_list_pop s in
          if flag alloc_flags ALLOC_ZERO
          then kbind (page2kva ret s) (\<lambda>a s. Ret (Some ret) (kzero_page a s))
          else Ret (Some ret) s)"

definition page_free :: "u32 \<Rightarrow> kstate \<Rightarrow> (unit, kstate) outcome" where
  "page_free pp s =
     (if pp_ref (pages s pp) \<noteq> 0 \<or> pp_link (pages s pp) \<noteq> None
      then Panic ''page_free can't free page which pp_ref is nonzero or pp_link is not NULL'' s
      else Ret () (page_list_push pp s))"

definition page_decref :: "u32 \<Rightarrow> kstate \<Rightarrow> (unit, kstate) outcome" where
  "page_decref pp s =
     (let s = upd_page pp (\<lambda>i. i\<lparr>pp_ref := pp_ref i - 1\<rparr>) s in
      if pp_ref (pages s pp) = 0 then page_free pp s else Ret () s)"

section \<open>Invariant\<close>

text \<open>
  The free list is a proper list of existing pages that carry no reference, and every
  existing page that is not on it has no link (which is how \<open>page_free\<close> recognises a double
  free).
\<close>

definition free_ok :: "u32 list \<Rightarrow> kstate \<Rightarrow> bool" where
  "free_ok fl s \<longleftrightarrow> npages_ok s \<and> free_pages s fl \<and>
     (\<forall>p \<in> set fl. p < npages s \<and> pp_ref (pages s p) = 0) \<and>
     (\<forall>p. p < npages s \<longrightarrow> p \<notin> set fl \<longrightarrow> pp_link (pages s p) = None)"

text \<open>
  An operation of the memory system changes the page descriptors, the free list, memory and
  the TLB, and leaves every other field as it is.
\<close>

definition vm_only :: "kstate \<Rightarrow> kstate \<Rightarrow> bool" where
  "vm_only s t \<longleftrightarrow>
     npages t = npages s \<and> npages_basemem t = npages_basemem s \<and>
     kern_pgdir t = kern_pgdir s \<and> nextfree t = nextfree s \<and> mmio_base t = mmio_base s \<and>
     user_mem_check_addr t = user_mem_check_addr s \<and> envs t = envs s \<and>
     env_free_list t = env_free_list s \<and> cpus t = cpus s \<and> cpunum t = cpunum s \<and>
     cr2 t = cr2 s \<and> cr3 t = cr3 s \<and> kernel_lock t = kernel_lock s \<and>
     cons t = cons s \<and> conout t = conout s \<and> ebp t = ebp s \<and> kstack t = kstack s"

lemma vm_only_refl [simp]: "vm_only s s"
  by (simp add: vm_only_def)

lemma vm_only_trans [trans]: "vm_only s t \<Longrightarrow> vm_only t u \<Longrightarrow> vm_only s u"
  by (simp add: vm_only_def)

lemma vm_only_ops [frame, simp]:
  "vm_only s (kstore a v s)" "vm_only s (kzero_page a s)" "vm_only s (invlpg va s)"
  "vm_only s (upd_page p f s)"
  by (simp_all add: vm_only_def kops)

lemma vm_only_npages_ok: "vm_only s t \<Longrightarrow> npages_ok t = npages_ok s"
  by (simp add: vm_only_def npages_ok_def)

section \<open>Behaviour of the operations\<close>

lemma free_ok_distinct: "free_ok fl s \<Longrightarrow> distinct fl"
  by (auto simp: free_ok_def dest: pl.elems_distinct)

lemma free_ok_unique: "free_ok fl s \<Longrightarrow> free_ok fl' s \<Longrightarrow> fl = fl'"
  by (auto simp: free_ok_def dest: pl.elems_unique)

lemma page_list_pop_eq:
  "page_free_list s = Some p \<Longrightarrow>
   page_list_pop s = s\<lparr>pages := (pages s)(p := (pages s p)\<lparr>pp_link := None\<rparr>),
                       page_free_list := pp_link (pages s p)\<rparr>"
  by (simp add: page_list_pop_def kops)

lemma page_list_push_eq:
  "page_list_push p s = s\<lparr>pages := (pages s)(p := (pages s p)\<lparr>pp_link := page_free_list s\<rparr>),
                          page_free_list := Some p\<rparr>"
  by (simp add: page_list_push_def kops)

lemma free_ok_pop:
  assumes "free_ok (p # fl) s"
  shows "free_ok fl (page_list_pop s)"
proof -
  from assms have hd: "page_free_list s = Some p" and el: "free_pages s (p # fl)"
    by (auto simp: free_ok_def dest: pl.elems_head)
  from assms have "p \<notin> set fl" by (auto dest: free_ok_distinct)
  with assms hd pl.elems_pop [OF el] show ?thesis
    by (auto simp: free_ok_def page_list_pop_eq npages_ok_def)
qed

lemma free_ok_push:
  assumes "free_ok fl s" and "p < npages s" and "p \<notin> set fl" and "pp_ref (pages s p) = 0"
  shows "free_ok (p # fl) (page_list_push p s)"
  using assms pl.elems_push [of s fl p]
  by (auto simp: free_ok_def page_list_push_eq npages_ok_def)

definition alloc_state :: "u32 \<Rightarrow> u32 \<Rightarrow> kstate \<Rightarrow> kstate" where
  "alloc_state alloc_flags p s =
     (if flag alloc_flags ALLOC_ZERO then kzero_page (kva p 0) (page_list_pop s)
      else page_list_pop s)"

lemma page_alloc_None: "free_ok [] s \<Longrightarrow> page_alloc f s = Ret None s"
  by (simp add: page_alloc_def free_ok_def pl.elems_Nil)

lemma page_alloc_Some:
  assumes "free_ok (p # fl) s"
  shows "page_alloc f s = Ret (Some p) (alloc_state f p s)"
proof -
  from assms have hd: "page_free_list s = Some p"
    and ok: "npages_ok (page_list_pop s)" "p < npages (page_list_pop s)"
    by (auto simp: free_ok_def npages_ok_def page_list_pop_eq dest: pl.elems_head)
  show ?thesis
    using page2kva_valid [OF ok] by (simp add: page_alloc_def hd alloc_state_def kva_def)
qed

lemma alloc_state_facts:
  assumes "free_ok (p # fl) s"
  shows "free_ok fl (alloc_state f p s)" and "vm_only s (alloc_state f p s)"
    and "p < npages s" and "p \<notin> set fl" and "pp_ref (pages s p) = 0"
    and "pp_ref (pages (alloc_state f p s) q) = pp_ref (pages s q)"
proof -
  from assms have hd: "page_free_list s = Some p"
    by (auto simp: free_ok_def dest: pl.elems_head)
  show "free_ok fl (alloc_state f p s)"
    using free_ok_pop [OF assms]
    by (simp add: alloc_state_def free_ok_def pl.elems_def kops npages_ok_def)
  show "vm_only s (alloc_state f p s)"
    by (simp add: alloc_state_def vm_only_def page_list_pop_eq [OF hd] kops)
  show "p < npages s" "pp_ref (pages s p) = 0" using assms by (simp_all add: free_ok_def)
  show "p \<notin> set fl" using assms by (auto dest: free_ok_distinct)
  show "pp_ref (pages (alloc_state f p s) q) = pp_ref (pages s q)"
    by (simp add: alloc_state_def page_list_pop_eq [OF hd] kops)
qed

lemma kload_alloc_state:
  assumes "free_ok (p # fl) s" and "unat q < 0x10000" and "unat j < 1024"
  shows "kload (alloc_state f p s) (kva q j) =
    (if flag f ALLOC_ZERO \<and> q = p then 0 else kload s (kva q j))"
proof -
  from assms have "unat p < 0x10000" by (auto simp: free_ok_def intro: page_bound)
  with assms show ?thesis
    by (auto simp: alloc_state_def kload_kzero_page_kva page_list_pop_eq
        free_ok_def kops dest: pl.elems_head)
qed

lemma page_free_ok:
  assumes "free_ok fl s" and "p < npages s" and "p \<notin> set fl" and "pp_ref (pages s p) = 0"
  shows "page_free p s = Ret () (page_list_push p s)"
  using assms by (simp add: page_free_def free_ok_def)

text \<open>A second \<open>page_free\<close> of the same page is caught, except when the free list was empty.\<close>

lemma page_free_double:
  assumes "free_ok (p # q # fl) s"
  shows "panics (page_free p s)"
  using assms by (auto simp: page_free_def free_ok_def pl.elems_def)

lemma page_decref_keep:
  assumes "pp_ref (pages s p) \<noteq> 1"
  shows "page_decref p s = Ret () (upd_page p (\<lambda>i. i\<lparr>pp_ref := pp_ref i - 1\<rparr>) s)"
  using assms by (simp add: page_decref_def kops Let_def)

lemma page_decref_free:
  assumes "free_ok fl s" and "p < npages s" and "p \<notin> set fl" and "pp_ref (pages s p) = 1"
  shows "page_decref p s = Ret () (page_list_push p (upd_page p (\<lambda>i. i\<lparr>pp_ref := 0\<rparr>) s))"
  using assms by (auto simp: page_decref_def page_free_def free_ok_def kops Let_def)

end
