(* ===== verification/Page_Table.thy ===== *)
theory Page_Table
  imports Page_Alloc
begin

text \<open>
  The two-level page table operations of \<^verbatim>\<open>kern/pmap.c\<close>: \<open>pgdir_walk\<close>,
  \<open>boot_map_region\<close>, \<open>page_insert\<close>, \<open>page_lookup\<close>, \<open>page_remove\<close>, \<open>tlb_invalidate\<close>,
  \<open>mmio_map_region\<close> and \<open>user_mem_check\<close>.  A \<open>pde_t *\<close> or \<open>pte_t *\<close> is a kernel virtual
  address; adding \<open>i\<close> to such a pointer adds \<open>4 * i\<close> bytes.
\<close>

section \<open>pgdir_walk\<close>

definition pgdir_walk :: "u32 \<Rightarrow> u32 \<Rightarrow> bool \<Rightarrow> kstate \<Rightarrow> (u32 option, kstate) outcome" where
  "pgdir_walk pgdir va create s =
     (let pde_ptr = pgdir + 4 * PDX va in
      kbind
        (if flag (kload s pde_ptr) PTE_P then Ret True s
         else if \<not> create then Ret False s
         else kbind (page_alloc 1 s) (\<lambda>pp s. case pp of
             None \<Rightarrow> Ret False s
           | Some pp \<Rightarrow>
               let s = upd_page pp (\<lambda>i. i\<lparr>pp_ref := pp_ref i + 1\<rparr>) s in
               Ret True (kstore pde_ptr (page2pa pp OR PTE_P OR PTE_U OR PTE_W) s)))
        (\<lambda>found s.
          if \<not> found then Ret None s
          else kbind (KADDR (PTE_ADDR (kload s pde_ptr)) s)
                 (\<lambda>pt s. Ret (Some (pt + 4 * PTX va)) s)))"

section \<open>boot_map_region and mmio_map_region\<close>

fun boot_map_loop :: "nat \<Rightarrow> u32 \<Rightarrow> u32 \<Rightarrow> u32 \<Rightarrow> u32 \<Rightarrow> kstate \<Rightarrow> (unit, kstate) outcome" where
  "boot_map_loop 0 pgdir va pa perm s = Ret () s"
| "boot_map_loop (Suc n) pgdir va pa perm s =
     kbind (pgdir_walk pgdir va True s) (\<lambda>pte s. case pte of
         None \<Rightarrow> Panic ''boot_map_region() out of memory'' s
       | Some pte \<Rightarrow>
           boot_map_loop n pgdir (va + PGSIZE) (pa + PGSIZE) perm
             (kstore pte (pa OR PTE_P OR perm) s))"

definition boot_map_region ::
  "u32 \<Rightarrow> u32 \<Rightarrow> u32 \<Rightarrow> u32 \<Rightarrow> u32 \<Rightarrow> kstate \<Rightarrow> (unit, kstate) outcome" where
  "boot_map_region pgdir va sz pa perm s =
     (let pgs = sz div PGSIZE; pgs = (if sz mod PGSIZE \<noteq> 0 then pgs + 1 else pgs)
      in boot_map_loop (unat pgs) pgdir va pa perm s)"

definition mmio_map_region :: "u32 \<Rightarrow> u32 \<Rightarrow> kstate \<Rightarrow> (u32, kstate) outcome" where
  "mmio_map_region pa sz s =
     (let sz = ROUNDUP (pa + sz) PGSIZE; pa = ROUNDDOWN pa PGSIZE; sz = sz - pa;
          base = mmio_base s
      in if MMIOLIM \<le> base + sz then Panic ''not enough memory'' s
         else kbind (boot_map_region (kern_pgdir s) base sz pa (PTE_PCD OR PTE_PWT OR PTE_W) s)
                (\<lambda>_ s. let s = s\<lparr>mmio_base := mmio_base s + sz\<rparr> in Ret (mmio_base s - sz) s))"

section \<open>page_lookup, page_remove, page_insert\<close>

definition tlb_invalidate :: "u32 \<Rightarrow> u32 \<Rightarrow> kstate \<Rightarrow> kstate" where
  "tlb_invalidate pgdir va s =
     (case curenv s of
        None \<Rightarrow> invlpg va s
      | Some e \<Rightarrow> if env_pgdir (envs s e) = pgdir then invlpg va s else s)"

text \<open>
  The result is the page and the address of its entry.  The guard is the source's
  \<open>!(*pte) & PTE_P\<close>, in which \<open>!\<close> binds tighter than \<open>&\<close>.
\<close>

definition page_lookup :: "u32 \<Rightarrow> u32 \<Rightarrow> kstate \<Rightarrow> ((u32 \<times> u32) option, kstate) outcome" where
  "page_lookup pgdir va s =
     kbind (pgdir_walk pgdir va False s) (\<lambda>pte s. case pte of
         None \<Rightarrow> Ret None s
       | Some pte \<Rightarrow>
           if flag (if kload s pte = 0 then 1 else 0) PTE_P then Ret None s
           else kbind (pa2page (PTE_ADDR (kload s pte)) s)
                  (\<lambda>pp s. Ret (Some (pp, pte)) s))"

definition page_remove :: "u32 \<Rightarrow> u32 \<Rightarrow> kstate \<Rightarrow> (unit, kstate) outcome" where
  "page_remove pgdir va s =
     kbind (page_lookup pgdir va s) (\<lambda>r s. case r of
         None \<Rightarrow> Ret () s
       | Some (pp, pte_store) \<Rightarrow>
           kbind (page_decref pp s) (\<lambda>_ s.
             Ret () (tlb_invalidate pgdir va (kstore pte_store 0 s))))"

definition page_insert ::
  "u32 \<Rightarrow> u32 \<Rightarrow> u32 \<Rightarrow> u32 \<Rightarrow> kstate \<Rightarrow> (jerror + unit, kstate) outcome" where
  "page_insert pgdir pp va perm s =
     kbind (pgdir_walk pgdir va True s) (\<lambda>pte s. case pte of
         None \<Rightarrow> Ret (Inl E_NO_MEM) s
       | Some pte \<Rightarrow>
           let s = upd_page pp (\<lambda>i. i\<lparr>pp_ref := pp_ref i + 1\<rparr>) s in
           kbind (if flag (kload s pte) PTE_P then page_remove pgdir va s else Ret () s)
             (\<lambda>_ s.
               let s = kstore pte (page2pa pp OR perm OR PTE_P) s;
                   pde_ptr = pgdir + 4 * PDX va
               in Ret (Inr ()) (kstore pde_ptr (kload s pde_ptr OR perm) s)))"

section \<open>user_mem_check\<close>

text \<open>
  The addresses visited by \<open>for (i = b; i < e; i += PGSIZE)\<close>, for page-aligned \<open>b\<close> and
  \<open>e\<close> (lemma \<open>page_range_unfold\<close> below states the loop's unfolding).
\<close>

definition page_range :: "u32 \<Rightarrow> u32 \<Rightarrow> u32 list" where
  "page_range b e =
     (if b < e then map (\<lambda>k. b + of_nat k * PGSIZE) [0..<(unat e - unat b + 4095) div 4096]
      else [])"

fun user_mem_check_loop ::
  "u32 list \<Rightarrow> u32 \<Rightarrow> u32 \<Rightarrow> u32 \<Rightarrow> kstate \<Rightarrow> (jerror + unit, kstate) outcome" where
  "user_mem_check_loop [] pgdir va perm s = Ret (Inr ()) s"
| "user_mem_check_loop (i # is) pgdir va perm s =
     kbind (pgdir_walk pgdir i False s) (\<lambda>pte s.
       if (case pte of
             None \<Rightarrow> True
           | Some pte \<Rightarrow> ULIM \<le> i \<or> \<not> flag (kload s pte) PTE_P \<or> kload s pte AND perm \<noteq> perm)
       then Ret (Inl E_FAULT) (s\<lparr>user_mem_check_addr := (if i < va then va else i)\<rparr>)
       else user_mem_check_loop is pgdir va perm s)"

definition user_mem_check ::
  "nat \<Rightarrow> u32 \<Rightarrow> u32 \<Rightarrow> u32 \<Rightarrow> kstate \<Rightarrow> (jerror + unit, kstate) outcome" where
  "user_mem_check env va len perm s =
     user_mem_check_loop (page_range (ROUNDDOWN va PGSIZE) (ROUNDUP (va + len) PGSIZE))
       (env_pgdir (envs s env)) va perm s"

lemma page_range_empty: "\<not> b < e \<Longrightarrow> page_range b e = []"
  by (simp add: page_range_def)

lemma page_range_unfold:
  assumes "b < e" and "unat b mod 4096 = 0" and "unat e mod 4096 = 0"
  shows "page_range b e = b # page_range (b + PGSIZE) e"
proof -
  from assms obtain i j where i: "unat b = 4096 * i" and j: "unat e = 4096 * j"
    by (metis mod_0_imp_dvd dvdE)
  with assms(1) have "i < j" by (simp add: unat_mono_less)
  have "j < 0x100000" using unsigned_less [of e, where ?'a = nat] j by simp
  with i \<open>i < j\<close> have b': "unat (b + PGSIZE) = 4096 * (i + 1)"
    by (simp add: unat_word_ariths jos_consts)
  have n: "(unat e - unat b + 4095) div 4096 = j - i"
    using i j \<open>i < j\<close> by simp
  have n': "(unat e - unat (b + PGSIZE) + 4095) div 4096 = j - i - 1"
    using b' j \<open>i < j\<close> by simp
  have "[0..<j - i] = 0 # map Suc [0..<j - i - 1]"
    using \<open>i < j\<close> by (metis Suc_diff_1 Suc_diff_le less_eq_Suc_le map_Suc_upt upt_rec zero_less_diff)
  then have *: "page_range b e = b # map (\<lambda>k. b + PGSIZE + of_nat k * PGSIZE) [0..<j - i - 1]"
    using assms(1) by (simp add: page_range_def n comp_def algebra_simps)
  show ?thesis
  proof (cases "i + 1 < j")
    case True
    then have "b + PGSIZE < e" using b' j by (simp add: unat_mono_less)
    then show ?thesis using * by (simp add: page_range_def n')
  next
    case False
    then have "j - i - 1 = 0" and "\<not> b + PGSIZE < e" using b' j by (auto simp: unat_mono_less)
    then show ?thesis using * by (simp add: page_range_def)
  qed
qed

end
