(* ===== verification/Vm_Inv.thy ===== *)
theory Vm_Inv
  imports Page_Table
begin

text \<open>
  The invariant of the virtual memory system.  \<open>D\<close> is the set of pages that hold a page
  directory; the entries of a directory below \<open>PDX UTOP\<close> are its own, the entries above are
  shared with \<open>kern_pgdir\<close> and are not counted.  A reference is a directory, a present
  directory entry or a present table entry; \<open>refers D s r p\<close> says that reference \<open>r\<close>
  exists and points at page \<open>p\<close>.  The invariant says that page tables do not overlap and
  that \<open>pp_ref\<close> counts the references to each page exactly.
\<close>

section \<open>References\<close>

definition pde :: "kstate \<Rightarrow> u32 \<Rightarrow> u32 \<Rightarrow> u32" where
  "pde s q i = kload s (kva q i)"

definition pte :: "kstate \<Rightarrow> u32 \<Rightarrow> u32 \<Rightarrow> u32 \<Rightarrow> u32" where
  "pte s q i j = kload s (kva (PGNUM (pde s q i)) j)"

datatype vref = DirRef u32 | TabRef u32 u32 | PageRef u32 u32 u32

fun is_table :: "vref \<Rightarrow> bool" where
  "is_table (DirRef q) = True"
| "is_table (TabRef q i) = True"
| "is_table (PageRef q i j) = False"

fun refers :: "u32 set \<Rightarrow> kstate \<Rightarrow> vref \<Rightarrow> u32 \<Rightarrow> bool" where
  "refers D s (DirRef q) p \<longleftrightarrow> q \<in> D \<and> q = p"
| "refers D s (TabRef q i) p \<longleftrightarrow>
     q \<in> D \<and> i < PDX UTOP \<and> flag (pde s q i) PTE_P \<and> PGNUM (pde s q i) = p"
| "refers D s (PageRef q i j) p \<longleftrightarrow>
     q \<in> D \<and> i < PDX UTOP \<and> flag (pde s q i) PTE_P \<and>
     j < 1024 \<and> flag (pte s q i j) PTE_P \<and> PGNUM (pte s q i j) = p"

definition refs :: "u32 set \<Rightarrow> kstate \<Rightarrow> u32 \<Rightarrow> vref set" where
  "refs D s p = {r. refers D s r p}"

text \<open>What the page tables map at a user address: the entry, if one is present.\<close>

definition vmap :: "kstate \<Rightarrow> u32 \<Rightarrow> u32 \<Rightarrow> u32 option" where
  "vmap s q va =
     (if flag (pde s q (PDX va)) PTE_P \<and> flag (pte s q (PDX va) (PTX va)) PTE_P
      then Some (pte s q (PDX va) (PTX va)) else None)"

definition pt_shape :: "u32 set \<Rightarrow> kstate \<Rightarrow> bool" where
  "pt_shape D s \<longleftrightarrow> npages_ok s \<and>
     (\<forall>r p. refers D s r p \<longrightarrow> p < npages s) \<and>
     (\<forall>r r' p. refers D s r p \<longrightarrow> is_table r \<longrightarrow> refers D s r' p \<longrightarrow> r' = r) \<and>
     (\<forall>q i j. refers D s (TabRef q i) (PGNUM (pde s q i)) \<longrightarrow> j < 1024 \<longrightarrow>
        pte s q i j = 0 \<or> flag (pte s q i j) PTE_P)"

text \<open>
  \<open>R p\<close> counts the references to \<open>p\<close> that the kernel holds outside these page tables; a
  page that is a directory or a table has none.
\<close>

definition vm_inv :: "u32 set \<Rightarrow> (u32 \<Rightarrow> nat) \<Rightarrow> u32 list \<Rightarrow> kstate \<Rightarrow> bool" where
  "vm_inv D R fl s \<longleftrightarrow> pt_shape D s \<and> free_ok fl s \<and>
     (\<forall>p. p < npages s \<longrightarrow> unat (pp_ref (pages s p)) = R p + card (refs D s p)) \<and>
     (\<forall>r p. refers D s r p \<longrightarrow> is_table r \<longrightarrow> R p = 0)"

section \<open>Basic facts\<close>

lemma PDX_UTOP: "PDX UTOP = 955"
  by (simp add: PDX_def jos_consts)

lemma upde_less: "i < PDX UTOP \<Longrightarrow> unat i < 1024"
  by (simp add: PDX_UTOP unat_mono_less)

lemma word1024_less: "(j::u32) < 1024 \<longleftrightarrow> unat j < 1024"
  by (simp add: unat_mono_less)

lemma PTX_word_less [simp]: "PTX va < 1024"
  by (simp add: word1024_less PTX_less)

lemma PDX_user: "va < UTOP \<Longrightarrow> PDX va < PDX UTOP"
  by (simp add: PDX_UTOP unat_mono_less unat_PDX jos_consts)

lemma finite_vref [simp]: "finite (A :: vref set)"
proof (rule finite_subset [of A])
  let ?U = "DirRef ` UNIV \<union> (\<lambda>(q, i). TabRef q i) ` UNIV \<union> (\<lambda>(q, i, j). PageRef q i j) ` UNIV"
  have "r \<in> ?U" for r
    by (cases r) (auto simp: image_iff)
  then show "A \<subseteq> ?U" by blast
  show "finite ?U" by simp
qed

lemma refers_unique: "refers D s r p \<Longrightarrow> refers D s r p' \<Longrightarrow> p = p'"
  by (cases r) auto

lemma refers_cong:
  assumes "\<And>q i. q \<in> D \<Longrightarrow> i < PDX UTOP \<Longrightarrow> pde t q i = pde s q i"
    and "\<And>q i j. q \<in> D \<Longrightarrow> i < PDX UTOP \<Longrightarrow> flag (pde s q i) PTE_P \<Longrightarrow> j < 1024 \<Longrightarrow>
           pte t q i j = pte s q i j"
  shows "refers D t r p = refers D s r p"
  using assms by (cases r) auto

lemma pt_shape_npages_ok: "pt_shape D s \<Longrightarrow> npages_ok s"
  by (simp add: pt_shape_def)

lemma pt_shape_valid: "pt_shape D s \<Longrightarrow> refers D s r p \<Longrightarrow> p < npages s"
  by (auto simp: pt_shape_def)

lemma pt_shape_sole:
  "pt_shape D s \<Longrightarrow> refers D s r p \<Longrightarrow> is_table r \<Longrightarrow> refers D s r' p \<Longrightarrow> r' = r"
  by (auto simp: pt_shape_def)

lemma pt_shape_dir: "pt_shape D s \<Longrightarrow> q \<in> D \<Longrightarrow> q < npages s"
  using pt_shape_valid [of D s "DirRef q" q] by simp

lemma pt_shape_table:
  "pt_shape D s \<Longrightarrow> q \<in> D \<Longrightarrow> i < PDX UTOP \<Longrightarrow> flag (pde s q i) PTE_P \<Longrightarrow>
   PGNUM (pde s q i) < npages s"
  using pt_shape_valid [of D s "TabRef q i" "PGNUM (pde s q i)"] by simp

lemma pt_shape_pte:
  "pt_shape D s \<Longrightarrow> q \<in> D \<Longrightarrow> i < PDX UTOP \<Longrightarrow> flag (pde s q i) PTE_P \<Longrightarrow> j < 1024 \<Longrightarrow>
   pte s q i j = 0 \<or> flag (pte s q i j) PTE_P"
  by (auto simp: pt_shape_def)

lemmas pt_shapeD = pt_shape_npages_ok pt_shape_valid pt_shape_sole pt_shape_dir pt_shape_table

text \<open>A table page is neither a directory nor another table.\<close>

lemma table_not_dir:
  assumes "pt_shape D s" and "q \<in> D" and "i < PDX UTOP" and "flag (pde s q i) PTE_P" and "q' \<in> D"
  shows "PGNUM (pde s q i) \<noteq> q'"
  using pt_shape_sole [OF assms(1), of "TabRef q i" "PGNUM (pde s q i)" "DirRef q'"] assms by auto

lemma table_inj:
  assumes "pt_shape D s" and "q \<in> D" and "i < PDX UTOP" and "flag (pde s q i) PTE_P"
    and "q' \<in> D" and "i' < PDX UTOP" and "flag (pde s q' i') PTE_P"
    and "PGNUM (pde s q' i') = PGNUM (pde s q i)"
  shows "q' = q \<and> i' = i"
  using pt_shape_sole [OF assms(1), of "TabRef q i" "PGNUM (pde s q i)" "TabRef q' i'"] assms by auto

lemma dir_bound: "pt_shape D s \<Longrightarrow> q \<in> D \<Longrightarrow> unat q < 0x10000"
  by (blast intro: page_bound pt_shapeD)

lemma table_bound:
  "pt_shape D s \<Longrightarrow> q \<in> D \<Longrightarrow> i < PDX UTOP \<Longrightarrow> flag (pde s q i) PTE_P \<Longrightarrow>
   unat (PGNUM (pde s q i)) < 0x10000"
  by (blast intro: page_bound pt_shapeD)

section \<open>Effect of the primitive stores on references\<close>

text \<open>Storing \<open>v\<close> in a table entry changes that entry and nothing else.\<close>

lemma pde_store_pte:
  assumes "pt_shape D s" and "q \<in> D" and "i < PDX UTOP" and "flag (pde s q i) PTE_P"
    and "j < 1024" and "q' \<in> D" and "unat i' < 1024"
  shows "pde (kstore (kva (PGNUM (pde s q i)) j) v s) q' i' = pde s q' i'"
  using assms table_not_dir [OF assms(1-4,6)] kload_kstore_kva
    [OF table_bound [OF assms(1-4)] _ dir_bound [OF assms(1,6)] assms(7), of j v s]
  by (simp add: word1024_less) (simp add: pde_def)

lemma pte_store_pte:
  assumes "pt_shape D s" and "q \<in> D" and "i < PDX UTOP" and "flag (pde s q i) PTE_P"
    and "j < 1024" and "q' \<in> D" and "i' < PDX UTOP" and "flag (pde s q' i') PTE_P" and "j' < 1024"
  shows "pte (kstore (kva (PGNUM (pde s q i)) j) v s) q' i' j' =
     (if q' = q \<and> i' = i \<and> j' = j then v else pte s q' i' j')"
  using assms table_inj [OF assms(1-4,6-8)] upde_less [OF assms(7)]
    kload_kstore_kva [OF table_bound [OF assms(1-4)] _ table_bound [OF assms(1,6-8)], of j j' v s]
  by (auto simp: pte_def pde_store_pte word1024_less)

lemma refers_store_pte:
  assumes "pt_shape D s" and "q \<in> D" and "i < PDX UTOP" and "flag (pde s q i) PTE_P" and "j < 1024"
  shows "refers D (kstore (kva (PGNUM (pde s q i)) j) v s) r p =
     (if r = PageRef q i j then flag v PTE_P \<and> PGNUM v = p else refers D s r p)"
  using assms
  by (cases r) (auto simp: pde_store_pte [OF assms] pte_store_pte [OF assms] upde_less)

text \<open>Changing the flags of a present directory entry, the page number kept, changes no reference.\<close>

lemma pde_store_pde:
  assumes "pt_shape D s" and "q \<in> D" and "unat i < 1024" and "q' \<in> D" and "unat i' < 1024"
  shows "pde (kstore (kva q i) v s) q' i' = (if q' = q \<and> i' = i then v else pde s q' i')"
  using kload_kstore_kva [OF dir_bound [OF assms(1,2)] assms(3) dir_bound [OF assms(1,4)] assms(5)]
  by (auto simp: pde_def)

lemma pte_store_pde:
  assumes "pt_shape D s" and "q \<in> D" and "unat i < 1024" and "q' \<in> D" and "i' < PDX UTOP"
    and "flag (pde s q' i') PTE_P" and "j' < 1024"
    and "q' = q \<and> i' = i \<longrightarrow> PGNUM v = PGNUM (pde s q i)"
  shows "pte (kstore (kva q i) v s) q' i' j' = pte s q' i' j'"
proof -
  have "PGNUM (pde s q' i') \<noteq> q"
    by (rule table_not_dir [OF assms(1,4-6,2)])
  then show ?thesis
    using assms(7,8) kload_kstore_kva [OF dir_bound [OF assms(1,2)] assms(3) table_bound [OF assms(1,4-6)]]
      pde_store_pde [OF assms(1-4) upde_less [OF assms(5)], of v]
    by (auto simp: pte_def word1024_less)
qed

lemma refers_store_pde:
  assumes "pt_shape D s" and "q \<in> D" and "i < PDX UTOP" and "flag (pde s q i) PTE_P"
    and "flag v PTE_P" and "PGNUM v = PGNUM (pde s q i)"
  shows "refers D (kstore (kva q i) v s) r p = refers D s r p"
  using assms
  by (cases r) (auto simp: pde_store_pde [OF assms(1,2) upde_less [OF assms(3)]]
      pte_store_pde [OF assms(1,2) upde_less [OF assms(3)]] upde_less split: if_split_asm)

text \<open>Zeroing a page that is not referenced changes no reference.\<close>

lemma refers_zero_page:
  assumes "pt_shape D s" and "refs D s z = {}" and "unat z < 0x10000"
  shows "refers D (kzero_page (kva z 0) s) r p = refers D s r p"
proof (rule refers_cong)
  fix q i assume q: "q \<in> D" and i: "i < PDX UTOP"
  from q assms(2) have "z \<noteq> q" by (auto simp: refs_def dest: spec [of _ "DirRef q"])
  then show pd: "pde (kzero_page (kva z 0) s) q i = pde s q i"
    using kload_kzero_page_kva [OF assms(3) dir_bound [OF assms(1) q] upde_less [OF i]]
    by (simp add: pde_def)
  fix j assume fl: "flag (pde s q i) PTE_P" and j: "(j::u32) < 1024"
  from q i fl assms(2) have "z \<noteq> PGNUM (pde s q i)"
    by (auto simp: refs_def dest: spec [of _ "TabRef q i"])
  then show "pte (kzero_page (kva z 0) s) q i j = pte s q i j"
    using kload_kzero_page_kva [OF assms(3) table_bound [OF assms(1) q i fl], of j] j
    by (simp add: pte_def pd word1024_less)
qed

text \<open>
  Installing a zeroed, unreferenced page as a new table adds one reference, from the
  directory entry to the table.
\<close>

lemma refers_install_table:
  assumes "pt_shape D s" and "q \<in> D" and "i < PDX UTOP" and "\<not> flag (pde s q i) PTE_P"
    and "unat z < 0x10000" and "\<And>j. j < 1024 \<Longrightarrow> kload s (kva z j) = 0" and "z \<noteq> q"
    and "flag v PTE_P" and "PGNUM v = z"
  shows "refers D (kstore (kva q i) v s) r p =
     (if r = TabRef q i then p = z else refers D s r p)"
proof -
  have pd: "pde (kstore (kva q i) v s) q' i' = (if q' = q \<and> i' = i then v else pde s q' i')"
    if "q' \<in> D" "i' < PDX UTOP" for q' i'
    using pde_store_pde [OF assms(1,2) upde_less [OF assms(3)] that(1) upde_less [OF that(2)]] .
  have new: "pte (kstore (kva q i) v s) q i j = 0" if "j < 1024" for j
    using that assms(6) [OF that] assms(7,9) pd [OF assms(2,3)]
      kload_kstore_kva [OF dir_bound [OF assms(1,2)] upde_less [OF assms(3)] assms(5), of j v s]
    by (simp add: pte_def word1024_less)
  have old: "pte (kstore (kva q i) v s) q' i' j = pte s q' i' j"
    if "q' \<in> D" "i' < PDX UTOP" "flag (pde s q' i') PTE_P" "j < 1024" for q' i' j
    using pte_store_pde [OF assms(1,2) upde_less [OF assms(3)] that] that(3) assms(4) by blast
  show ?thesis
  proof (cases r)
    case (PageRef q' i' j)
    show ?thesis
    proof (cases "q' = q \<and> i' = i")
      case True
      with PageRef assms(2-4) show ?thesis by (auto simp: new)
    next
      case False
      then show ?thesis using PageRef pd old by auto
    qed
  qed (use assms pd in auto)
qed

end
