(* ===== verification/Vm_Walk.thy ===== *)
theory Vm_Walk
  imports Vm_Inv
begin

text \<open>
  \<open>pgdir_walk\<close> on a well-formed memory system: it finds the entry of a user address in an
  existing table, reports a missing table, or installs a new empty table, and it keeps the
  invariant of the memory system.
\<close>

section \<open>Frame facts\<close>

lemma free_ok_kstore [simp]: "free_ok fl (kstore a v s) = free_ok fl s"
  by (simp add: free_ok_def pl.elems_def kops npages_ok_def)

lemma free_ok_invlpg [simp]: "free_ok fl (invlpg va s) = free_ok fl s"
  by (simp add: free_ok_def pl.elems_def kops npages_ok_def)

lemma free_ok_upd_ref:
  assumes "free_ok fl s" and "p \<notin> set fl"
  shows "free_ok fl (upd_page p (\<lambda>i. i\<lparr>pp_ref := f i\<rparr>) s)"
proof -
  have "(\<lambda>x. pp_link (pages (upd_page p (\<lambda>i. i\<lparr>pp_ref := f i\<rparr>) s) x)) = (\<lambda>x. pp_link (pages s x))"
    by (auto simp: kops)
  with assms show ?thesis
    by (auto simp: free_ok_def pl.elems_def kops npages_ok_def)
qed

lemma pages_kstore [simp]: "pages (kstore a v s) = pages s"
  by (simp add: kops)

lemma pages_invlpg [simp]: "pages (invlpg va s) = pages s"
  by (simp add: kops)

lemma npages_ops [simp]:
  "npages (kstore a v s) = npages s" "npages (upd_page p f s) = npages s"
  "npages (kzero_page a s) = npages s" "npages (invlpg va s) = npages s"
  "npages (page_list_push p s) = npages s"
  by (simp_all add: kops page_list_push_eq)

lemma phys_upd_page [simp]: "phys (upd_page p f s) = phys s" "phys (invlpg va s) = phys s"
  "phys (page_list_push p s) = phys s"
  by (simp_all add: kops page_list_push_eq)

lemma pp_ref_upd_page [simp]:
  "pp_ref (pages (upd_page p (\<lambda>i. i\<lparr>pp_ref := f i\<rparr>) s) p') =
   (if p' = p then f (pages s p) else pp_ref (pages s p'))"
  by (simp add: kops)

lemma pp_ref_list_push [simp]:
  "pp_ref (pages (page_list_push p s) p') = pp_ref (pages s p')"
  by (simp add: page_list_push_eq)

text \<open>References depend on memory only.\<close>

lemma kload_cong: "phys t = phys s \<Longrightarrow> kload t = kload s"
  by (rule ext) (simp add: kload_def)

lemma pde_cong: "phys t = phys s \<Longrightarrow> pde t = pde s"
  by (intro ext) (simp add: pde_def kload_cong [of t s])

lemma pte_cong: "phys t = phys s \<Longrightarrow> pte t = pte s"
  by (intro ext) (simp add: pte_def kload_cong [of t s] pde_cong [of t s])

lemma refers_phys: "phys t = phys s \<Longrightarrow> refers D t = refers D s"
  by (intro ext refers_cong) (simp_all add: pde_cong [of t s] pte_cong [of t s])

lemma refs_phys: "phys t = phys s \<Longrightarrow> refs D t = refs D s"
  by (intro ext) (simp add: refs_def refers_phys [of t s])

lemma pt_shape_phys: "phys t = phys s \<Longrightarrow> npages t = npages s \<Longrightarrow> pt_shape D t = pt_shape D s"
  by (simp add: pt_shape_def npages_ok_def refers_phys [of t s] pde_cong [of t s] pte_cong [of t s])

lemma kstore_phys: "phys t = phys s \<Longrightarrow> phys (kstore a v t) = phys (kstore a v s)"
  by (simp add: kops)

lemma kva_add [simp]: "kva q 0 + 4 * i = kva q i"
  by (simp add: kva_def)

lemma vm_inv_shape: "vm_inv D R fl s \<Longrightarrow> pt_shape D s"
  and vm_inv_free: "vm_inv D R fl s \<Longrightarrow> free_ok fl s"
  and vm_inv_count: "vm_inv D R fl s \<Longrightarrow> p < npages s \<Longrightarrow>
        unat (pp_ref (pages s p)) = R p + card (refs D s p)"
  and vm_inv_table: "vm_inv D R fl s \<Longrightarrow> refers D s r p \<Longrightarrow> is_table r \<Longrightarrow> R p = 0"
  by (auto simp: vm_inv_def)

lemma vm_inv_free_page:
  assumes "vm_inv D R fl s" and "p \<in> set fl"
  shows "p < npages s" and "refs D s p = {}" and "R p = 0" and "pp_ref (pages s p) = 0"
proof -
  from assms show p: "p < npages s" and "pp_ref (pages s p) = 0"
    by (auto simp: vm_inv_def free_ok_def)
  with vm_inv_count [OF assms(1) p] show "refs D s p = {}" and "R p = 0" by auto
qed

lemma vm_inv_referred_not_free: "vm_inv D R fl s \<Longrightarrow> refers D s r p \<Longrightarrow> p \<notin> set fl"
  by (auto simp: refs_def dest: vm_inv_free_page(2))

text \<open>The invariant after an operation that keeps memory and updates no counted page.\<close>

lemma vm_inv_same:
  assumes "vm_inv D R fl s" and "phys t = phys s" and "npages t = npages s" and "free_ok fl t"
    and "\<And>p. p < npages s \<Longrightarrow> pp_ref (pages t p) = pp_ref (pages s p)"
  shows "vm_inv D R fl t"
  using assms
  by (simp add: vm_inv_def refers_phys [OF assms(2)] refs_phys [OF assms(2)]
      pt_shape_phys [OF assms(2,3)])

section \<open>Walking to an existing table\<close>

lemma pgdir_walk_present:
  assumes "pt_shape D s" and "q \<in> D" and "va < UTOP" and "flag (pde s q (PDX va)) PTE_P"
  shows "pgdir_walk (kva q 0) va create s = Ret (Some (kva (PGNUM (pde s q (PDX va))) (PTX va))) s"
proof -
  from pt_shape_table [OF assms(1,2) PDX_user [OF assms(3)] assms(4)]
  have "PGNUM (pde s q (PDX va)) < npages s" .
  then have "KADDR (PTE_ADDR (pde s q (PDX va))) s = Ret (kva (PGNUM (pde s q (PDX va))) 0) s"
    by (simp add: KADDR_def kva_def page2pa_PGNUM PTE_ADDR_PGNUM PGNUM_push12 PGNUM_less page2pa_def)
  with assms(4) show ?thesis
    by (simp add: pgdir_walk_def pde_def)
qed

lemma pgdir_walk_absent:
  assumes "\<not> flag (pde s q (PDX va)) PTE_P"
  shows "pgdir_walk (kva q 0) va False s = Ret None s"
  using assms by (simp add: pgdir_walk_def pde_def)

lemma pgdir_walk_no_memory:
  assumes "\<not> flag (pde s q (PDX va)) PTE_P" and "free_ok [] s"
  shows "pgdir_walk (kva q 0) va True s = Ret None s"
  using assms by (simp add: pgdir_walk_def pde_def page_alloc_None)

section \<open>Installing a new table\<close>

definition walk_state :: "u32 \<Rightarrow> u32 \<Rightarrow> u32 \<Rightarrow> kstate \<Rightarrow> kstate" where
  "walk_state q va z s =
     kstore (kva q (PDX va)) (page2pa z OR PTE_P OR PTE_U OR PTE_W)
       (upd_page z (\<lambda>i. i\<lparr>pp_ref := pp_ref i + 1\<rparr>) (alloc_state 1 z s))"

lemma flag_1_ALLOC_ZERO [simp]: "flag 1 ALLOC_ZERO"
  by (simp add: flag_def jos_consts)

lemma phys_alloc_state:
  assumes "free_ok (z # fl) s"
  shows "phys (alloc_state 1 z s) = phys (kzero_page (kva z 0) s)"
proof -
  from assms have "page_free_list s = Some z" by (auto simp: free_ok_def dest: pl.elems_head)
  then show ?thesis by (intro ext) (simp add: alloc_state_def page_list_pop_eq kops)
qed

lemma page2pa_flags:
  assumes "unat z < 0x10000" and "PGNUM f = 0"
  shows "PGNUM (page2pa z OR f) = z"
  using assms by (simp add: PGNUM_page2pa)

text \<open>The state after the new table \<open>z\<close> is installed.\<close>

lemma walk_state_table:
  assumes "vm_inv D R (z # fl) s" and "q \<in> D" and "va < UTOP"
    and "\<not> flag (pde s q (PDX va)) PTE_P"
  shows "refers D (walk_state q va z s) r p =
     (if r = TabRef q (PDX va) then p = z else refers D s r p)"
    and "pde (walk_state q va z s) q (PDX va) = page2pa z OR PTE_P OR PTE_U OR PTE_W"
    and "q' \<in> D \<Longrightarrow> i' < PDX UTOP \<Longrightarrow> flag (pde (walk_state q va z s) q' i') PTE_P \<Longrightarrow> j < 1024 \<Longrightarrow>
      pte (walk_state q va z s) q' i' j =
      (if q' = q \<and> i' = PDX va then 0 else pte s q' i' j)"
proof -
  let ?i = "PDX va" and ?v = "page2pa z OR PTE_P OR PTE_U OR PTE_W"
  let ?s0 = "kzero_page (kva z 0) s"
  have sh: "pt_shape D s" and fr: "free_ok (z # fl) s" using assms(1) by (simp_all add: vm_inv_def)
  have z: "z < npages s" "refs D s z = {}" using vm_inv_free_page [OF assms(1)] by simp_all
  then have zb: "unat z < 0x10000" using page_bound [OF pt_shape_npages_ok [OF sh]] by blast
  have i: "?i < PDX UTOP" by (rule PDX_user [OF assms(3)])
  have ref0: "refers D ?s0 r p = refers D s r p" for r p
    by (rule refers_zero_page [OF sh z(2) zb])
  have ph: "phys (walk_state q va z s) = phys (kstore (kva q ?i) ?v ?s0)"
    unfolding walk_state_def by (rule kstore_phys) (simp add: phys_alloc_state [OF fr])
  have zq: "z \<noteq> x" if "x \<in> D" for x
    using z(2) that by (auto simp: refs_def dest: spec [of _ "DirRef x"])
  have pd0: "pde ?s0 x y = pde s x y" if "x \<in> D" "y < PDX UTOP" for x y
    using zq [OF that(1)] kload_kzero_page_kva [OF zb dir_bound [OF sh that(1)] upde_less [OF that(2)]]
    by (simp add: pde_def)
  have pt0: "pte ?s0 x y w = pte s x y w"
    if "x \<in> D" "y < PDX UTOP" "flag (pde s x y) PTE_P" "w < 1024" for x y w
  proof -
    have "z \<noteq> PGNUM (pde s x y)"
      using z(2) that by (auto simp: refs_def dest: spec [of _ "TabRef x y"])
    then show ?thesis
      using kload_kzero_page_kva [OF zb table_bound [OF sh that(1-3)], of w] that(4)
      by (simp add: pte_def pd0 [OF that(1,2)] word1024_less)
  qed
  have sh0: "pt_shape D ?s0"
  proof -
    have "pte ?s0 x y j = 0 \<or> flag (pte ?s0 x y j) PTE_P"
      if "refers D s (TabRef x y) w" "j < 1024" for x y w j
      using that pt0 [of x y j] pt_shape_pte [OF sh, of x y j] by auto
    then show ?thesis using sh by (simp add: pt_shape_def ref0 npages_ok_def del: refers.simps)
  qed
  have k0: "kload ?s0 (kva z j) = 0" if "j < 1024" for j
    using kload_kzero_page_kva [OF zb zb] that by (simp add: word1024_less)
  have v: "flag ?v PTE_P" "PGNUM ?v = z" using zb by (simp_all add: PGNUM_page2pa)
  show "refers D (walk_state q va z s) r p = (if r = TabRef q ?i then p = z else refers D s r p)"
    using refers_install_table [OF sh0 assms(2) i _ zb k0 zq [OF assms(2)] v] assms(4)
    by (simp add: refers_phys [OF ph] pd0 [OF assms(2) i] ref0)
  have pd: "pde (walk_state q va z s) x y = (if x = q \<and> y = ?i then ?v else pde s x y)"
    if "x \<in> D" "y < PDX UTOP" for x y
    using pde_store_pde [OF sh0 assms(2) upde_less [OF i] that(1) upde_less [OF that(2)]]
    by (simp add: pde_cong [OF ph] pd0 [OF that])
  show "pde (walk_state q va z s) q ?i = ?v" using pd [OF assms(2) i] by simp
  show "pte (walk_state q va z s) q' i' j = (if q' = q \<and> i' = ?i then 0 else pte s q' i' j)"
    if that: "q' \<in> D" "i' < PDX UTOP" "flag (pde (walk_state q va z s) q' i') PTE_P" "j < 1024"
  proof (cases "q' = q \<and> i' = ?i")
    case True
    with v zq [OF assms(2)] k0 [OF that(4)] that(4) show ?thesis
      using kload_kstore_kva [OF dir_bound [OF sh assms(2)] upde_less [OF i] zb, of j ?v ?s0]
        pd [OF assms(2) i]
      by (simp add: pte_def kload_cong [OF ph] word1024_less)
  next
    case False
    with that pd have fl: "flag (pde s q' i') PTE_P" by auto
    with pte_store_pde [OF sh0 assms(2) upde_less [OF i] that(1,2) _ that(4)] False
    show ?thesis by (auto simp: pte_cong [OF ph] pd0 [OF that(1,2)] pt0 [OF that(1,2) fl that(4)])
  qed
qed

lemma walk_state_refs:
  assumes "vm_inv D R (z # fl) s" and "q \<in> D" and "va < UTOP"
    and "\<not> flag (pde s q (PDX va)) PTE_P"
  shows "refs D (walk_state q va z s) p = (if p = z then {TabRef q (PDX va)} else refs D s p)"
proof -
  have "\<not> refers D s (TabRef q (PDX va)) p" using assms(4) by simp
  moreover have "refs D s z = {}" using vm_inv_free_page [OF assms(1)] by simp
  ultimately show ?thesis by (auto simp: refs_def walk_state_table(1) [OF assms])
qed

lemma walk_state_misc:
  assumes "free_ok (z # fl) s"
  shows "vm_only s (walk_state q va z s)" and "free_ok fl (walk_state q va z s)"
    and "pp_ref (pages (walk_state q va z s) p) = (if p = z then 1 else pp_ref (pages s p))"
proof -
  note a = alloc_state_facts [OF assms]
  from a(2) show "vm_only s (walk_state q va z s)"
    by (simp add: walk_state_def vm_only_def kops)
  from a(1,4) show "free_ok fl (walk_state q va z s)"
    by (simp add: walk_state_def free_ok_upd_ref)
  from a(5) show "pp_ref (pages (walk_state q va z s) p) = (if p = z then 1 else pp_ref (pages s p))"
    by (simp add: walk_state_def a(6))
qed

lemma walk_state_inv:
  assumes "vm_inv D R (z # fl) s" and "q \<in> D" and "va < UTOP"
    and "\<not> flag (pde s q (PDX va)) PTE_P"
  shows "vm_inv D R fl (walk_state q va z s)"
proof -
  let ?t = "walk_state q va z s"
  have fr: "free_ok (z # fl) s" and sh: "pt_shape D s" using assms(1) by (simp_all add: vm_inv_def)
  note z = vm_inv_free_page [OF assms(1), of z, simplified]
  note ref = walk_state_table(1) [OF assms] and tp = walk_state_table(3) [OF assms]
  note misc = walk_state_misc [OF fr, of q va]
  have np: "npages ?t = npages s" using misc(1) by (simp add: vm_only_def)
  have noz: "\<not> refers D s r z" for r using z(2) by (auto simp: refs_def)
  have old: "flag (pde s x y) PTE_P" if "refers D ?t (TabRef x y) p" "\<not> (x = q \<and> y = PDX va)" for x y p
    using that ref [of "TabRef x y" p] by auto
  have "pt_shape D ?t"
    unfolding pt_shape_def
  proof (intro conjI allI impI)
    show "npages_ok ?t" using pt_shape_npages_ok [OF sh] by (simp add: npages_ok_def np)
    show "p < npages ?t" if "refers D ?t r p" for r p
      using that z(1) pt_shape_valid [OF sh] by (auto simp: ref np split: if_splits)
    show "r' = r" if "refers D ?t r p" "is_table r" "refers D ?t r' p" for r r' p
      using that pt_shape_sole [OF sh, of r p r'] noz by (auto simp: ref split: if_splits)
    fix x y j assume *: "refers D ?t (TabRef x y) (PGNUM (pde ?t x y))" "(j::u32) < 1024"
    show "pte ?t x y j = 0 \<or> flag (pte ?t x y j) PTE_P"
      using * tp [of x y j] pt_shape_pte [OF sh, of x y j] old [OF *(1)] by (auto split: if_splits)
  qed
  moreover have "unat (pp_ref (pages ?t p)) = R p + card (refs D ?t p)" if "p < npages s" for p
    using vm_inv_count [OF assms(1) that] z(3) by (simp add: misc(3) walk_state_refs [OF assms])
  moreover have "R p = 0" if "refers D ?t r p" "is_table r" for r p
    using that vm_inv_table [OF assms(1)] z(3) by (auto simp: ref split: if_splits)
  ultimately show ?thesis using misc(2) by (simp add: vm_inv_def np)
qed

lemma pgdir_walk_create:
  assumes "vm_inv D R (z # fl) s" and "q \<in> D" and "va < UTOP"
    and "\<not> flag (pde s q (PDX va)) PTE_P"
  shows "pgdir_walk (kva q 0) va True s = Ret (Some (kva z (PTX va))) (walk_state q va z s)"
proof -
  have fr: "free_ok (z # fl) s" using assms(1) by (simp add: vm_inv_def)
  have z: "z < npages s" and zb: "unat z < 0x10000"
    using vm_inv_free_page [OF assms(1), of z] page_bound fr by (auto simp: free_ok_def)
  have np: "npages (walk_state q va z s) = npages s"
    using walk_state_misc(1) [OF fr] by (simp add: vm_only_def)
  have ld: "kload (walk_state q va z s) (kva q (PDX va)) = page2pa z OR PTE_P OR PTE_U OR PTE_W"
    using walk_state_table(2) [OF assms] by (simp add: pde_def)
  then have "PTE_ADDR (kload (walk_state q va z s) (kva q (PDX va))) = page2pa z"
    using zb by (simp add: PTE_ADDR_PGNUM PGNUM_page2pa page2pa_def [symmetric])
  then have "KADDR (PTE_ADDR (kload (walk_state q va z s) (kva q (PDX va)))) (walk_state q va z s) =
      Ret (kva z 0) (walk_state q va z s)"
    using z zb by (simp add: KADDR_def np PGNUM_page2pa kva_def)
  then show ?thesis
    using assms(4) page_alloc_Some [OF fr, of 1]
    by (simp add: pgdir_walk_def pde_def walk_state_def)
qed

end
