(* ===== verification/Vm_Ops.thy ===== *)
theory Vm_Ops
  imports Vm_Walk
begin

text \<open>
  \<open>page_lookup\<close>, \<open>page_remove\<close> and \<open>page_insert\<close> on a well-formed memory system: what they
  do to the mappings, that they keep the reference counts exact, and when they fail.
\<close>

section \<open>page_lookup\<close>

lemma flag_0_1 [simp]: "flag (1::u32) PTE_P"
  by (simp add: flag_def jos_consts)

lemma page_lookup_present:
  assumes "pt_shape D s" and "q \<in> D" and "va < UTOP" and "flag (pde s q (PDX va)) PTE_P"
    and "flag (pte s q (PDX va) (PTX va)) PTE_P"
  shows "page_lookup (kva q 0) va s =
     Ret (Some (PGNUM (pte s q (PDX va) (PTX va)), kva (PGNUM (pde s q (PDX va))) (PTX va))) s"
proof -
  let ?e = "pte s q (PDX va) (PTX va)"
  have ld: "kload s (kva (PGNUM (pde s q (PDX va))) (PTX va)) = ?e" by (simp add: pte_def)
  have "?e \<noteq> 0" using assms(5) by auto
  moreover have "PGNUM ?e < npages s"
    using pt_shape_valid [OF assms(1), of "PageRef q (PDX va) (PTX va)"] assms PDX_user by simp
  ultimately show ?thesis
    by (simp add: page_lookup_def pgdir_walk_present [OF assms(1-4)] ld pa2page_def
        PTE_ADDR_PGNUM PGNUM_push12 PGNUM_less)
qed

lemma page_lookup_no_table:
  "\<not> flag (pde s q (PDX va)) PTE_P \<Longrightarrow> page_lookup (kva q 0) va s = Ret None s"
  by (simp add: page_lookup_def pgdir_walk_absent)

lemma page_lookup_zero:
  assumes "pt_shape D s" and "q \<in> D" and "va < UTOP" and "flag (pde s q (PDX va)) PTE_P"
    and "pte s q (PDX va) (PTX va) = 0"
  shows "page_lookup (kva q 0) va s = Ret None s"
proof -
  have "kload s (kva (PGNUM (pde s q (PDX va))) (PTX va)) = 0" using assms(5) by (simp add: pte_def)
  then show ?thesis by (simp add: page_lookup_def pgdir_walk_present [OF assms(1-4)])
qed

text \<open>
  On a well-formed memory system the guard \<open>!(*pte) & PTE_P\<close> behaves like the intended
  \<open>!(*pte & PTE_P)\<close>, because an entry without \<open>PTE_P\<close> is zero there.
\<close>

lemma page_lookup_vmap:
  assumes "pt_shape D s" and "q \<in> D" and "va < UTOP"
  shows "page_lookup (kva q 0) va s =
     Ret (map_option (\<lambda>e. (PGNUM e, kva (PGNUM (pde s q (PDX va))) (PTX va))) (vmap s q va)) s"
proof (cases "flag (pde s q (PDX va)) PTE_P")
  case True
  then have "pte s q (PDX va) (PTX va) = 0 \<or> flag (pte s q (PDX va) (PTX va)) PTE_P"
    by (intro pt_shape_pte [OF assms(1,2) PDX_user [OF assms(3)]]) simp_all
  with True page_lookup_present [OF assms True] page_lookup_zero [OF assms True] show ?thesis
    by (auto simp: vmap_def)
next
  case False
  then show ?thesis by (simp add: page_lookup_no_table vmap_def)
qed

section \<open>Clearing an entry\<close>

text \<open>
  \<open>drop_ref\<close> is what \<open>page_decref\<close> does to a page whose count is not zero.
\<close>

definition drop_ref :: "u32 \<Rightarrow> kstate \<Rightarrow> kstate" where
  "drop_ref p s =
     (if pp_ref (pages s p) = 1 then page_list_push p (upd_page p (\<lambda>i. i\<lparr>pp_ref := 0\<rparr>) s)
      else upd_page p (\<lambda>i. i\<lparr>pp_ref := pp_ref i - 1\<rparr>) s)"

lemma page_decref_eq:
  assumes "free_ok fl s" and "p < npages s" and "p \<notin> set fl"
  shows "page_decref p s = Ret () (drop_ref p s)"
  using page_decref_free [OF assms] page_decref_keep [of s p] by (simp add: drop_ref_def)

lemma free_ok_drop_ref:
  assumes "free_ok fl s" and "p < npages s" and "p \<notin> set fl"
  shows "free_ok (if pp_ref (pages s p) = 1 then p # fl else fl) (drop_ref p s)"
  using assms free_ok_upd_ref [OF assms(1,3), of "\<lambda>i. 0"]
    free_ok_upd_ref [OF assms(1,3), of "\<lambda>i. pp_ref i - 1"]
  by (auto simp: drop_ref_def intro!: free_ok_push)

lemma drop_ref_misc [simp]:
  "phys (drop_ref p s) = phys s" "npages (drop_ref p s) = npages s" "tlb (drop_ref p s) = tlb s"
  "pp_ref (pages (drop_ref p s) p') =
     (if p' = p then pp_ref (pages s p) - 1 else pp_ref (pages s p'))"
  by (auto simp: drop_ref_def page_list_push_eq kops)

lemma drop_ref_vm_only [frame]: "vm_only s (drop_ref p s)"
  by (simp add: drop_ref_def vm_only_def page_list_push_eq kops)

lemma tlb_invalidate_misc [simp]:
  "phys (tlb_invalidate d va s) = phys s" "pages (tlb_invalidate d va s) = pages s"
  "npages (tlb_invalidate d va s) = npages s"
  "free_ok fl (tlb_invalidate d va s) = free_ok fl s" "vm_only s (tlb_invalidate d va s)"
  by (auto simp: tlb_invalidate_def split: option.split)

lemma unat_pred: "x \<noteq> 0 \<Longrightarrow> unat (x - 1 :: u16) = unat x - 1"
  by (simp add: unat_minus_one)

lemma unat_succ: "x \<noteq> 0xFFFF \<Longrightarrow> unat (x + 1 :: u16) = Suc (unat x)"
proof -
  assume "x \<noteq> 0xFFFF"
  then have "unat x \<noteq> 65535" by (simp add: word_unat_eq_iff)
  moreover have "unat x < 65536" using unsigned_less [of x, where ?'a = nat] by simp
  ultimately show ?thesis by (simp add: unat_word_ariths)
qed

text \<open>
  \<open>leaks fl s\<close> are the pages without a reference that are not on the free list: a page that was
  just allocated and is not mapped yet, or a page that was lost.  \<open>same_words k s t\<close> says
  that page \<open>k\<close> has the same contents in both states.
\<close>

definition leaks :: "u32 list \<Rightarrow> kstate \<Rightarrow> u32 set" where
  "leaks fl s = {x. x < npages s \<and> pp_ref (pages s x) = 0 \<and> x \<notin> set fl}"

definition same_words :: "u32 \<Rightarrow> kstate \<Rightarrow> kstate \<Rightarrow> bool" where
  "same_words k s t \<longleftrightarrow> (\<forall>j. unat j < 1024 \<longrightarrow> kload t (kva k j) = kload s (kva k j))"

lemma same_words_refl [simp]: "same_words k s s"
  by (simp add: same_words_def)

lemma same_words_trans: "same_words k s t \<Longrightarrow> same_words k t u \<Longrightarrow> same_words k s u"
  by (simp add: same_words_def)

lemma same_words_phys: "phys t = phys s \<Longrightarrow> same_words k s t"
  by (simp add: same_words_def kload_def)

lemma same_words_kstore:
  "unat p < 0x10000 \<Longrightarrow> unat j < 1024 \<Longrightarrow> unat k < 0x10000 \<Longrightarrow> k \<noteq> p \<Longrightarrow>
   same_words k s (kstore (kva p j) v s)"
  by (simp add: same_words_def kload_kstore_kva)

text \<open>A page the kernel holds a reference to is neither a directory nor a table.\<close>

lemma kernel_page:
  assumes "vm_inv D R fl s" and "0 < R k"
  shows "q \<in> D \<Longrightarrow> k \<noteq> q"
    and "q \<in> D \<Longrightarrow> i < PDX UTOP \<Longrightarrow> flag (pde s q i) PTE_P \<Longrightarrow> k \<noteq> PGNUM (pde s q i)"
    and "k \<notin> set fl"
  using vm_inv_table [OF assms(1), of "DirRef q" q]
    vm_inv_table [OF assms(1), of "TabRef q i" "PGNUM (pde s q i)"] vm_inv_free_page(3) [OF assms(1), of k] assms(2)
  by auto

text \<open>A page that is neither a directory nor a table: its contents are not page table entries.\<close>

definition no_table :: "u32 set \<Rightarrow> kstate \<Rightarrow> u32 \<Rightarrow> bool" where
  "no_table D s k \<longleftrightarrow> (\<forall>r. refers D s r k \<longrightarrow> \<not> is_table r)"

lemma kernel_no_table: "vm_inv D R fl s \<Longrightarrow> 0 < R k \<Longrightarrow> no_table D s k"
  unfolding no_table_def using vm_inv_table by (metis less_irrefl)

lemma no_tableD:
  assumes "no_table D s k"
  shows "q \<in> D \<Longrightarrow> k \<noteq> q"
    and "q \<in> D \<Longrightarrow> i < PDX UTOP \<Longrightarrow> flag (pde s q i) PTE_P \<Longrightarrow> k \<noteq> PGNUM (pde s q i)"
  using assms is_table.simps(1) [of q] is_table.simps(2) [of q i]
  unfolding no_table_def by (metis refers.simps(1), metis refers.simps(2))

lemma kernel_page_bound: "vm_inv D R fl s \<Longrightarrow> k < npages s \<Longrightarrow> unat k < 0x10000"
  by (auto simp: vm_inv_def pt_shape_def intro: page_bound)

text \<open>Overwriting a table entry: the invariant with the counts of the old and new page adjusted.\<close>

lemma pt_shape_store_pte:
  assumes "pt_shape D s" and "q \<in> D" and "i < PDX UTOP" and "flag (pde s q i) PTE_P" and "j < 1024"
    and "v = 0 \<or> flag v PTE_P"
    and "flag v PTE_P \<Longrightarrow> PGNUM v < npages s \<and> (\<forall>r. refers D s r (PGNUM v) \<longrightarrow> \<not> is_table r)"
  shows "pt_shape D (kstore (kva (PGNUM (pde s q i)) j) v s)" (is "pt_shape D ?t")
  unfolding pt_shape_def
proof (intro conjI allI impI)
  note ref = refers_store_pte [OF assms(1-5)]
  show "npages_ok ?t" using pt_shape_npages_ok [OF assms(1)] by (simp add: npages_ok_def)
  show "p < npages ?t" if "refers D ?t r p" for r p
    using that assms(7) pt_shape_valid [OF assms(1)] by (auto simp: ref split: if_splits)
  show "r' = r" if "refers D ?t r p" "is_table r" "refers D ?t r' p" for r r' p
    using that assms(7) pt_shape_sole [OF assms(1), of r p r'] by (auto simp: ref split: if_splits)
  fix x y w assume *: "refers D ?t (TabRef x y) (PGNUM (pde ?t x y))" "(w::u32) < 1024"
  then have "x \<in> D" "y < PDX UTOP" "flag (pde s x y) PTE_P"
    using pde_store_pte [OF assms(1-5), of x y] upde_less by auto
  then show "pte ?t x y w = 0 \<or> flag (pte ?t x y w) PTE_P"
    using pte_store_pte [OF assms(1-5), of x y w] *(2) assms(6) pt_shape_pte [OF assms(1), of x y w]
    by auto
qed

lemma refs_store_pte:
  assumes "pt_shape D s" and "q \<in> D" and "i < PDX UTOP" and "flag (pde s q i) PTE_P" and "j < 1024"
  shows "refs D (kstore (kva (PGNUM (pde s q i)) j) v s) p =
     (if flag v PTE_P \<and> PGNUM v = p then insert (PageRef q i j) (refs D s p)
      else refs D s p - {PageRef q i j})"
  by (auto simp: refs_def refers_store_pte [OF assms])

section \<open>page_remove\<close>

definition remove_state :: "u32 \<Rightarrow> u32 \<Rightarrow> kstate \<Rightarrow> kstate" where
  "remove_state q va s =
     tlb_invalidate (kva q 0) va
       (kstore (kva (PGNUM (pde s q (PDX va))) (PTX va)) 0
         (drop_ref (PGNUM (pte s q (PDX va) (PTX va))) s))"

lemma page_remove_mapped:
  assumes "vm_inv D R fl s" and "q \<in> D" and "va < UTOP" and "vmap s q va = Some e"
  shows "page_remove (kva q 0) va s = Ret () (remove_state q va s)"
proof -
  let ?p = "PGNUM (pte s q (PDX va) (PTX va))"
  from assms have sh: "pt_shape D s" and fr: "free_ok fl s"
    and e: "e = pte s q (PDX va) (PTX va)"
    and r: "refers D s (PageRef q (PDX va) (PTX va)) ?p"
    by (auto simp: vm_inv_def vmap_def PDX_user split: if_splits)
  show ?thesis
    using pt_shape_valid [OF sh r] vm_inv_referred_not_free [OF assms(1) r]
    by (simp add: page_remove_def page_lookup_vmap [OF sh assms(2,3)] assms(4) e
        page_decref_eq [OF fr] remove_state_def)
qed

lemma page_remove_unmapped:
  assumes "vm_inv D R fl s" and "q \<in> D" and "va < UTOP" and "vmap s q va = None"
  shows "page_remove (kva q 0) va s = Ret () s"
  using assms by (simp add: page_remove_def page_lookup_vmap [OF vm_inv_shape])

lemma remove_state_refers:
  assumes "pt_shape D s" and "q \<in> D" and "va < UTOP" and "flag (pde s q (PDX va)) PTE_P"
  shows "refers D (remove_state q va s) r p =
     (r \<noteq> PageRef q (PDX va) (PTX va) \<and> refers D s r p)"
proof -
  have "phys (remove_state q va s) =
      phys (kstore (kva (PGNUM (pde s q (PDX va))) (PTX va)) 0 s)"
    by (simp add: remove_state_def kops)
  from refers_phys [OF this] show ?thesis
    using refers_store_pte [OF assms(1,2) PDX_user [OF assms(3)] assms(4), of "PTX va" 0] by auto
qed

lemma remove_state_inv:
  assumes "vm_inv D R fl s" and "q \<in> D" and "va < UTOP" and "vmap s q va = Some e"
  shows "vm_inv D R (if pp_ref (pages s (PGNUM e)) = 1 then PGNUM e # fl else fl)
           (remove_state q va s)"
proof -
  let ?i = "PDX va" and ?j = "PTX va" and ?p = "PGNUM e" and ?t = "remove_state q va s"
  let ?fl = "if pp_ref (pages s ?p) = 1 then ?p # fl else fl"
  from assms have sh: "pt_shape D s" and fr: "free_ok fl s" and e: "e = pte s q ?i ?j"
    and pd: "flag (pde s q ?i) PTE_P" and r: "refers D s (PageRef q ?i ?j) ?p"
    by (auto simp: vm_inv_def vmap_def PDX_user split: if_splits)
  have i: "?i < PDX UTOP" by (rule PDX_user [OF assms(3)])
  have p: "?p < npages s" "?p \<notin> set fl"
    using pt_shape_valid [OF sh r] vm_inv_referred_not_free [OF assms(1) r] by auto
  have ph: "phys ?t = phys (kstore (kva (PGNUM (pde s q ?i)) ?j) 0 s)"
    by (simp add: remove_state_def kops)
  have np: "npages ?t = npages s" by (simp add: remove_state_def)
  have "pt_shape D ?t"
    using pt_shape_store_pte [OF sh assms(2) i pd, of ?j 0]
    by (simp add: pt_shape_phys [OF ph] np)
  moreover have "free_ok ?fl ?t"
    using free_ok_drop_ref [OF fr p] by (simp add: remove_state_def e)
  moreover have "unat (pp_ref (pages ?t x)) = R x + card (refs D ?t x)" if "x < npages s" for x
  proof -
    have rs: "refs D ?t x = refs D s x - {PageRef q ?i ?j}"
      by (simp add: refs_phys [OF ph] refs_store_pte [OF sh assms(2) i pd])
    have pr: "pp_ref (pages ?t x) = (if x = ?p then pp_ref (pages s ?p) - 1 else pp_ref (pages s x))"
      by (simp add: remove_state_def e)
    note cnt = vm_inv_count [OF assms(1) that]
    show ?thesis
    proof (cases "x = ?p")
      case True
      then have mem: "PageRef q ?i ?j \<in> refs D s x" using r by (simp add: refs_def)
      then have "0 < card (refs D s x)" by (auto simp: card_gt_0_iff)
      moreover from this cnt have "pp_ref (pages s x) \<noteq> 0" by auto
      ultimately show ?thesis
        using cnt mem unfolding rs pr True [symmetric] by (simp add: unat_pred)
    next
      case False
      then have "PageRef q ?i ?j \<notin> refs D s x"
        using refers_unique [OF r] by (auto simp: refs_def simp del: refers.simps)
      then show ?thesis using cnt False by (simp add: rs pr)
    qed
  qed
  moreover have "R x = 0" if "refers D ?t r x" "is_table r" for r x
    using that vm_inv_table [OF assms(1)] remove_state_refers [OF sh assms(2,3) pd] by auto
  ultimately show ?thesis by (simp add: vm_inv_def np)
qed

section \<open>page_insert\<close>

text \<open>
  The increment of \<open>pp_ref\<close> that \<open>page_insert\<close> makes first is a reference the kernel holds
  until the entry is written; the 16-bit counter must not be at its maximum.
\<close>

lemma vm_inv_bump:
  assumes "vm_inv D R fl s" and "p < npages s" and "p \<notin> set fl"
    and "\<And>r. refers D s r p \<Longrightarrow> \<not> is_table r" and "pp_ref (pages s p) \<noteq> 0xFFFF"
  shows "vm_inv D (R(p := Suc (R p))) fl (upd_page p (\<lambda>i. i\<lparr>pp_ref := pp_ref i + 1\<rparr>) s)"
proof -
  have "unat (pp_ref (pages s p) + 1) = Suc (unat (pp_ref (pages s p)))"
    by (rule unat_succ [OF assms(5)])
  then show ?thesis
    using assms vm_inv_count [OF assms(1)] free_ok_upd_ref [OF vm_inv_free [OF assms(1)] assms(3)]
    by (auto simp: vm_inv_def refers_phys [OF phys_upd_page(1)] refs_phys [OF phys_upd_page(1)]
        pt_shape_phys [OF phys_upd_page(1)])
qed

lemma vm_inv_set_pte:
  assumes "vm_inv D (R(p := Suc (R p))) fl s" and "q \<in> D" and "i < PDX UTOP"
    and "flag (pde s q i) PTE_P" and "j < 1024" and "\<not> flag (pte s q i j) PTE_P"
    and "flag v PTE_P" and "PGNUM v = p" and "p < npages s"
  shows "vm_inv D R fl (kstore (kva (PGNUM (pde s q i)) j) v s)" (is "vm_inv D R fl ?t")
proof -
  have sh: "pt_shape D s" using assms(1) by (simp add: vm_inv_def)
  have nt: "\<not> is_table r" if "refers D s r p" for r
    using vm_inv_table [OF assms(1) that] by auto
  have "pt_shape D ?t"
    using assms nt by (intro pt_shape_store_pte [OF sh]) auto
  moreover have "unat (pp_ref (pages ?t x)) = R x + card (refs D ?t x)" if "x < npages s" for x
  proof -
    have "PageRef q i j \<notin> refs D s x" using assms(6) by (simp add: refs_def)
    then show ?thesis
      using vm_inv_count [OF assms(1) that] assms(7,8)
      by (auto simp: refs_store_pte [OF sh assms(2-5)])
  qed
  moreover have "R x = 0" if "refers D ?t r x" "is_table r" for r x
    using that vm_inv_table [OF assms(1), of r x]
    by (auto simp: refers_store_pte [OF sh assms(2-5)] split: if_splits)
  ultimately show ?thesis using vm_inv_free [OF assms(1)] by (simp add: vm_inv_def)
qed

lemma vm_inv_pde_flags:
  assumes "vm_inv D R fl s" and "q \<in> D" and "i < PDX UTOP" and "flag (pde s q i) PTE_P"
    and "PGNUM f = 0"
  shows "vm_inv D R fl (kstore (kva q i) (pde s q i OR f) s)" (is "vm_inv D R fl ?t")
    and "refers D (kstore (kva q i) (pde s q i OR f) s) r p = refers D s r p"
    and "q' \<in> D \<Longrightarrow> i' < PDX UTOP \<Longrightarrow> flag (pde s q' i') PTE_P \<Longrightarrow> j < 1024 \<Longrightarrow>
      pte (kstore (kva q i) (pde s q i OR f) s) q' i' j = pte s q' i' j"
proof -
  have sh: "pt_shape D s" using assms(1) by (simp add: vm_inv_def)
  have ref: "refers D ?t r p = refers D s r p" for r p
    using assms by (intro refers_store_pde [OF sh]) auto
  show "refers D ?t r p = refers D s r p" by (rule ref)
  show pt: "pte ?t q' i' j = pte s q' i' j"
    if "q' \<in> D" "i' < PDX UTOP" "flag (pde s q' i') PTE_P" "j < 1024" for q' i' j
    using pte_store_pde [OF sh assms(2) upde_less [OF assms(3)] that] assms(5) by simp
  have "pte ?t x y j = 0 \<or> flag (pte ?t x y j) PTE_P"
    if "refers D s (TabRef x y) w" "j < 1024" for x y w j
    using that pt [of x y j] pt_shape_pte [OF sh, of x y j] by auto
  then have "pt_shape D ?t" using sh by (simp add: pt_shape_def ref npages_ok_def del: refers.simps)
  then show "vm_inv D R fl ?t" using assms(1) by (simp add: vm_inv_def ref refs_def)
qed

lemma kload_walk_state:
  assumes "free_ok (z # fl) s" and "unat q < 0x10000" and "unat k < 0x10000" and "unat j < 1024"
  shows "kload (walk_state k va z s) (kva q j) =
    (if q = k \<and> j = PDX va then page2pa z OR PTE_P OR PTE_U OR PTE_W else if q = z then 0 else kload s (kva q j))"
proof -
  have "kload (upd_page z f (alloc_state 1 z s)) = kload (alloc_state 1 z s)" for f by (rule kload_cong) (simp add: kops)
  then show ?thesis
    using kload_kstore_kva [OF assms(3) PDX_less assms(2,4)] kload_alloc_state [OF assms(1,2,4), of 1]
    by (auto simp: walk_state_def)
qed

text \<open>
  How directories change: entries above \<open>UTOP\<close> never, other entries only by new tables, which get
  all permissions, and by added permissions.
\<close>

definition pde_grow :: "u32 \<Rightarrow> u32 \<Rightarrow> bool" where
  "pde_grow x y \<longleftrightarrow> (\<forall>f \<in> {PTE_P, PTE_U, PTE_W}. \<not> flag x PTE_P \<or> flag x f \<longrightarrow> flag y f)"

definition dirs_grow :: "u32 set \<Rightarrow> kstate \<Rightarrow> kstate \<Rightarrow> bool" where
  "dirs_grow D s t \<longleftrightarrow> (\<forall>q \<in> D. \<forall>i. unat i < 1024 \<longrightarrow>
     pde t q i = pde s q i \<or> (i < PDX UTOP \<and> pde_grow (pde s q i) (pde t q i)))"

lemma pde_grow_trans: "pde_grow x y \<Longrightarrow> pde_grow y z \<Longrightarrow> pde_grow x z"
  unfolding pde_grow_def by blast

lemma dirs_grow_same: "(\<And>q i. q \<in> D \<Longrightarrow> unat i < 1024 \<Longrightarrow> pde t q i = pde s q i) \<Longrightarrow> dirs_grow D s t"
  unfolding dirs_grow_def by blast

lemma dirs_grow_trans:
  assumes "dirs_grow D s t" and "dirs_grow D t u"
  shows "dirs_grow D s u"
  unfolding dirs_grow_def
proof (intro ballI allI impI)
  fix q i assume q: "q \<in> D" "unat (i :: u32) < 1024"
  from assms(1) q have "pde t q i = pde s q i \<or> (i < PDX UTOP \<and> pde_grow (pde s q i) (pde t q i))"
    unfolding dirs_grow_def by blast
  moreover from assms(2) q have "pde u q i = pde t q i \<or> (i < PDX UTOP \<and> pde_grow (pde t q i) (pde u q i))"
    unfolding dirs_grow_def by blast
  ultimately show "pde u q i = pde s q i \<or> (i < PDX UTOP \<and> pde_grow (pde s q i) (pde u q i))"
    using pde_grow_trans [of "pde s q i" "pde t q i" "pde u q i"] by (elim disjE conjE) simp_all
qed

lemma dirs_grow_phys: "phys t = phys s \<Longrightarrow> dirs_grow D s t"
  by (rule dirs_grow_same) (simp add: pde_cong [of t s])

lemma dirs_grow_walk:
  assumes "vm_inv D R (z # fl) s" and "q \<in> D" and "va < UTOP" and "\<not> flag (pde s q (PDX va)) PTE_P"
  shows "dirs_grow D s (walk_state q va z s)"
  unfolding dirs_grow_def
proof (intro ballI allI impI)
  fix x i assume x: "x \<in> D" "unat (i :: u32) < 1024"
  note sh = vm_inv_shape [OF assms(1)]
  have "x \<noteq> z" using vm_inv_free_page(2) [OF assms(1), of z] x(1) by (auto simp: refs_def dest: spec [of _ "DirRef z"])
  then have "pde (walk_state q va z s) x i = (if x = q \<and> i = PDX va then page2pa z OR PTE_P OR PTE_U OR PTE_W else pde s x i)"
    using kload_walk_state [OF vm_inv_free [OF assms(1)] dir_bound [OF sh x(1)] dir_bound [OF sh assms(2)] x(2)] by (simp add: pde_def)
  moreover have "pde_grow y (page2pa z OR PTE_P OR PTE_U OR PTE_W)" for y by (simp add: pde_grow_def)
  ultimately show "pde (walk_state q va z s) x i = pde s x i \<or> (i < PDX UTOP \<and> pde_grow (pde s x i) (pde (walk_state q va z s) x i))"
    using PDX_user [OF assms(3)] by (cases "x = q \<and> i = PDX va") simp_all
qed

lemma table_of_walk:
  assumes "vm_inv D R fl s" and "q \<in> D" and "va < UTOP"
    and "flag (pde s q (PDX va)) PTE_P \<or> fl \<noteq> []"
  obtains t fl' where "pgdir_walk (kva q 0) va True s =
      Ret (Some (kva (PGNUM (pde t q (PDX va))) (PTX va))) t"
    and "vm_inv D R fl' t" and "flag (pde t q (PDX va)) PTE_P" and "vm_only s t"
    and "set fl' \<subseteq> set fl" and "\<And>p. p \<notin> set fl \<Longrightarrow> pp_ref (pages t p) = pp_ref (pages s p)"
    and "\<And>q' va'. q' \<in> D \<Longrightarrow> va' < UTOP \<Longrightarrow> vmap t q' va' = vmap s q' va'"
    and "\<And>r p. p \<notin> set fl \<Longrightarrow> refers D t r p = refers D s r p"
    and "\<And>p. p \<in> set fl \<Longrightarrow> p \<notin> set fl' \<Longrightarrow> refs D t p = {TabRef q (PDX va)}"
    and "leaks fl' t \<subseteq> leaks fl s"
    and "\<And>k. k \<notin> D \<Longrightarrow> k \<notin> set fl \<Longrightarrow> k < npages s \<Longrightarrow> same_words k s t"
    and "dirs_grow D s t" and "length fl \<le> length fl' + (if flag (pde s q (PDX va)) PTE_P then 0 else 1)"
proof (cases "flag (pde s q (PDX va)) PTE_P")
  case True
  show thesis
    by (rule that [of s fl]) (use assms True pgdir_walk_present [OF vm_inv_shape] dirs_grow_phys [OF refl] in auto)
next
  case False
  then obtain z gl where fl: "fl = z # gl" using assms(4) by (cases fl) auto
  note inv = assms(1) [unfolded fl]
  note w = walk_state_table [OF inv assms(2,3) False]
  note m = walk_state_misc [OF vm_inv_free [OF inv], of q va]
  have zb: "unat z < 0x10000" using vm_inv_free_page [OF inv, of z] page_bound vm_inv_shape [OF inv]
    by (auto simp: pt_shape_def)
  have pd: "flag (pde (walk_state q va z s) q (PDX va)) PTE_P"
    "PGNUM (pde (walk_state q va z s) q (PDX va)) = z"
    using w(2) zb by (simp_all add: PGNUM_page2pa)
  have pdo: "flag (pde (walk_state q va z s) q' i) PTE_P = flag (pde s q' i) PTE_P"
    if "q' \<in> D" "i < PDX UTOP" "\<not> (q' = q \<and> i = PDX va)" for q' i
    using that w(1) [of "TabRef q' i" "PGNUM (pde (walk_state q va z s) q' i)"]
      w(1) [of "TabRef q' i" "PGNUM (pde s q' i)"] by auto
  have vm: "vmap (walk_state q va z s) q' va' = vmap s q' va'" if "q' \<in> D" "va' < UTOP" for q' va'
  proof (cases "q' = q \<and> PDX va' = PDX va")
    case True
    then show ?thesis using w(3) [OF that(1) PDX_user [OF that(2)], of "PTX va'"] False pd(1)
      by (simp add: vmap_def)
  next
    case False
    then show ?thesis using w(3) [OF that(1) PDX_user [OF that(2)], of "PTX va'"]
        pdo [OF that(1) PDX_user [OF that(2)]]
      by (auto simp: vmap_def)
  qed
  have sw: "same_words k s (walk_state q va z s)" if "k \<notin> D" "k \<notin> set fl" "k < npages s" for k
  proof -
    have k: "unat k < 0x10000" "k \<noteq> q" "k \<noteq> z"
      using kernel_page_bound [OF inv that(3)] that(1,2) assms(2) by (auto simp: fl)
    let ?u = "upd_page z (\<lambda>i. i\<lparr>pp_ref := pp_ref i + 1\<rparr>) (alloc_state 1 z s)"
    have "same_words k s (alloc_state 1 z s)"
      using kload_alloc_state [OF vm_inv_free [OF inv] k(1)] k(3) by (simp add: same_words_def)
    then have "same_words k s ?u" by (rule same_words_trans) (simp add: same_words_phys)
    then show ?thesis
      unfolding walk_state_def
      using same_words_kstore [OF dir_bound [OF vm_inv_shape [OF inv] assms(2)] PDX_less k(1,2)]
      by (rule same_words_trans)
  qed
  show thesis
  proof (rule that [of "walk_state q va z s" gl])
    show "refers D (walk_state q va z s) r p = refers D s r p" if "p \<notin> set fl" for r p
      using that False by (auto simp: w(1) fl)
    show "leaks gl (walk_state q va z s) \<subseteq> leaks fl s"
      using m(1,3) by (auto simp: leaks_def fl vm_only_def split: if_splits)
  qed (use False sw fl pd vm m pgdir_walk_create [OF inv assms(2,3) False]
      walk_state_inv [OF inv assms(2,3) False] walk_state_refs [OF inv assms(2,3) False] dirs_grow_walk [OF inv assms(2,3) False] in auto)
qed

section \<open>The mappings after the operations\<close>

lemma same_page: "PDX a = PDX b \<and> PTX a = PTX b \<longleftrightarrow> PGNUM a = PGNUM b"
proof -
  have "(x div 4194304 = y div 4194304 \<and> x div 4096 mod 1024 = y div 4096 mod 1024)
      = (x div 4096 = y div 4096)" for x y :: nat
  proof -
    have "z div 4194304 = z div 4096 div 1024" for z :: nat by (simp add: div_mult2_eq [symmetric])
    then show ?thesis by (metis div_mult_mod_eq)
  qed
  moreover have "unat x div 4194304 mod 1024 = unat x div 4194304" for x :: u32
    using unsigned_less [of x, where ?'a = nat] by simp
  ultimately show ?thesis by (simp add: word_unat_eq_iff unat_PDX unat_PTX unat_PGNUM)
qed

lemma vmap_store_pte:
  assumes "pt_shape D s" and "q \<in> D" and "va < UTOP" and "flag (pde s q (PDX va)) PTE_P"
    and "q' \<in> D" and "va' < UTOP"
  shows "vmap (kstore (kva (PGNUM (pde s q (PDX va))) (PTX va)) v s) q' va' =
     (if q' = q \<and> PGNUM va' = PGNUM va then (if flag v PTE_P then Some v else None)
      else vmap s q' va')"
proof -
  note i = PDX_user [OF assms(3)] and i' = PDX_user [OF assms(6)]
  note pd = pde_store_pte [OF assms(1,2) i assms(4) PTX_word_less assms(5) upde_less [OF i'], of va v]
  note pt = pte_store_pte [OF assms(1,2) i assms(4) PTX_word_less assms(5) i' _ PTX_word_less,
      of va v va']
  show ?thesis
  proof (cases "q' = q \<and> PDX va' = PDX va \<and> PTX va' = PTX va")
    case True
    then show ?thesis using pd pt assms(4) same_page [of va' va] by (simp add: vmap_def)
  next
    case False
    then show ?thesis using pd pt same_page [of va' va] by (auto simp: vmap_def)
  qed
qed

lemma vmap_phys: "phys t = phys s \<Longrightarrow> vmap t = vmap s"
  by (intro ext) (simp add: vmap_def pde_cong [of t s] pte_cong [of t s])

lemma remove_state_vmap:
  assumes "pt_shape D s" and "q \<in> D" and "va < UTOP" and "flag (pde s q (PDX va)) PTE_P"
    and "q' \<in> D" and "va' < UTOP"
  shows "vmap (remove_state q va s) q' va' =
     (if q' = q \<and> PGNUM va' = PGNUM va then None else vmap s q' va')"
proof -
  have "phys (remove_state q va s) =
      phys (kstore (kva (PGNUM (pde s q (PDX va))) (PTX va)) 0 s)"
    by (simp add: remove_state_def kops)
  from vmap_phys [OF this] show ?thesis using vmap_store_pte [OF assms, of 0] by simp
qed

lemma remove_state_pde:
  assumes "pt_shape D s" and "q \<in> D" and "va < UTOP" and "flag (pde s q (PDX va)) PTE_P"
  shows "pde (remove_state q va s) q (PDX va) = pde s q (PDX va)" and "dirs_grow D s (remove_state q va s)"
proof -
  have "phys (remove_state q va s) =
      phys (kstore (kva (PGNUM (pde s q (PDX va))) (PTX va)) 0 s)"
    by (simp add: remove_state_def kops)
  then have pd: "pde (remove_state q va s) x i = pde s x i" if "x \<in> D" "unat i < 1024" for x i
    using pde_cong pde_store_pte [OF assms(1,2) PDX_user [OF assms(3)] assms(4) PTX_word_less that] by metis
  show "pde (remove_state q va s) q (PDX va) = pde s q (PDX va)" by (rule pd [OF assms(2) PDX_less])
  show "dirs_grow D s (remove_state q va s)" by (rule dirs_grow_same [OF pd])
qed

lemma vm_only_remove_state: "vm_only s (remove_state q va s)"
proof -
  have "vm_only s (drop_ref p s)" for p by (rule drop_ref_vm_only)
  then show ?thesis
    unfolding remove_state_def by (meson vm_only_trans vm_only_ops(1) tlb_invalidate_misc(5))
qed

lemma vmap_pde_flags:
  assumes "vm_inv D R fl s" and "q \<in> D" and "i < PDX UTOP" and "flag (pde s q i) PTE_P"
    and "PGNUM f = 0" and "q' \<in> D" and "va' < UTOP"
  shows "vmap (kstore (kva q i) (pde s q i OR f) s) q' va' = vmap s q' va'"
proof -
  have "flag (pde (kstore (kva q i) (pde s q i OR f) s) q' (PDX va')) PTE_P =
      flag (pde s q' (PDX va')) PTE_P"
    using pde_store_pde [OF vm_inv_shape [OF assms(1)] assms(2) upde_less [OF assms(3)] assms(6)
        upde_less [OF PDX_user [OF assms(7)]]] assms(4) by auto
  with vm_inv_pde_flags(3) [OF assms(1-6) PDX_user [OF assms(7)], of "PTX va'"] show ?thesis
    by (auto simp: vmap_def)
qed

text \<open>
  Writing the entry after the old mapping is gone: the state \<open>t\<close> has the increment of
  \<open>pp_ref\<close> accounted for as a reference of the kernel.
\<close>

lemma insert_write:
  assumes "vm_inv D (R(p := Suc (R p))) fl t" and "q \<in> D" and "va < UTOP" and "p < npages t"
    and "PGNUM perm = 0" and "flag (pde t q (PDX va)) PTE_P" and "vmap t q va = None"
  defines "v \<equiv> page2pa p OR perm OR PTE_P"
  defines "u \<equiv> kstore (kva (PGNUM (pde t q (PDX va))) (PTX va)) v t"
  defines "w \<equiv> kstore (kva q (PDX va)) (kload u (kva q (PDX va)) OR perm) u"
  shows "vm_inv D R fl w" and "vm_only t w"
    and "q' \<in> D \<Longrightarrow> va' < UTOP \<Longrightarrow>
      vmap w q' va' = (if q' = q \<and> PGNUM va' = PGNUM va then Some v else vmap t q' va')"
    and "leaks fl w = leaks fl t" and "no_table D t k \<Longrightarrow> k < npages t \<Longrightarrow> same_words k t w"
    and "dirs_grow D t w"
proof -
  note i = PDX_user [OF assms(3)] and sh = vm_inv_shape [OF assms(1)]
  have "unat p < 0x10000" using page_bound [OF pt_shape_npages_ok [OF sh] assms(4)] .
  then have v: "flag v PTE_P" "PGNUM v = p" using assms(5) by (simp_all add: v_def PGNUM_page2pa)
  have np: "\<not> flag (pte t q (PDX va) (PTX va)) PTE_P" using assms(6,7) by (auto simp: vmap_def)
  have inv: "vm_inv D R fl u"
    unfolding u_def by (rule vm_inv_set_pte [OF assms(1,2) i assms(6) PTX_word_less np v assms(4)])
  have pd: "flag (pde u q (PDX va)) PTE_P"
    using pde_store_pte [OF sh assms(2) i assms(6) PTX_word_less assms(2) upde_less [OF i]] assms(6)
    by (simp add: u_def)
  have w: "w = kstore (kva q (PDX va)) (pde u q (PDX va) OR perm) u" by (simp add: w_def pde_def)
  show "vm_inv D R fl w"
    unfolding w by (rule vm_inv_pde_flags(1) [OF inv assms(2) i pd assms(5)])
  show "vm_only t w" unfolding w_def u_def by (meson vm_only_trans vm_only_ops(1))
  show "leaks fl w = leaks fl t" by (simp add: leaks_def w_def u_def)
  show "same_words k t w" if nt: "no_table D t k" and that: "k < npages t"
  proof -
    have k: "unat k < 0x10000" "k \<noteq> q" "k \<noteq> PGNUM (pde t q (PDX va))"
      using kernel_page_bound [OF assms(1) that] no_tableD [OF nt] assms(2,6) i by auto
    have "same_words k t u" unfolding u_def
      using same_words_kstore [OF table_bound [OF sh assms(2) i assms(6)] PTX_less k(1,3)] .
    then show ?thesis unfolding w_def
      using same_words_kstore [OF dir_bound [OF sh assms(2)] PDX_less k(1,2)] by (rule same_words_trans)
  qed
  show "dirs_grow D t w"
    unfolding dirs_grow_def
  proof (intro ballI allI impI)
    fix x j assume x: "x \<in> D" "unat (j :: u32) < 1024"
    have "pde u x j = pde t x j" using pde_store_pte [OF sh assms(2) i assms(6) PTX_word_less x] by (simp add: u_def)
    moreover have "pde w x j = (if x = q \<and> j = PDX va then pde u q (PDX va) OR perm else pde u x j)"
      unfolding w by (rule pde_store_pde [OF vm_inv_shape [OF inv] assms(2) PDX_less x])
    moreover have "pde_grow y (y OR perm)" if "flag y PTE_P" for y using that by (simp add: pde_grow_def)
    ultimately show "pde w x j = pde t x j \<or> (j < PDX UTOP \<and> pde_grow (pde t x j) (pde w x j))"
      using i pd by (cases "x = q \<and> j = PDX va") simp_all
  qed
  show "vmap w q' va' = (if q' = q \<and> PGNUM va' = PGNUM va then Some v else vmap t q' va')"
    if "q' \<in> D" "va' < UTOP"
    using vmap_pde_flags [OF inv assms(2) i pd assms(5) that] v(1)
      vmap_store_pte [OF sh assms(2,3,6) that, of v]
    by (simp add: w u_def)
qed

lemma remove_state_words:
  assumes "vm_inv D R fl s" and "q \<in> D" and "va < UTOP" and "flag (pde s q (PDX va)) PTE_P"
    and "no_table D s k" and "k < npages s"
  shows "same_words k s (remove_state q va s)"
proof -
  have k: "unat k < 0x10000" "k \<noteq> PGNUM (pde s q (PDX va))"
    using kernel_page_bound [OF assms(1,6)] no_tableD(2) [OF assms(5,2) PDX_user [OF assms(3)] assms(4)] by auto
  have "phys (remove_state q va s) = phys (kstore (kva (PGNUM (pde s q (PDX va))) (PTX va)) 0 s)"
    by (simp add: remove_state_def kops)
  from same_words_phys [OF this] show ?thesis
    using same_words_kstore [OF table_bound [OF vm_inv_shape [OF assms(1)] assms(2) PDX_user [OF assms(3)] assms(4)]
        PTX_less k] by (blast intro: same_words_trans)
qed

lemma remove_state_leaks:
  assumes "vm_inv D R fl s" and "q \<in> D" and "va < UTOP" and "vmap s q va = Some e"
  shows "leaks (if pp_ref (pages s (PGNUM e)) = 1 then PGNUM e # fl else fl) (remove_state q va s) \<subseteq> leaks fl s"
proof -
  have e: "e = pte s q (PDX va) (PTX va)" using assms(4) by (auto simp: vmap_def split: if_splits)
  have r: "refers D s (PageRef q (PDX va) (PTX va)) (PGNUM e)"
    using assms by (auto simp: vmap_def PDX_user split: if_splits)
  have "PageRef q (PDX va) (PTX va) \<in> refs D s (PGNUM e)" using r by (simp add: refs_def)
  then have "card (refs D s (PGNUM e)) \<noteq> 0" by auto
  then have "pp_ref (pages s (PGNUM e)) \<noteq> 0"
    using vm_inv_count [OF assms(1) pt_shape_valid [OF vm_inv_shape [OF assms(1)] r]] by auto
  then show ?thesis by (auto simp: leaks_def remove_state_def e split: if_splits)
qed

text \<open>The removal step of \<open>page_insert\<close>, entered with the count already incremented.\<close>

lemma insert_remove:
  assumes "vm_inv D R fl s" and "q \<in> D" and "va < UTOP" and "flag (pde s q (PDX va)) PTE_P"
  obtains t fl' where
    "(if flag (kload s (kva (PGNUM (pde s q (PDX va))) (PTX va))) PTE_P
      then page_remove (kva q 0) va s else Ret () s) = Ret () t"
    and "vm_inv D R fl' t" and "vm_only s t" and "vmap t q va = None"
    and "pde t q (PDX va) = pde s q (PDX va)"
    and "\<And>q' va'. q' \<in> D \<Longrightarrow> va' < UTOP \<Longrightarrow> \<not> (q' = q \<and> PGNUM va' = PGNUM va) \<Longrightarrow>
      vmap t q' va' = vmap s q' va'"
    and "leaks fl' t \<subseteq> leaks fl s"
    and "\<And>k. no_table D s k \<Longrightarrow> k < npages s \<Longrightarrow> same_words k s t"
    and "\<And>k. no_table D s k \<Longrightarrow> no_table D t k" and "dirs_grow D s t"
    and "length fl \<le> length fl'"
proof (cases "vmap s q va")
  case None
  show thesis
    by (rule that [of s fl]) (use assms None dirs_grow_phys [OF refl] in \<open>auto simp: vmap_def pte_def split: if_splits\<close>)
next
  case (Some e)
  note rm = page_remove_mapped [OF assms(1-3) Some] and inv = remove_state_inv [OF assms(1-3) Some]
  note sh = vm_inv_shape [OF assms(1)]
  have "flag (kload s (kva (PGNUM (pde s q (PDX va))) (PTX va))) PTE_P"
    using Some by (auto simp: vmap_def pte_def split: if_splits)
  then show thesis
    by (intro that [OF _ inv]) (use assms rm remove_state_vmap [OF sh assms(2-4)]
        vm_only_remove_state remove_state_pde [OF sh assms(2-4)] remove_state_leaks [OF assms(1-3) Some]
        remove_state_words [OF assms] remove_state_refers [OF sh assms(2-4)] in \<open>auto simp: no_table_def\<close>)
qed

lemma page_insert_full:
  assumes "vm_inv D R fl s" and "q \<in> D" and "va < UTOP"
    and "p < npages s" and "p \<notin> set fl" and "\<And>r. refers D s r p \<Longrightarrow> \<not> is_table r"
    and "pp_ref (pages s p) \<noteq> 0xFFFF" and "PGNUM perm = 0"
    and "flag (pde s q (PDX va)) PTE_P \<or> fl \<noteq> []"
  obtains t fl' where "page_insert (kva q 0) p va perm s = Ret (Inr ()) t"
    and "vm_inv D R fl' t" and "vm_only s t"
    and "\<And>q' va'. q' \<in> D \<Longrightarrow> va' < UTOP \<Longrightarrow> vmap t q' va' =
      (if q' = q \<and> PGNUM va' = PGNUM va then Some (page2pa p OR perm OR PTE_P) else vmap s q' va')"
    and "leaks fl' t \<subseteq> leaks fl s - {p}"
    and "\<And>k. no_table D s k \<Longrightarrow> k \<notin> set fl \<Longrightarrow> k < npages s \<Longrightarrow> same_words k s t"
    and "dirs_grow D s t" and "length fl \<le> length fl' + (if flag (pde s q (PDX va)) PTE_P then 0 else 1)"
proof -
  let ?i = "PDX va" and ?j = "PTX va" and ?R = "R(p := Suc (R p))"
  obtain s1 fl1 where walk: "pgdir_walk (kva q 0) va True s =
        Ret (Some (kva (PGNUM (pde s1 q ?i)) ?j)) s1"
    and inv1: "vm_inv D R fl1 s1" and pd1: "flag (pde s1 q ?i) PTE_P" and only1: "vm_only s s1"
    and fl1: "set fl1 \<subseteq> set fl" and ref1: "pp_ref (pages s1 p) = pp_ref (pages s p)"
    and vm1: "\<And>q' va'. q' \<in> D \<Longrightarrow> va' < UTOP \<Longrightarrow> vmap s1 q' va' = vmap s q' va'"
    and rs1: "\<And>r x. x \<notin> set fl \<Longrightarrow> refers D s1 r x = refers D s r x"
    and lk1: "leaks fl1 s1 \<subseteq> leaks fl s"
    and sw1: "\<And>k. k \<notin> D \<Longrightarrow> k \<notin> set fl \<Longrightarrow> k < npages s \<Longrightarrow> same_words k s s1" and gr1: "dirs_grow D s s1"
    and len1: "length fl \<le> length fl1 + (if flag (pde s q ?i) PTE_P then 0 else 1)"
    by (rule table_of_walk [OF assms(1-3,9)]) (use assms(5) in blast)
  define s2 where "s2 = upd_page p (\<lambda>i. i\<lparr>pp_ref := pp_ref i + 1\<rparr>) s1"
  have np1: "npages s1 = npages s" using only1 by (simp add: vm_only_def)
  have inv2: "vm_inv D ?R fl1 s2"
    unfolding s2_def
    by (rule vm_inv_bump [OF inv1]) (use assms(4-7) fl1 ref1 rs1 np1 in auto)
  have pd2: "pde s2 q ?i = pde s1 q ?i" and vm2: "vmap s2 = vmap s1"
    by (simp_all add: s2_def pde_cong [OF phys_upd_page(1)] vmap_phys [OF phys_upd_page(1)])
  obtain s3 fl3 where rm: "(if flag (kload s2 (kva (PGNUM (pde s2 q ?i)) ?j)) PTE_P
        then page_remove (kva q 0) va s2 else Ret () s2) = Ret () s3"
    and inv3: "vm_inv D ?R fl3 s3" and only3: "vm_only s2 s3" and none: "vmap s3 q va = None"
    and pd3: "pde s3 q ?i = pde s2 q ?i"
    and vm3: "\<And>q' va'. q' \<in> D \<Longrightarrow> va' < UTOP \<Longrightarrow> \<not> (q' = q \<and> PGNUM va' = PGNUM va) \<Longrightarrow>
      vmap s3 q' va' = vmap s2 q' va'"
    and lk3: "leaks fl3 s3 \<subseteq> leaks fl1 s2"
    and sw3: "\<And>k. no_table D s2 k \<Longrightarrow> k < npages s2 \<Longrightarrow> same_words k s2 s3"
    and nt3: "\<And>k. no_table D s2 k \<Longrightarrow> no_table D s3 k" and gr3: "dirs_grow D s2 s3"
    and len3: "length fl1 \<le> length fl3"
    by (rule insert_remove [OF inv2 assms(2,3)]) (use pd1 pd2 in auto)
  have np3: "p < npages s3" using assms(4) np1 only3 by (simp add: vm_only_def s2_def)
  have only: "vm_only s s3"
    using vm_only_trans [OF vm_only_trans [OF only1 vm_only_ops(4)] only3 [unfolded s2_def]] .
  note wr = insert_write [OF inv3 assms(2,3) np3 assms(8) _ none]
  have "unat (pp_ref (pages s1 p) + 1) = Suc (unat (pp_ref (pages s1 p)))"
    using assms(7) ref1 by (intro unat_succ) simp
  then have "pp_ref (pages s1 p) + 1 \<noteq> 0" by (metis unat_0 nat.distinct(1))
  then have lk2: "leaks fl1 s2 \<subseteq> leaks fl s - {p}" using lk1 by (auto simp: leaks_def s2_def)
  have sw: "same_words k s s3" "no_table D s3 k" if k: "no_table D s k" "k \<notin> set fl" "k < npages s" for k
  proof -
    have "k \<notin> D" using no_tableD(1) [OF k(1), of k] by auto
    then have "same_words k s s1" by (rule sw1 [OF _ k(2,3)])
    moreover have nt2: "no_table D s2 k"
      using k(1) rs1 [OF k(2)] unfolding no_table_def s2_def by (simp add: refers_phys [OF phys_upd_page(1)])
    moreover have "same_words k s1 s2" by (rule same_words_phys) (simp add: s2_def)
    moreover have "same_words k s2 s3" by (rule sw3 [OF nt2]) (use k(3) np1 in \<open>simp add: s2_def\<close>)
    ultimately show "same_words k s s3" by (blast intro: same_words_trans)
    show "no_table D s3 k" by (rule nt3 [OF nt2])
  qed
  have gr: "dirs_grow D s s3"
    using dirs_grow_trans [OF gr1 dirs_grow_trans [OF dirs_grow_phys gr3]] by (simp add: s2_def)
  have fl3: "flag (pde s3 q ?i) PTE_P" using pd1 pd2 pd3 by simp
  show thesis
  proof (rule that [OF _ wr(1) [OF fl3] vm_only_trans [OF only wr(2) [OF fl3]]])
    let ?u = "kstore (kva (PGNUM (pde s3 q ?i)) ?j) (page2pa p OR perm OR PTE_P) s3"
    show "page_insert (kva q 0) p va perm s =
        Ret (Inr ()) (kstore (kva q ?i) (kload ?u (kva q ?i) OR perm) ?u)"
      by (simp add: page_insert_def walk s2_def [symmetric] pd2 [symmetric] pd3 Let_def rm
          split del: if_split cong: if_cong)
    show "same_words k s (kstore (kva q ?i) (kload ?u (kva q ?i) OR perm) ?u)"
      if "no_table D s k" "k \<notin> set fl" "k < npages s" for k
      using same_words_trans [OF sw(1) [OF that] wr(5) [OF fl3 sw(2) [OF that]]] that(3) only by (auto simp: vm_only_def)
  qed (use dirs_grow_trans [OF gr wr(6) [OF fl3]] wr(3) [OF fl3] wr(4) [OF fl3] lk3 lk2 vm3 vm2 vm1 len1 len3 in auto)
qed

lemma page_insert_ok:
  assumes "vm_inv D R fl s" and "q \<in> D" and "va < UTOP"
    and "p < npages s" and "p \<notin> set fl" and "\<And>r. refers D s r p \<Longrightarrow> \<not> is_table r"
    and "pp_ref (pages s p) \<noteq> 0xFFFF" and "PGNUM perm = 0"
    and "flag (pde s q (PDX va)) PTE_P \<or> fl \<noteq> []"
  obtains t fl' where "page_insert (kva q 0) p va perm s = Ret (Inr ()) t"
    and "vm_inv D R fl' t" and "vm_only s t"
    and "\<And>q' va'. q' \<in> D \<Longrightarrow> va' < UTOP \<Longrightarrow> vmap t q' va' =
      (if q' = q \<and> PGNUM va' = PGNUM va then Some (page2pa p OR perm OR PTE_P) else vmap s q' va')"
    and "leaks fl' t \<subseteq> leaks fl s - {p}"
    and "\<And>k. 0 < R k \<or> k = p \<Longrightarrow> k < npages s \<Longrightarrow> same_words k s t"
proof (rule page_insert_full [OF assms])
  fix t fl'
  assume t: "page_insert (kva q 0) p va perm s = Ret (Inr ()) t" "vm_inv D R fl' t" "vm_only s t" "leaks fl' t \<subseteq> leaks fl s - {p}"
    and vm: "\<And>q' va'. q' \<in> D \<Longrightarrow> va' < UTOP \<Longrightarrow> vmap t q' va' =
      (if q' = q \<and> PGNUM va' = PGNUM va then Some (page2pa p OR perm OR PTE_P) else vmap s q' va')"
    and sw: "\<And>k. no_table D s k \<Longrightarrow> k \<notin> set fl \<Longrightarrow> k < npages s \<Longrightarrow> same_words k s t" and "dirs_grow D s t"
  have sw': "same_words k s t" if "0 < R k \<or> k = p" "k < npages s" for k
    using that(1) sw [OF _ _ that(2)] kernel_no_table [OF assms(1)] kernel_page(3) [OF assms(1)] assms(5,6)
    unfolding no_table_def by metis
  show thesis by (rule that [OF t(1-3) vm t(4) sw'])
qed

lemma page_insert_no_mem:
  assumes "vm_inv D R [] s" and "\<not> flag (pde s q (PDX va)) PTE_P"
  shows "page_insert (kva q 0) p va perm s = Ret (Inl E_NO_MEM) s"
  using assms by (simp add: page_insert_def pgdir_walk_no_memory vm_inv_free)

definition remove_free :: "u32 \<Rightarrow> u32 \<Rightarrow> kstate \<Rightarrow> u32 list \<Rightarrow> u32 list" where
  "remove_free q va s fl =
     (case vmap s q va of None \<Rightarrow> fl
      | Some e \<Rightarrow> if pp_ref (pages s (PGNUM e)) = 1 then PGNUM e # fl else fl)"

lemma page_remove_ok:
  assumes "vm_inv D R fl s" and "q \<in> D" and "va < UTOP"
  obtains t where "page_remove (kva q 0) va s = Ret () t"
    and "vm_inv D R (remove_free q va s fl) t" and "vm_only s t"
    and "\<And>q' va'. q' \<in> D \<Longrightarrow> va' < UTOP \<Longrightarrow> vmap t q' va' =
      (if q' = q \<and> PGNUM va' = PGNUM va then None else vmap s q' va')"
    and "leaks (remove_free q va s fl) t \<subseteq> leaks fl s"
    and "\<And>k. no_table D s k \<Longrightarrow> k < npages s \<Longrightarrow> same_words k s t" and "dirs_grow D s t"
proof (cases "vmap s q va")
  case None
  have "vmap s q va' = None" if "PGNUM va' = PGNUM va" for va'
    using None that same_page [of va' va] by (simp add: vmap_def split: if_splits)
  then show thesis
    by (intro that [of s])
      (use assms None page_remove_unmapped [OF assms None] dirs_grow_phys [OF refl] in \<open>auto simp: remove_free_def\<close>)
next
  case (Some e)
  then have fl: "flag (pde s q (PDX va)) PTE_P" by (auto simp: vmap_def split: if_splits)
  have lk: "leaks (remove_free q va s fl) (remove_state q va s) \<subseteq> leaks fl s"
    using remove_state_leaks [OF assms Some] by (simp add: remove_free_def Some)
  have "vm_inv D R (remove_free q va s fl) (remove_state q va s)"
    using remove_state_inv [OF assms Some] by (simp add: remove_free_def Some)
  then show thesis
    using lk fl by (intro that [OF page_remove_mapped [OF assms Some] _ vm_only_remove_state]
        remove_state_vmap [OF vm_inv_shape [OF assms(1)] assms(2,3)] remove_state_words [OF assms]
        remove_state_pde(2) [OF vm_inv_shape [OF assms(1)] assms(2,3)])
qed

section \<open>A concrete memory system\<close>

text \<open>
  Five pages: page 1 is an empty page directory, page 4 is allocated and not yet mapped, pages
  2 and 3 are free.  It shows that the conditions of the theorems below can be met.
\<close>

definition vm_small :: kstate where
  "vm_small = bss_state\<lparr>npages := 5, page_free_list := Some 2,
     pages := (\<lambda>_. zero_page)(1 := \<lparr>pp_link = None, pp_ref = 1\<rparr>,
                             2 := \<lparr>pp_link = Some 3, pp_ref = 0\<rparr>)\<rparr>"

lemma vm_small_misc [simp]:
  "npages vm_small = 5" "pde vm_small q i = 0" "vmap vm_small q va = None"
  "pp_ref (pages vm_small p) = (if p = 1 then 1 else 0)"
  by (simp_all add: vm_small_def bss_state_def pde_def vmap_def kops zero_page_def)

lemma vm_small_refers [simp]: "refers {1} vm_small r p \<longleftrightarrow> r = DirRef 1 \<and> p = 1"
  by (cases r) auto

lemma vm_small_free: "free_ok [2, 3] vm_small"
  by (simp add: free_ok_def npages_ok_def pl.elems_def vm_small_def bss_state_def zero_page_def)

lemma vm_small_inv: "vm_inv {1} (\<lambda>_. 0) [2, 3] vm_small"
proof -
  have "refs {1} vm_small p = (if p = 1 then {DirRef 1} else {})" for p
    by (auto simp: refs_def)
  then show ?thesis
    using vm_small_free by (auto simp: vm_inv_def pt_shape_def npages_ok_def)
qed

end
