(* ===== verification/User_Mem.thy ===== *)
theory User_Mem
  imports Vm_Ops
begin

text \<open>
  \<open>user_mem_check\<close>: when the checked range does not wrap around the address space, the check
  succeeds exactly if the processor would let user code access every byte of the range, and
  otherwise reports the first address that is not accessible.  When the range wraps, no page
  is tested at all.
\<close>

section \<open>What the hardware allows\<close>

text \<open>
  Address \<open>a\<close> is below \<open>ULIM\<close>, both levels are present, and the entry grants all bits of
  \<open>perm\<close>.
\<close>

definition user_ok :: "kstate \<Rightarrow> u32 \<Rightarrow> u32 \<Rightarrow> u32 \<Rightarrow> bool" where
  "user_ok s q perm a \<longleftrightarrow> a < ULIM \<and> flag (pde s q (PDX a)) PTE_P \<and>
     flag (pte s q (PDX a) (PTX a)) PTE_P \<and> pte s q (PDX a) (PTX a) AND perm = perm"

text \<open>All tables of a directory, the kernel's included, are pages of this machine.\<close>

definition tables_valid :: "u32 \<Rightarrow> kstate \<Rightarrow> bool" where
  "tables_valid q s \<longleftrightarrow>
     (\<forall>a. flag (pde s q (PDX a)) PTE_P \<longrightarrow> PGNUM (pde s q (PDX a)) < npages s)"

lemma user_ok_page: "PGNUM a = PGNUM b \<Longrightarrow> a < ULIM \<Longrightarrow> b < ULIM \<Longrightarrow>
  user_ok s q perm a = user_ok s q perm b"
  using same_page [of a b] by (simp add: user_ok_def)

lemma ULIM_page: "PGNUM a = PGNUM b \<Longrightarrow> a < ULIM \<longleftrightarrow> b < ULIM"
proof -
  have "unat x < 0xEF800000 \<longleftrightarrow> unat x div 4096 < 0xEF800" for x :: u32 by linarith
  moreover assume "PGNUM a = PGNUM b"
  then have "unat a div 4096 = unat b div 4096" by (metis unat_PGNUM)
  ultimately show ?thesis by (simp add: unat_mono_less jos_consts)
qed

section \<open>The loop\<close>

lemma pgdir_walk_lookup:
  assumes "tables_valid q s"
  shows "pgdir_walk (kva q 0) va False s =
     Ret (if flag (pde s q (PDX va)) PTE_P then Some (kva (PGNUM (pde s q (PDX va))) (PTX va))
          else None) s"
proof (cases "flag (pde s q (PDX va)) PTE_P")
  case True
  with assms have "PGNUM (pde s q (PDX va)) < npages s" by (simp add: tables_valid_def)
  then have "KADDR (PTE_ADDR (pde s q (PDX va))) s = Ret (kva (PGNUM (pde s q (PDX va))) 0) s"
    by (simp add: KADDR_def kva_def page2pa_PGNUM PTE_ADDR_PGNUM PGNUM_push12 PGNUM_less page2pa_def)
  with True show ?thesis by (simp add: pgdir_walk_def pde_def)
qed (simp add: pgdir_walk_absent)

lemma user_mem_check_loop_find:
  assumes "tables_valid q s"
  shows "user_mem_check_loop is (kva q 0) va perm s =
     (case find (\<lambda>i. \<not> user_ok s q perm i) is of
        None \<Rightarrow> Ret (Inr ()) s
      | Some i \<Rightarrow> Ret (Inl E_FAULT) (s\<lparr>user_mem_check_addr := (if i < va then va else i)\<rparr>))"
proof (induction "is")
  case Nil
  then show ?case by simp
next
  case (Cons i "is")
  then show ?case
    by (auto simp: pgdir_walk_lookup [OF assms] user_ok_def pte_def not_le)
qed

section \<open>The pages of a range\<close>

lemma unat_ROUNDUP_PGSIZE:
  "unat a + 4095 < 2 ^ 32 \<Longrightarrow> unat (ROUNDUP a PGSIZE) = (unat a + 4095) div 4096 * 4096"
  by (simp add: ROUNDUP_def unat_ROUNDDOWN unat_word_ariths jos_consts minus_mod_eq_div_mult)

lemma unat_ROUNDDOWN_PGSIZE: "unat (ROUNDDOWN a PGSIZE) = unat a div 4096 * 4096"
  by (simp add: unat_ROUNDDOWN jos_consts minus_mod_eq_div_mult)

lemma page_range_unat:
  assumes "unat b = 4096 * i" and "unat e = 4096 * j"
  shows "map unat (page_range b e) = map (\<lambda>k. 4096 * k) [i..<j]"
proof (cases "i < j")
  case True
  have "j < 0x100000" using unsigned_less [of e, where ?'a = nat] assms(2) by simp
  have "unat (b + of_nat k * PGSIZE) = 4096 * (i + k)" if "k < j - i" for k
    using that assms(1) \<open>j < 0x100000\<close>
    by (simp add: unat_word_ariths unsigned_of_nat take_bit_nat_eq_self jos_consts)
  moreover have "[i..<j] = map (\<lambda>k. i + k) [0..<j - i]"
    using True map_add_upt [of i "j - i"] by (simp add: add.commute)
  moreover have "(unat e - unat b + 4095) div 4096 = j - i" using True assms by simp
  moreover have "b < e" using True assms by (simp add: unat_mono_less)
  ultimately show ?thesis by (simp add: page_range_def)
next
  case False
  then show ?thesis using assms by (simp add: page_range_def unat_mono_less)
qed

text \<open>The pages visited are exactly the pages that contain a byte of the range.\<close>

lemma user_range_pages:
  assumes "unat va + unat len + 4095 < 2 ^ 32" and "len \<noteq> 0"
  shows "PGNUM ` set (page_range (ROUNDDOWN va PGSIZE) (ROUNDUP (va + len) PGSIZE)) =
     PGNUM ` {a. unat va \<le> unat a \<and> unat a < unat va + unat len}" (is "?L = PGNUM ` ?A")
proof -
  let ?i = "unat va div 4096" and ?j = "(unat va + unat len + 4095) div 4096"
  have "unat (va + len) = unat va + unat len" using assms(1) by (simp add: unat_word_ariths)
  then have "unat (ROUNDUP (va + len) PGSIZE) = 4096 * ?j"
    using assms(1) unat_ROUNDUP_PGSIZE [of "va + len"] by simp
  then have r: "map unat (page_range (ROUNDDOWN va PGSIZE) (ROUNDUP (va + len) PGSIZE)) =
      map (\<lambda>k. 4096 * k) [?i..<?j]"
    by (intro page_range_unat) (simp_all add: unat_ROUNDDOWN_PGSIZE)
  have "unat ` ?L = (\<lambda>n. n div 4096) ` set (map unat (page_range (ROUNDDOWN va PGSIZE) (ROUNDUP (va + len) PGSIZE)))"
    by (simp add: image_image unat_PGNUM)
  also have "\<dots> = {?i..<?j}" unfolding r by (simp add: image_image)
  also have "\<dots> = unat ` PGNUM ` ?A"
  proof (intro set_eqI iffI)
    fix n assume n: "n \<in> {?i..<?j}"
    define a :: u32 where "a = of_nat (max (unat va) (4096 * n))"
    have "4096 * n < unat va + unat len" using n by auto
    moreover have "0 < unat len" using assms(2) by (simp add: unat_gt_0)
    ultimately have b: "max (unat va) (4096 * n) < unat va + unat len" by simp
    then have ua: "unat a = max (unat va) (4096 * n)"
      using assms(1) unfolding a_def by (simp add: unsigned_of_nat take_bit_nat_eq_self)
    have "unat a div 4096 = n" unfolding ua using n by (auto simp: max_def)
    then show "n \<in> unat ` PGNUM ` ?A"
      using ua b by (intro image_eqI [of _ _ "PGNUM a"] image_eqI [of _ _ a]) (auto simp: unat_PGNUM)
  next
    fix n assume "n \<in> unat ` PGNUM ` ?A"
    then obtain a :: u32 where a: "unat va \<le> unat a" "unat a < unat va + unat len"
      and n: "n = unat a div 4096"
      by (auto simp: unat_PGNUM)
    have "unat va div 4096 \<le> n" unfolding n by (rule div_le_mono [OF a(1)])
    moreover have "n < ?j" using a(2) unfolding n by linarith
    ultimately show "n \<in> {?i..<?j}" by simp
  qed
  finally show ?thesis by (rule inj_image_eq_iff [THEN iffD1, rotated]) (simp add: inj_def word_unat_eq_iff)
qed

lemma page_range_len0:
  assumes "unat va + 4095 < 2 ^ 32" and "unat va mod 4096 = 0"
  shows "page_range (ROUNDDOWN va PGSIZE) (ROUNDUP va PGSIZE) = []"
proof -
  have "(unat va + 4095) div 4096 = unat va div 4096" using assms(2) by auto
  then have "unat (ROUNDUP va PGSIZE) = unat (ROUNDDOWN va PGSIZE)"
    using assms by (simp add: unat_ROUNDUP_PGSIZE unat_ROUNDDOWN_PGSIZE)
  then show ?thesis by (simp add: page_range_def unat_mono_less)
qed

lemma user_mem_check_iff:
  assumes "tables_valid q s" and "env_pgdir (envs s e) = kva q 0"
    and "unat va + unat len + 4095 < 2 ^ 32" and "len \<noteq> 0"
  shows "user_mem_check e va len perm s = Ret (Inr ()) s \<longleftrightarrow>
     (\<forall>a. unat va \<le> unat a \<and> unat a < unat va + unat len \<longrightarrow> user_ok s q perm a)"
proof -
  let ?is = "page_range (ROUNDDOWN va PGSIZE) (ROUNDUP (va + len) PGSIZE)"
  let ?A = "{a. unat va \<le> unat a \<and> unat a < unat va + unat len}"
  have cong: "user_ok s q perm a = user_ok s q perm b" if "PGNUM a = PGNUM b" for a b
    using that user_ok_page [OF that] ULIM_page [OF that] by (auto simp: user_ok_def)
  have "user_mem_check e va len perm s = Ret (Inr ()) s \<longleftrightarrow> (\<forall>i \<in> set ?is. user_ok s q perm i)"
    by (simp add: user_mem_check_def assms(2) user_mem_check_loop_find [OF assms(1)]
        find_None_iff split: option.split) (metis find_None_iff option.distinct(1))
  also have "\<dots> \<longleftrightarrow> (\<forall>n \<in> PGNUM ` set ?is. \<forall>a. PGNUM a = n \<longrightarrow> user_ok s q perm a)"
    using cong by blast
  also have "\<dots> \<longleftrightarrow> (\<forall>a \<in> ?A. user_ok s q perm a)"
    unfolding user_range_pages [OF assms(3,4)] using cong by blast
  finally show ?thesis by simp
qed

lemma find_first:
  assumes "find P xs = Some x"
  obtains ys zs where "xs = ys @ x # zs" and "P x" and "\<And>y. y \<in> set ys \<Longrightarrow> \<not> P y"
proof -
  from assms obtain i where i: "i < length xs" "P (xs ! i)" "x = xs ! i" "\<forall>j < i. \<not> P (xs ! j)"
    by (auto simp: find_Some_iff)
  show thesis
    by (rule that [of "take i xs" "drop (Suc i) xs"])
      (use i in \<open>auto simp: id_take_nth_drop [symmetric] in_set_conv_nth\<close>)
qed

lemma page_range_sorted:
  assumes "unat b = 4096 * i" and "unat e = 4096 * j"
  shows "sorted (map unat (page_range b e))"
  unfolding page_range_unat [OF assms] by (simp add: sorted_map sorted_wrt_mono_rel [OF _ sorted_wrt_upt])

text \<open>The reported address is the first one of the range that is not accessible.\<close>

lemma user_mem_check_first:
  assumes "tables_valid q s" and "env_pgdir (envs s e) = kva q 0"
    and "unat va + unat len + 4095 < 2 ^ 32" and "len \<noteq> 0"
    and "user_mem_check e va len perm s = Ret (Inl err) t"
  shows "err = E_FAULT" and "t = s\<lparr>user_mem_check_addr := user_mem_check_addr t\<rparr>"
    and "unat va \<le> unat (user_mem_check_addr t)"
    and "unat (user_mem_check_addr t) < unat va + unat len"
    and "\<not> user_ok s q perm (user_mem_check_addr t)"
    and "\<And>a. unat va \<le> unat a \<Longrightarrow> a < user_mem_check_addr t \<Longrightarrow> user_ok s q perm a"
proof -
  let ?i0 = "unat va div 4096" and ?j0 = "(unat va + unat len + 4095) div 4096"
  let ?is = "page_range (ROUNDDOWN va PGSIZE) (ROUNDUP (va + len) PGSIZE)"
  let ?u = "user_mem_check_addr t"
  have cong: "user_ok s q perm a = user_ok s q perm b" if "PGNUM a = PGNUM b" for a b
    using that user_ok_page [OF that] ULIM_page [OF that] by (auto simp: user_ok_def)
  have "unat (va + len) = unat va + unat len" using assms(3) by (simp add: unat_word_ariths)
  then have ends: "unat (ROUNDDOWN va PGSIZE) = 4096 * ?i0" "unat (ROUNDUP (va + len) PGSIZE) = 4096 * ?j0"
    using assms(3) unat_ROUNDUP_PGSIZE [of "va + len"] by (simp_all add: unat_ROUNDDOWN_PGSIZE)
  note r = page_range_unat [OF ends] and srt = page_range_sorted [OF ends]
  from assms(5) obtain i where f: "find (\<lambda>i. \<not> user_ok s q perm i) ?is = Some i"
    and t: "t = s\<lparr>user_mem_check_addr := (if i < va then va else i)\<rparr>" and err: "err = E_FAULT"
    by (auto simp: user_mem_check_def assms(2) user_mem_check_loop_find [OF assms(1)]
        split: option.splits)
  then have u: "?u = (if i < va then va else i)" by simp
  obtain ys zs where sp: "?is = ys @ i # zs" and bad: "\<not> user_ok s q perm i"
    and ok: "\<And>y. y \<in> set ys \<Longrightarrow> user_ok s q perm y"
    using find_first [OF f] by metis
  have "unat i \<in> set (map unat ?is)" unfolding sp by simp
  then obtain k where k: "unat i = 4096 * k" "?i0 \<le> k" "k < ?j0" unfolding r by auto
  have pg: "PGNUM ?u = PGNUM i"
    using k by (auto simp: u word_unat_eq_iff unat_PGNUM unat_mono_less)
  show "err = E_FAULT" "t = s\<lparr>user_mem_check_addr := ?u\<rparr>" using err t by simp_all
  show "unat va \<le> unat ?u" by (simp add: u unat_mono_less)
  have "0 < unat len" using assms(4) by (simp add: unat_gt_0)
  then show "unat ?u < unat va + unat len" using k by (auto simp: u unat_mono_less)
  show "\<not> user_ok s q perm ?u" using bad cong [OF pg] by simp
  fix a assume a: "unat va \<le> unat a" "a < ?u"
  then have ai: "unat a < unat i" by (auto simp: u unat_mono_less split: if_splits)
  have "unat a div 4096 \<in> set [?i0..<?j0]" using a(1) ai k by (auto simp: div_le_mono)
  then have "4096 * (unat a div 4096) \<in> set (map unat ?is)" unfolding r by auto
  then obtain b where b': "4096 * (unat a div 4096) = unat b" "b \<in> set ?is"
    unfolding set_map by (rule imageE)
  note b = b'(2) b'(1) [symmetric]
  then have "unat b < unat i" using ai by auto
  moreover have "unat i \<le> unat x" if "x \<in> set (i # zs)" for x
    using srt that unfolding sp by (auto simp: sorted_append)
  ultimately have "b \<notin> set (i # zs)" using not_le by blast
  then have "b \<in> set ys" using b(1) by (simp add: sp)
  moreover have "PGNUM a = PGNUM b" using b(2) by (simp add: word_unat_eq_iff unat_PGNUM)
  ultimately show "user_ok s q perm a" using ok cong by blast
qed

end
