(* ===== verification/Vm_Spec.thy ===== *)
theory Vm_Spec
  imports User_Mem
begin

text \<open>
  The contract of the physical page allocator and of the page table operations, stated over
  the code's own definitions.  \<open>vm_inv D R fl s\<close> is the invariant of theory \<open>Vm_Inv\<close>: \<open>D\<close>
  the directories, \<open>fl\<close> the free list, and \<open>pp_ref\<close> exactly the number of references (the
  entries that point at the page plus the \<open>R p\<close> references the kernel itself holds).
\<close>

section \<open>A mapped page\<close>

definition vm_mapped :: kstate where
  "vm_mapped = vm_small\<lparr>phys := (\<lambda>_. 0)(0x1008 := 0x2007, 0x2000 := 0x4007),
     envs := (\<lambda>_. zero_env\<lparr>env_pgdir := kva 1 0\<rparr>)\<rparr>"

lemma vm_mapped_pde:
  "unat i < 1024 \<Longrightarrow> pde vm_mapped 1 i = (if i = 2 then 0x2007 else 0)"
proof -
  assume i: "unat i < 1024"
  have "kva 1 2 - KERNBASE = 0x1008" by (simp add: kva_offset page2pa_def)
  then have "kva 1 i - KERNBASE = 0x1008 \<longleftrightarrow> i = 2"
    using kva_eq_iff [of 1 i 1 2] i by simp
  moreover have "kva 1 i - KERNBASE \<noteq> 0x2000"
    using PGNUM_kva [of 1 i] i by (auto simp: PGNUM_def)
  ultimately show ?thesis
    by (simp add: pde_def kload_def vm_mapped_def)
qed

lemma vm_mapped_pte: "pte vm_mapped 1 2 j = ((\<lambda>_. 0)(0x1008 := 0x2007, 0x2000 := 0x4007)) (0x2000 + 4 * j)"
proof -
  have "PGNUM 0x2007 = 2" "page2pa 2 = 0x2000" by (simp_all add: PGNUM_def page2pa_def)
  moreover have "phys vm_mapped = (\<lambda>_. 0)(0x1008 := 0x2007, 0x2000 := 0x4007)"
    by (simp add: vm_mapped_def)
  moreover have "unat (2::u32) < 1024" by simp
  ultimately show ?thesis by (simp only: pte_def vm_mapped_pde kload_def kva_offset if_True simp_thms)
qed

lemma vm_mapped_tables: "tables_valid 1 vm_mapped"
proof -
  have "npages vm_mapped = 5" by (simp add: vm_mapped_def)
  then show ?thesis by (auto simp: tables_valid_def vm_mapped_pde PDX_less PGNUM_def)
qed

section \<open>Allocator\<close>

text \<open>
  C5: on a well-formed memory system with a page directory at page \<open>q\<close>, \<open>page_insert\<close> of an
  allocated page \<open>pp\<close> that is not itself a page table, with fewer than 65535 references and
  with a permission that fits below the page number, succeeds whenever the table exists or a
  page is free; afterwards \<open>va\<close> maps to \<open>pp\<close> with \<open>perm | PTE_P\<close>, every other user mapping
  of every directory is as before (also when \<open>pp\<close> was already mapped at \<open>va\<close>), all reference
  counts are exact, and nothing but the memory system has changed.
\<close>

theorem page_insert_maps:
  assumes "vm_inv D R fl s" and "q \<in> D" and "va < UTOP"
    and "pp < npages s" and "pp \<notin> set fl" and "\<forall>r. refers D s r pp \<longrightarrow> \<not> is_table r"
    and "pp_ref (pages s pp) \<noteq> 0xFFFF" and "PGNUM perm = 0"
    and "flag (pde s q (PDX va)) PTE_P \<or> fl \<noteq> []"
  shows "\<exists>t fl'. page_insert (kva q 0) pp va perm s = Ret (Inr ()) t \<and> vm_inv D R fl' t \<and>
     vm_only s t \<and>
     (\<forall>q' \<in> D. \<forall>va'. va' < UTOP \<longrightarrow> vmap t q' va' =
        (if q' = q \<and> PGNUM va' = PGNUM va then Some (page2pa pp OR perm OR PTE_P)
         else vmap s q' va'))"
proof -
  have "\<not> is_table r" if "refers D s r pp" for r using assms(6) that by blast
  from page_insert_ok [OF assms(1-5) this assms(7-9)] show ?thesis by metis
qed

theorem page_insert_maps_witness:
  "\<exists>t fl'. page_insert (kva 1 0) 4 0x800000 (PTE_U OR PTE_W) vm_small = Ret (Inr ()) t \<and>
     vm_inv {1} (\<lambda>_. 0) fl' t \<and> vmap t 1 0x800000 = Some (page2pa 4 OR (PTE_U OR PTE_W) OR PTE_P)"
proof -
  have "\<exists>t fl'. page_insert (kva 1 0) 4 0x800000 (PTE_U OR PTE_W) vm_small = Ret (Inr ()) t \<and>
     vm_inv {1} (\<lambda>_. 0) fl' t \<and> vm_only vm_small t \<and>
     (\<forall>q' \<in> {1}. \<forall>va'. va' < UTOP \<longrightarrow> vmap t q' va' =
        (if q' = 1 \<and> PGNUM va' = PGNUM 0x800000 then Some (page2pa 4 OR (PTE_U OR PTE_W) OR PTE_P)
         else vmap vm_small q' va'))"
    by (rule page_insert_maps [OF vm_small_inv]) (simp_all, simp_all add: jos_consts)
  moreover have "(0x800000 :: u32) < UTOP" by (simp add: jos_consts)
  ultimately show ?thesis by fastforce
qed

text \<open>
  C5: when the page table for \<open>va\<close> does not exist and no page is free, \<open>page_insert\<close> returns
  \<open>-E_NO_MEM\<close> and changes nothing, in particular it does not count a reference.
\<close>

theorem page_insert_out_of_memory:
  assumes "vm_inv D R [] s" and "\<not> flag (pde s q (PDX va)) PTE_P"
  shows "page_insert (kva q 0) pp va perm s = Ret (Inl E_NO_MEM) s"
  using assms by (rule page_insert_no_mem)

definition vm_full :: kstate where
  "vm_full = bss_state\<lparr>npages := 2, pages := (\<lambda>_. zero_page)(1 := \<lparr>pp_link = None, pp_ref = 1\<rparr>)\<rparr>"

lemma vm_full_inv: "vm_inv {1} (\<lambda>_. 0) [] vm_full"
proof -
  have pd: "pde vm_full q i = 0" for q i by (simp add: vm_full_def bss_state_def pde_def kops)
  have rf: "refers {1} vm_full r p \<longleftrightarrow> r = DirRef 1 \<and> p = 1" for r p by (cases r) (auto simp: pd)
  then have "refs {1} vm_full p = (if p = 1 then {DirRef 1} else {})" for p by (auto simp: refs_def)
  moreover have "pte vm_full 1 i j = 0" for i j
    by (simp add: pte_def pd kops) (simp add: vm_full_def bss_state_def)
  moreover have "free_ok [] vm_full"
    by (simp add: free_ok_def npages_ok_def pl.elems_def vm_full_def bss_state_def zero_page_def)
  moreover have "pp_ref (pages vm_full p) = (if p = 1 then 1 else 0)" "npages vm_full = 2" for p
    by (simp_all add: vm_full_def bss_state_def zero_page_def)
  ultimately show ?thesis by (auto simp: vm_inv_def pt_shape_def npages_ok_def rf)
qed

theorem page_insert_out_of_memory_witness:
  "page_insert (kva 1 0) 0 0x800000 PTE_U vm_full = Ret (Inl E_NO_MEM) vm_full"
  by (rule page_insert_out_of_memory [OF vm_full_inv])
    (simp add: vm_full_def bss_state_def pde_def kops)

text \<open>
  C6: \<open>page_remove\<close> never fails on a well-formed memory system; it clears exactly the mapping of
  \<open>va\<close>, keeps all counts exact, and puts the page on the free list exactly when this was its
  last reference.
\<close>

theorem page_remove_unmaps:
  assumes "vm_inv D R fl s" and "q \<in> D" and "va < UTOP"
  shows "\<exists>t. page_remove (kva q 0) va s = Ret () t \<and> vm_only s t \<and>
     vm_inv D R (case vmap s q va of None \<Rightarrow> fl
       | Some e \<Rightarrow> if pp_ref (pages s (PGNUM e)) = 1 then PGNUM e # fl else fl) t \<and>
     (\<forall>q' \<in> D. \<forall>va'. va' < UTOP \<longrightarrow> vmap t q' va' =
        (if q' = q \<and> PGNUM va' = PGNUM va then None else vmap s q' va'))"
proof -
  obtain t where "page_remove (kva q 0) va s = Ret () t" "vm_only s t"
    "vm_inv D R (remove_free q va s fl) t"
    "\<And>q' va'. q' \<in> D \<Longrightarrow> va' < UTOP \<Longrightarrow> vmap t q' va' =
      (if q' = q \<and> PGNUM va' = PGNUM va then None else vmap s q' va')"
    by (rule page_remove_ok [OF assms]) blast
  then show ?thesis unfolding remove_free_def by (intro exI [of _ t]) simp
qed

theorem page_remove_unmaps_witness:
  "\<exists>t. page_remove (kva 1 0) 0x800000 vm_small = Ret () t \<and> vm_inv {1} (\<lambda>_. 0) [2, 3] t"
proof -
  have "1 \<in> {1 :: u32}" and "(0x800000 :: u32) < UTOP" by (simp_all add: jos_consts)
  from page_remove_unmaps [OF vm_small_inv this] show ?thesis by auto
qed

text \<open>
  C7: \<open>page_lookup\<close> on a well-formed memory system returns the page and the entry's address
  when \<open>va\<close> is mapped and \<open>NULL\<close> otherwise, and changes nothing.  (The guard
  \<open>!(*pte) & PTE_P\<close> misplaces the negation; the invariant makes it harmless, since there an
  entry without \<open>PTE_P\<close> is zero.)
\<close>

theorem page_lookup_finds:
  assumes "vm_inv D R fl s" and "q \<in> D" and "va < UTOP"
  shows "page_lookup (kva q 0) va s =
     Ret (case vmap s q va of None \<Rightarrow> None
          | Some e \<Rightarrow> Some (PGNUM e, kva (PGNUM (pde s q (PDX va))) (PTX va))) s"
  using page_lookup_vmap [OF vm_inv_shape [OF assms(1)] assms(2,3)]
  by (simp add: map_option_case)

theorem page_lookup_finds_witness: "page_lookup (kva 1 0) 0x800000 vm_small = Ret None vm_small"
proof -
  have "1 \<in> {1 :: u32}" and "(0x800000 :: u32) < UTOP" by (simp_all add: jos_consts)
  from page_lookup_finds [OF vm_small_inv this] show ?thesis by simp
qed

text \<open>
  C8: \<open>page_alloc\<close> takes the first page of the free list, which has no reference, leaves the
  rest of the list, and zeroes the page's 1024 words exactly if asked to; a \<open>page_free\<close> of
  that page puts it back so that the free list is the same as before.
\<close>

theorem page_alloc_free_roundtrip:
  assumes "free_ok (p # fl) s"
  shows "\<exists>t u. page_alloc f s = Ret (Some p) t \<and> free_ok fl t \<and> vm_only s t \<and>
     pp_ref (pages t p) = 0 \<and>
     (\<forall>q j. unat q < 0x10000 \<longrightarrow> unat j < 1024 \<longrightarrow>
        kload t (kva q j) = (if flag f ALLOC_ZERO \<and> q = p then 0 else kload s (kva q j))) \<and>
     page_free p t = Ret () u \<and> free_ok (p # fl) u"
proof -
  note a = alloc_state_facts [OF assms]
  have np: "p < npages (alloc_state f p s)" using a(2) [of f] a(3) by (simp add: vm_only_def)
  show ?thesis
    using a np page_alloc_Some [OF assms, of f] kload_alloc_state [OF assms]
      page_free_ok [OF a(1) np a(4)] free_ok_push [OF a(1) np a(4)]
    by (intro exI [of _ "alloc_state f p s"] exI [of _ "page_list_push p (alloc_state f p s)"]) simp
qed

theorem page_alloc_free_roundtrip_witness:
  "\<exists>t u. page_alloc 1 vm_small = Ret (Some 2) t \<and> page_free 2 t = Ret () u \<and> free_ok [2, 3] u"
  using page_alloc_free_roundtrip [OF vm_small_free, of 1] by blast

section \<open>User memory checks\<close>

text \<open>
  C22: if the range \<open>[va, va + len)\<close>, rounded up to a page, does not wrap around, and the
  environment's tables are pages of the machine, then \<open>user_mem_check\<close> returns 0 (and changes
  nothing) exactly if every byte of the range is below \<open>ULIM\<close> and mapped with all of \<open>perm\<close>
  and \<open>PTE_P\<close>.
\<close>

theorem user_mem_check_exact:
  assumes "tables_valid q s" and "env_pgdir (envs s e) = kva q 0"
    and "unat va + unat len + 4095 < 2 ^ 32" and "len \<noteq> 0"
  shows "user_mem_check e va len perm s = Ret (Inr ()) s \<longleftrightarrow>
     (\<forall>a. unat va \<le> unat a \<and> unat a < unat va + unat len \<longrightarrow> user_ok s q perm a)"
  using assms by (rule user_mem_check_iff)

theorem user_mem_check_exact_witness:
  "user_mem_check 0 0x800010 16 (PTE_U OR PTE_W) vm_mapped = Ret (Inr ()) vm_mapped"
proof -
  have pg: "unat a div 4096 = 0x800" if "0x800010 \<le> unat a" "unat a < 0x800020" for a :: u32
    using that by simp
  have "user_ok vm_mapped 1 (PTE_U OR PTE_W) a" if "0x800010 \<le> unat a" "unat a < 0x800020" for a
  proof -
    have "PDX a = 2" "PTX a = 0"
      using that by (simp_all add: word_unat_eq_iff unat_PDX unat_PTX pg [OF that])
    moreover have "a < ULIM" using that by (simp add: unat_mono_less jos_consts)
    moreover have "pte vm_mapped 1 2 0 = 0x4007"
      by (simp add: vm_mapped_pte)
    ultimately show ?thesis
      by (simp add: user_ok_def vm_mapped_pde flag_def jos_consts)
  qed
  then show ?thesis
    using user_mem_check_exact [OF vm_mapped_tables, of 0 "0x800010" 16 "PTE_U OR PTE_W"]
    by (simp add: vm_mapped_def)
qed

text \<open>
  C20: when the check fails it returns \<open>-E_FAULT\<close>, changes only \<open>user_mem_check_addr\<close>, and
  that is the first byte of the range the environment may not access.
\<close>

theorem user_mem_check_fault_address:
  assumes "tables_valid q s" and "env_pgdir (envs s e) = kva q 0"
    and "unat va + unat len + 4095 < 2 ^ 32" and "len \<noteq> 0"
    and "user_mem_check e va len perm s = Ret (Inl err) t"
  shows "err = E_FAULT \<and> t = s\<lparr>user_mem_check_addr := user_mem_check_addr t\<rparr> \<and>
     unat va \<le> unat (user_mem_check_addr t) \<and>
     unat (user_mem_check_addr t) < unat va + unat len \<and>
     \<not> user_ok s q perm (user_mem_check_addr t) \<and>
     (\<forall>a. unat va \<le> unat a \<longrightarrow> a < user_mem_check_addr t \<longrightarrow> user_ok s q perm a)"
  using user_mem_check_first [OF assms] by blast

theorem user_mem_check_fault_address_witness:
  "\<exists>t. user_mem_check 0 0x900010 16 PTE_U vm_mapped = Ret (Inl E_FAULT) t \<and>
     \<not> user_ok vm_mapped 1 PTE_U (user_mem_check_addr t)"
proof -
  have pr: "page_range (ROUNDDOWN 0x900010 PGSIZE) (ROUNDUP (0x900010 + 16) PGSIZE) = [0x900000]"
    by (simp add: page_range_def ROUNDDOWN_def ROUNDUP_def jos_consts)
  have pt: "pte vm_mapped 1 2 0x100 = 0"
    by (simp add: vm_mapped_pte)
  have dir: "env_pgdir (envs vm_mapped 0) = kva 1 0" by (simp add: vm_mapped_def)
  have bad: "\<not> user_ok vm_mapped 1 PTE_U 0x900000"
    by (simp add: user_ok_def PDX_def PTX_def pt)
  have run: "user_mem_check 0 0x900010 16 PTE_U vm_mapped =
      Ret (Inl E_FAULT) (vm_mapped\<lparr>user_mem_check_addr := 0x900010\<rparr>)"
    by (simp only: user_mem_check_def pr dir user_mem_check_loop_find [OF vm_mapped_tables])
      (simp add: bad)
  show ?thesis
    using user_mem_check_fault_address [OF vm_mapped_tables dir _ _ run] run by simp
qed

text \<open>
  C22: when \<open>va + len\<close> wraps around so that the rounded end is not above the rounded start, the
  loop runs no iteration and the check succeeds whatever the page tables say.
\<close>

theorem user_mem_check_wraps:
  assumes "\<not> ROUNDDOWN va PGSIZE < ROUNDUP (va + len) PGSIZE"
  shows "user_mem_check e va len perm s = Ret (Inr ()) s"
  using assms by (simp add: user_mem_check_def page_range_empty)

theorem user_mem_check_wraps_witness:
  "user_mem_check 0 0xF0100000 0x20000000 PTE_U bss_state = Ret (Inr ()) bss_state"
  by (rule user_mem_check_wraps) (simp add: ROUNDDOWN_def ROUNDUP_def jos_consts)

end
