(* ===== verification/Console_Buffer.thy ===== *)
theory Console_Buffer
  imports Console
begin

text \<open>
  The console input path: \<open>cons_intr\<close> terminates for every input device, the circular buffer
  is a first-in first-out queue as long as fewer than 512 characters are waiting, and no
  access is out of bounds.  The devices enter through the locale \<open>input_device\<close>, which is
  interpreted for the serial port and for the keyboard.
\<close>

section \<open>Ring buffers\<close>

definition ring :: "'a list \<Rightarrow> nat \<Rightarrow> nat \<Rightarrow> 'a list" where
  "ring xs r w = map (\<lambda>k. xs ! ((r + k) mod length xs)) [0..<(w + length xs - r) mod length xs]"

lemma ring_empty [simp]: "r < length xs \<Longrightarrow> ring xs r r = []"
  by (simp add: ring_def)

lemma ring_count:
  fixes r w n :: nat
  assumes "r < n" and "w < n"
  shows "(w + n - r) mod n = (if r \<le> w then w - r else w + n - r)"
proof (cases "r \<le> w")
  case True
  then have "w + n - r = w - r + n" by simp
  then have "(w + n - r) mod n = (w - r + n) mod n" by simp
  also have "\<dots> = w - r" using assms by simp
  finally show ?thesis using True by simp
qed (use assms in simp)

lemma length_ring: "r < length xs \<Longrightarrow> w < length xs \<Longrightarrow>
  length (ring xs r w) = (if r \<le> w then w - r else w + length xs - r)"
  by (simp add: ring_def ring_count)

lemma mod_wrap: "a < n + n \<Longrightarrow> a mod n = (if a < n then a else a - n)" for a n :: nat
  by (simp add: mod_if)

lemma ring_push:
  assumes "r < length xs" and "w < length xs" and "Suc (length (ring xs r w)) < length xs"
  shows "ring (xs[w := v]) r (Suc w mod length xs) = ring xs r w @ [v]"
proof -
  let ?n = "length xs" and ?m = "(w + length xs - r) mod length xs"
  have m: "?m = length (ring xs r w)" by (simp add: ring_def)
  have cnt: "(Suc w mod ?n + ?n - r) mod ?n = Suc ?m"
  proof (cases "Suc w = ?n")
    case True
    then show ?thesis using assms by (simp add: ring_count length_ring)
  next
    case False
    then have "Suc w < ?n" using assms(2) by simp
    then have "(Suc w + ?n - r) mod ?n = (if r \<le> Suc w then Suc w - r else Suc w + ?n - r)"
      using assms(1) by (intro ring_count) auto
    moreover have "?m = (if r \<le> w then w - r else w + ?n - r)" using assms by (intro ring_count) auto
    moreover have "r \<noteq> Suc w" using assms by (auto simp: length_ring)
    ultimately show ?thesis using \<open>Suc w < ?n\<close> assms(1) by auto
  qed
  have last: "(r + ?m) mod ?n = w"
    using assms(1,2) by (auto simp: ring_count)
  have other: "(r + k) mod ?n \<noteq> w" if "k < ?m" for k
    using that assms(1,2) mod_wrap [of "r + k" ?n] by (auto simp: ring_count split: if_splits)
  show ?thesis
    unfolding ring_def length_list_update cnt
    using last assms(2) by (simp add: nth_list_update) (metis other atLeastLessThan_iff)
qed

lemma ring_pop:
  assumes "r < length xs" and "w < length xs" and "r \<noteq> w"
  shows "ring xs r w = xs ! r # ring xs (Suc r mod length xs) w"
proof -
  let ?n = "length xs"
  have cnt: "(w + ?n - r) mod ?n = Suc ((w + ?n - Suc r mod ?n) mod ?n)"
  proof (cases "Suc r = ?n")
    case True
    then show ?thesis using assms by (auto simp: ring_count)
  next
    case False
    then have "Suc r < ?n" using assms(1) by simp
    then show ?thesis using assms by (auto simp: ring_count)
  qed
  have "(r + Suc k) mod ?n = (Suc r mod ?n + k) mod ?n" for k
    by (simp add: mod_add_left_eq)
  then show ?thesis
    unfolding ring_def cnt using assms(1)
    by (simp add: upt_conv_Cons map_Suc_upt [symmetric] comp_def del: upt_Suc map_Suc_upt)
qed

section \<open>The console buffer as a queue\<close>

definition buf_ok :: "console \<Rightarrow> bool" where
  "buf_ok c \<longleftrightarrow> length (cons_buf c) = 512 \<and> unat (rpos c) < 512 \<and> unat (wpos c) < 512"

definition waiting :: "console \<Rightarrow> u8 list" where
  "waiting c = ring (cons_buf c) (unat (rpos c)) (unat (wpos c))"

lemma advance_mod:
  assumes "unat w < 512"
  shows "unat (if w + 1 = CONSBUFSIZE then 0 else w + 1) = Suc (unat w) mod 512"
proof -
  have u: "unat (w + 1) = Suc (unat w)" using assms by (simp add: unat_word_ariths)
  show ?thesis
  proof (cases "unat w = 511")
    case True
    then have "w + 1 = CONSBUFSIZE" using u by (simp add: word_unat_eq_iff jos_consts)
    then show ?thesis using True by simp
  next
    case False
    then have "w + 1 \<noteq> CONSBUFSIZE" using u assms by (auto simp: word_unat_eq_iff jos_consts)
    then show ?thesis using u False assms by simp
  qed
qed

lemma cons_store_ok:
  assumes "buf_ok c"
  obtains d where "cons_store ch c = Some d" and "buf_ok d"
    and "d = c\<lparr>cons_buf := cons_buf d, wpos := wpos d\<rparr>"
    and "length (waiting c) < 511 \<longrightarrow> waiting d = waiting c @ [word_of_int ch]"
proof -
  let ?d = "c\<lparr>cons_buf := (cons_buf c)[unat (wpos c) := word_of_int ch],
       wpos := (if wpos c + 1 = CONSBUFSIZE then 0 else wpos c + 1)\<rparr>"
  have b: "length (cons_buf c) = 512" "unat (rpos c) < 512" "unat (wpos c) < 512"
    using assms by (simp_all add: buf_ok_def)
  note adv = advance_mod [OF b(3)]
  show thesis
  proof (rule that [of ?d])
    show "cons_store ch c = Some ?d" using b by (simp add: cons_store_def Let_def)
    show "buf_ok ?d" using b adv by (simp add: buf_ok_def)
    show "?d = c\<lparr>cons_buf := cons_buf ?d, wpos := wpos ?d\<rparr>" by simp
    show "length (waiting c) < 511 \<longrightarrow> waiting ?d = waiting c @ [word_of_int ch]"
      using b adv ring_push [of "unat (rpos c)" "cons_buf c" "unat (wpos c)" "word_of_int ch"]
      by (simp add: waiting_def)
  qed
qed

section \<open>Input devices\<close>

text \<open>The characters a device delivers until it has nothing more to say.\<close>

fun delivered :: "nat \<Rightarrow> (console \<Rightarrow> int \<times> console) \<Rightarrow> console \<Rightarrow> u8 list" where
  "delivered 0 proc c = []"
| "delivered (Suc n) proc c =
     (let (ch, d) = proc c in
      if ch = -1 then []
      else if ch = 0 then delivered n proc d
      else word_of_int ch # delivered n proc d)"

locale input_device =
  fixes proc :: "console \<Rightarrow> int \<times> console"
    and pending :: "console \<Rightarrow> nat"
  assumes progress: "proc c = (ch, d) \<Longrightarrow> ch \<noteq> -1 \<Longrightarrow> pending d < pending c"
    and proc_buffer: "proc (c\<lparr>cons_buf := b, wpos := w\<rparr>) =
      map_prod id (\<lambda>d. d\<lparr>cons_buf := b, wpos := w\<rparr>) (proc c)"
    and pending_buffer: "pending (c\<lparr>cons_buf := b, wpos := w\<rparr>) = pending c"
    and proc_keeps: "proc c = (ch, d) \<Longrightarrow>
      cons_buf d = cons_buf c \<and> wpos d = wpos c \<and> rpos d = rpos c"
begin

lemma delivered_buffer:
  "delivered n proc (c\<lparr>cons_buf := b, wpos := w\<rparr>) = delivered n proc c"
proof (induction n arbitrary: c)
  case (Suc n)
  then show ?case by (cases "proc c") (simp add: proc_buffer)
qed simp

lemma proc_state:
  assumes "proc c = (ch, d)"
  shows "buf_ok d = buf_ok c" and "waiting d = waiting c"
  using proc_keeps [OF assms] by (simp_all add: buf_ok_def waiting_def)

text \<open>
  With one iteration more than the device has pending bytes the loop ends, and as long as the
  buffer has room it appends what the device delivers.
\<close>

lemma cons_intr_total:
  assumes "pending c < n" and "buf_ok c"
  shows "\<exists>d. cons_intr n proc c = Some d \<and> buf_ok d \<and> rpos d = rpos c \<and>
     (length (waiting c) + length (delivered n proc c) < 512 \<longrightarrow>
        waiting d = waiting c @ delivered n proc c)"
  using assms
proof (induction n arbitrary: c)
  case (Suc n)
  obtain ch d where pr: "proc c = (ch, d)" by fastforce
  note st = proc_state [OF pr] and keep = proc_keeps [OF pr]
  consider "ch = -1" | "ch = 0" | "ch \<noteq> -1" "ch \<noteq> 0" by blast
  then show ?case
  proof cases
    case 1
    then show ?thesis using pr st keep Suc.prems by simp
  next
    case 2
    then have "pending d < n" using progress [OF pr] Suc.prems by simp
    then obtain e where "cons_intr n proc d = Some e" "buf_ok e" "rpos e = rpos d"
      "length (waiting d) + length (delivered n proc d) < 512 \<longrightarrow>
         waiting e = waiting d @ delivered n proc d"
      using Suc.IH [of d] st Suc.prems by auto
    then show ?thesis using 2 pr st keep by simp
  next
    case 3
    then have less: "pending d < n" using progress [OF pr] Suc.prems by simp
    have "buf_ok d" using st Suc.prems by simp
    then obtain e where e: "cons_store ch d = Some e" "buf_ok e"
      "e = d\<lparr>cons_buf := cons_buf e, wpos := wpos e\<rparr>"
      "length (waiting d) < 511 \<longrightarrow> waiting e = waiting d @ [word_of_int ch]"
      by (rule cons_store_ok [of d ch]) blast
    have de: "delivered n proc e = delivered n proc d" "pending e = pending d"
      by (subst e(3), rule delivered_buffer) (subst e(3), rule pending_buffer)
    obtain f where "cons_intr n proc e = Some f" "buf_ok f" "rpos f = rpos e"
      "length (waiting e) + length (delivered n proc e) < 512 \<longrightarrow>
         waiting f = waiting e @ delivered n proc e"
      using Suc.IH [of e] less e(2) de by auto
    moreover have "rpos e = rpos d" by (subst e(3)) simp
    ultimately show ?thesis using 3 pr e(1,4) de st keep by (auto simp: Let_def)
  qed
qed simp

end

interpretation serial: input_device serial_proc_data "\<lambda>c. length (ser_in c)"
  by unfold_locales (auto simp: serial_proc_data_def split: list.splits)

lemma kbd_proc_data_cases:
  assumes "kbd_proc_data c = (ch, d)"
  shows "cons_buf d = cons_buf c" and "wpos d = wpos c" and "rpos d = rpos c"
    and "ch \<noteq> -1 \<Longrightarrow> length (kbd_in d) < length (kbd_in c)"
proof -
  have "cons_buf d = cons_buf c \<and> wpos d = wpos c \<and> rpos d = rpos c \<and>
      (ch \<noteq> -1 \<longrightarrow> length (kbd_in d) < length (kbd_in c))"
    using assms by (auto simp: kbd_proc_data_def Let_def outb_def
        split: list.splits kbd_byte.splits if_splits)
  then show "cons_buf d = cons_buf c" "wpos d = wpos c" "rpos d = rpos c"
    "ch \<noteq> -1 \<Longrightarrow> length (kbd_in d) < length (kbd_in c)" by auto
qed

lemma kbd_proc_data_upd:
  "kbd_proc_data (c\<lparr>cons_buf := b, wpos := w\<rparr>) =
     map_prod id (\<lambda>d. d\<lparr>cons_buf := b, wpos := w\<rparr>) (kbd_proc_data c)"
  "kbd_proc_data (c\<lparr>ser_in := bs\<rparr>) = map_prod id (\<lambda>d. d\<lparr>ser_in := bs\<rparr>) (kbd_proc_data c)"
  by (auto simp: kbd_proc_data_def Let_def outb_def split: list.split kbd_byte.split)

interpretation kbd: input_device kbd_proc_data "\<lambda>c. length (kbd_in c)"
  by unfold_locales (auto dest: kbd_proc_data_cases simp: kbd_proc_data_upd)

lemma delivered_kbd_ser_in:
  "delivered n kbd_proc_data (c\<lparr>ser_in := bs\<rparr>) = delivered n kbd_proc_data c"
proof (induction n arbitrary: c)
  case (Suc n)
  then show ?case by (cases "kbd_proc_data c") (simp add: kbd_proc_data_upd)
qed simp

lemma serial_proc_data_simps:
  "ser_in c = [] \<Longrightarrow> serial_proc_data c = (-1, c)"
  "ser_in c = b # bs \<Longrightarrow> serial_proc_data c = (uint b, c\<lparr>ser_in := bs\<rparr>)"
  by (simp_all add: serial_proc_data_def)

lemma uint_not_minus1 [simp]: "uint (b::u8) \<noteq> -1"
  using uint_ge_0 [of b] by linarith

lemma delivered_serial:
  "length (ser_in c) < n \<Longrightarrow> delivered n serial_proc_data c = filter (\<lambda>b. b \<noteq> 0) (ser_in c)"
proof (induction n arbitrary: c)
  case (Suc n)
  then show ?case
    by (cases "ser_in c") (auto simp: serial_proc_data_simps uint_0_iff)
qed simp

text \<open>After the serial port is drained only its queue and the buffer have changed.\<close>

lemma cons_intr_serial_frame:
  "cons_intr n serial_proc_data c = Some d \<Longrightarrow>
   \<exists>bs b w. d = c\<lparr>ser_in := bs, cons_buf := b, wpos := w\<rparr>"
proof (induction n arbitrary: c)
  case (Suc n)
  show ?case
  proof (cases "ser_in c")
    case Nil
    then show ?thesis
      using Suc.prems
      by (intro exI [of _ "ser_in d"] exI [of _ "cons_buf d"] exI [of _ "wpos d"])
        (simp add: serial_proc_data_simps)
  next
    case (Cons b bs)
    let ?c = "c\<lparr>ser_in := bs\<rparr>"
    show ?thesis
    proof (cases "b = 0")
      case True
      then have "cons_intr n serial_proc_data ?c = Some d"
        using Suc.prems Cons by (simp add: serial_proc_data_simps)
      from Suc.IH [OF this] show ?thesis by auto
    next
      case False
      then obtain e where e: "cons_store (uint b) ?c = Some e" "cons_intr n serial_proc_data e = Some d"
        using Suc.prems Cons by (auto simp: serial_proc_data_simps uint_0_iff split: Option.bind_splits)
      then obtain b' w' where "e = ?c\<lparr>cons_buf := b', wpos := w'\<rparr>"
        by (auto simp: cons_store_def Let_def split: if_splits)
      with Suc.IH [OF e(2)] show ?thesis by auto
    qed
  qed
qed simp

text \<open>What \<open>cons_getc\<close> can return now: the buffer, then the serial port, then the keyboard.\<close>

definition all_input :: "console \<Rightarrow> u8 list" where
  "all_input c = waiting c @ (if serial_exists c then filter (\<lambda>b. b \<noteq> 0) (ser_in c) else []) @
     delivered (Suc (length (kbd_in c))) kbd_proc_data c"

lemma polled:
  assumes "buf_ok c"
  obtains d where "Option.bind (serial_intr c) kbd_intr = Some d" and "buf_ok d"
    and "rpos d = rpos c" and "length (all_input c) < 512 \<longrightarrow> waiting d = all_input c"
proof -
  let ?ser = "if serial_exists c then filter (\<lambda>b. b \<noteq> 0) (ser_in c) else []"
  obtain d1 where d1: "serial_intr c = Some d1" "buf_ok d1" "rpos d1 = rpos c"
    "length (waiting c) + length ?ser < 512 \<longrightarrow> waiting d1 = waiting c @ ?ser"
    "\<exists>bs b w. d1 = c\<lparr>ser_in := bs, cons_buf := b, wpos := w\<rparr>"
  proof (cases "serial_exists c")
    case True
    obtain d where d: "cons_intr (Suc (length (ser_in c))) serial_proc_data c = Some d" "buf_ok d"
      "rpos d = rpos c" "length (waiting c) + length (delivered (Suc (length (ser_in c))) serial_proc_data c) < 512
        \<longrightarrow> waiting d = waiting c @ delivered (Suc (length (ser_in c))) serial_proc_data c"
      using serial.cons_intr_total [OF lessI assms] by blast
    show thesis
      by (rule that [of d]) (use True d cons_intr_serial_frame [OF d(1)] in
          \<open>simp_all add: serial_intr_def delivered_serial del: cons_intr.simps delivered.simps\<close>)
  next
    case False
    have "c = c\<lparr>ser_in := ser_in c, cons_buf := cons_buf c, wpos := wpos c\<rparr>" by simp
    then have "\<exists>bs b w. c = c\<lparr>ser_in := bs, cons_buf := b, wpos := w\<rparr>" by blast
    then show thesis using that [of c] False assms by (simp add: serial_intr_def)
  qed
  then obtain bs b w where fr: "d1 = c\<lparr>ser_in := bs, cons_buf := b, wpos := w\<rparr>" by blast
  have k: "kbd_in d1 = kbd_in c" by (simp add: fr)
  have dl: "delivered n kbd_proc_data d1 = delivered n kbd_proc_data c" for n
    using kbd.delivered_buffer [where c = "c\<lparr>ser_in := bs\<rparr>" and b = b and w = w and n = n] by (simp add: fr delivered_kbd_ser_in)
  obtain d where d: "cons_intr (Suc (length (kbd_in d1))) kbd_proc_data d1 = Some d" "buf_ok d"
    "rpos d = rpos d1" "length (waiting d1) + length (delivered (Suc (length (kbd_in d1))) kbd_proc_data d1) < 512
      \<longrightarrow> waiting d = waiting d1 @ delivered (Suc (length (kbd_in d1))) kbd_proc_data d1"
    using kbd.cons_intr_total [OF lessI d1(2)] by blast
  show thesis
    by (rule that [of d])
      (use d d1 in \<open>auto simp: kbd_intr_def all_input_def k dl simp del: cons_intr.simps delivered.simps\<close>)
qed

lemma cons_getc_ok:
  assumes "buf_ok c"
  obtains ch d where "cons_getc c = Some (ch, d)" and "buf_ok d"
    and "length (all_input c) < 512 \<longrightarrow>
      ch = (case all_input c of [] \<Rightarrow> 0 | x # xs \<Rightarrow> x) \<and> waiting d = tl (all_input c)"
proof -
  obtain d where d: "Option.bind (serial_intr c) kbd_intr = Some d" "buf_ok d" "rpos d = rpos c"
    "length (all_input c) < 512 \<longrightarrow> waiting d = all_input c"
    by (rule polled [OF assms]) blast
  have get: "cons_getc c = Option.bind (Option.bind (serial_intr c) kbd_intr) (\<lambda>c.
       if rpos c \<noteq> wpos c then
         if unat (rpos c) < length (cons_buf c) then
           let ch = cons_buf c ! unat (rpos c); r = rpos c + 1
           in Some (ch, c\<lparr>rpos := (if r = CONSBUFSIZE then 0 else r)\<rparr>)
         else None
       else Some (0, c))"
    unfolding cons_getc_def by (cases "serial_intr c") simp_all
  have b: "length (cons_buf d) = 512" "unat (rpos d) < 512" "unat (wpos d) < 512"
    using d(2) by (simp_all add: buf_ok_def)
  show thesis
  proof (cases "rpos d = wpos d")
    case True
    then have "waiting d = []" using b by (simp add: waiting_def)
    then show thesis using that [of 0 d] True d get by auto
  next
    case False
    let ?e = "d\<lparr>rpos := (if rpos d + 1 = CONSBUFSIZE then 0 else rpos d + 1)\<rparr>"
    note adv = advance_mod [OF b(2)]
    have "unat (rpos d) \<noteq> unat (wpos d)" using False by (simp add: word_unat_eq_iff)
    then have "waiting d = cons_buf d ! unat (rpos d) # waiting ?e"
      using ring_pop [of "unat (rpos d)" "cons_buf d" "unat (wpos d)"] b adv
      by (simp add: waiting_def)
    moreover have "buf_ok ?e" using b adv by (simp add: buf_ok_def)
    moreover have "cons_getc c = Some (cons_buf d ! unat (rpos d), ?e)"
      using get d(1) False b by (simp add: Let_def)
    ultimately show thesis
      using d(4) by (intro that [of "cons_buf d ! unat (rpos d)" ?e]) (auto split: list.split)
  qed
qed

section \<open>Screen bounds\<close>

definition crt_ok :: "console \<Rightarrow> bool" where
  "crt_ok c \<longleftrightarrow> length (crt_buf c) = 2000 \<and> unat (crt_pos c) < 2000"

lemma crt_ok_outb [simp]: "crt_ok (outb p v c) = crt_ok c"
  by (simp add: crt_ok_def outb_def)

lemma cga_finish_ok:
  assumes "length (crt_buf c) = 2000" and "unat (crt_pos c) \<le> 2000"
  shows "crt_ok (cga_finish c)"
proof (cases "CRT_SIZE \<le> crt_pos c")
  case True
  then have "unat (crt_pos c) = 2000" using assms(2) by (simp add: word_le_nat_alt jos_consts)
  then have "unat (crt_pos c - CRT_COLS) = 1920"
    by (simp add: unat_sub word_le_nat_alt jos_consts)
  then show ?thesis
    using assms True by (simp add: cga_finish_def Let_def crt_ok_def jos_consts outb_def)
next
  case False
  then have "unat (crt_pos c) < 2000" by (simp add: word_le_nat_alt jos_consts)
  with False show ?thesis
    using assms(1) by (simp add: cga_finish_def Let_def crt_ok_def outb_def)
qed

lemma cga_char_ok:
  assumes "crt_ok c"
  obtains d where "cga_char ch c = Some d" and "length (crt_buf d) = 2000" and "unat (crt_pos d) \<le> 2000"
proof -
  have b: "length (crt_buf c) = 2000" "unat (crt_pos c) < 2000" using assms by (simp_all add: crt_ok_def)
  have bk: "unat (crt_pos c - 1) < 2000" if "crt_pos c > 0"
  proof -
    have "crt_pos c \<noteq> 0" using that by auto
    then show ?thesis using b(2) by (simp add: unat_minus_one)
  qed
  have nl: "unat (crt_pos c + CRT_COLS - (crt_pos c + CRT_COLS) mod CRT_COLS) \<le> 2000"
  proof -
    have "unat (crt_pos c + CRT_COLS) = unat (crt_pos c) + 80"
      using b(2) by (simp add: unat_word_ariths jos_consts)
    moreover have "(crt_pos c + CRT_COLS) mod CRT_COLS \<le> crt_pos c + CRT_COLS"
      by (simp add: word_le_nat_alt unat_mod_distrib)
    ultimately have "unat (crt_pos c + CRT_COLS - (crt_pos c + CRT_COLS) mod CRT_COLS) =
        unat (crt_pos c) + 80 - (unat (crt_pos c) + 80) mod 80"
      by (simp add: unat_sub unat_mod_distrib) (simp add: jos_consts)
    also have "\<dots> = (unat (crt_pos c) + 80) div 80 * 80" by (rule minus_mod_eq_div_mult)
    finally show ?thesis using b(2) by simp
  qed
  have cr: "unat (crt_pos c - crt_pos c mod CRT_COLS) \<le> 2000"
  proof -
    have "crt_pos c mod CRT_COLS \<le> crt_pos c" by (simp add: word_le_nat_alt unat_mod_distrib)
    then show ?thesis using b(2) by (simp add: unat_sub)
  qed
  have inc: "unat (crt_pos c + 1) \<le> 2000" using b(2) by (simp add: unat_word_ariths)
  have "\<exists>d. cga_char ch c = Some d \<and> length (crt_buf d) = 2000 \<and> unat (crt_pos d) \<le> 2000"
    unfolding cga_char_def Let_def crt_write_def using b bk nl cr inc by auto
  then show thesis using that by blast
qed

lemma cons_put_blank_ok:
  assumes "crt_ok c"
  obtains d where "cons_put_blank c = Some d" and "crt_ok d"
proof -
  have "crt_ok (lpt_putc 0x20 (serial_putc 0x20 c))"
    using assms by (simp add: lpt_putc_def serial_putc_def)
  from cga_char_ok [OF this, of "0x20"] show thesis
    using that cga_finish_ok by (auto simp: cons_put_blank_def)
qed

lemma cons_putc_ok:
  assumes "crt_ok c"
  obtains d where "cons_putc ch c = Some d" and "crt_ok d"
proof -
  let ?c = "lpt_putc ch (serial_putc ch c)"
  have c: "crt_ok ?c" using assms by (simp add: lpt_putc_def serial_putc_def)
  show thesis
  proof (cases "ch AND 0xFF = 9")
    case True
    obtain d1 where 1: "cons_put_blank ?c = Some d1" "crt_ok d1" by (rule cons_put_blank_ok [OF c])
    obtain d2 where 2: "cons_put_blank d1 = Some d2" "crt_ok d2" by (rule cons_put_blank_ok [OF 1(2)])
    obtain d3 where 3: "cons_put_blank d2 = Some d3" "crt_ok d3" by (rule cons_put_blank_ok [OF 2(2)])
    obtain d4 where 4: "cons_put_blank d3 = Some d4" "crt_ok d4" by (rule cons_put_blank_ok [OF 3(2)])
    obtain d5 where 5: "cons_put_blank d4 = Some d5" "crt_ok d5" by (rule cons_put_blank_ok [OF 4(2)])
    have "crt_ok (cga_finish d5)" using 5(2) by (intro cga_finish_ok) (simp_all add: crt_ok_def)
    moreover have "cons_putc ch c = Some (cga_finish d5)"
      using True 1(1) 2(1) 3(1) 4(1) 5(1) by (simp add: cons_putc_def cga_putc_def)
    ultimately show thesis by (rule that [rotated])
  next
    case False
    from cga_char_ok [OF c, of ch] show thesis
      using that False cga_finish_ok by (auto simp: cons_putc_def cga_putc_def)
  qed
qed

section \<open>Properties\<close>

text \<open>
  C23: \<open>cons_getc\<close> polls the devices and returns the characters in the order in which they
  arrived (the circular buffer first, then the serial port, then the keyboard), \<open>0\<close> if there
  is none, as long as fewer than 512 characters are waiting; in every case it stays inside the
  buffer and its polling loops end.
\<close>

theorem cons_getc_fifo:
  assumes "buf_ok c"
  shows "\<exists>ch d. cons_getc c = Some (ch, d) \<and> buf_ok d \<and>
     (length (all_input c) < 512 \<longrightarrow>
        ch = (case all_input c of [] \<Rightarrow> 0 | x # xs \<Rightarrow> x) \<and> waiting d = tl (all_input c))"
proof -
  obtain ch d where "cons_getc c = Some (ch, d)" "buf_ok d"
    "length (all_input c) < 512 \<longrightarrow>
      ch = (case all_input c of [] \<Rightarrow> 0 | x # xs \<Rightarrow> x) \<and> waiting d = tl (all_input c)"
    by (rule cons_getc_ok [OF assms]) blast
  then show ?thesis by blast
qed

definition cons_demo :: console where
  "cons_demo = \<lparr>ser_in = [0x68, 0, 0x69], kbd_in = [KeyByte 0x2A, KeyByte 0x1E], port_log = [],
     cprintf_log = [], serial_exists = True, addr_6845 = 0x3D4, crt_buf = replicate 2000 0, crt_pos = 0,
     shift = 0, cons_buf = replicate 512 0, rpos = 0, wpos = 0\<rparr>"

theorem cons_getc_fifo_witness:
  "buf_ok cons_demo \<and> all_input cons_demo = [0x68, 0x69, 0x41] \<and>
   (\<exists>d. cons_getc cons_demo = Some (0x68, d) \<and> waiting d = [0x69, 0x41])"
proof -
  have ok: "buf_ok cons_demo" by (simp add: buf_ok_def cons_demo_def)
  have all: "all_input cons_demo = [0x68, 0x69, 0x41]"
    by (simp add: all_input_def waiting_def cons_demo_def kbd_proc_data_def flag_def shiftcode_def
        togglecode_def charcode_def shiftmap_def keymap_def jos_consts Let_def)
  show ?thesis using cons_getc_fifo [OF ok] ok all by auto
qed

text \<open>
  printing any character, including tabs, backspaces and the scrolling at the end of the
  screen, writes inside the 2000-cell text buffer and leaves the cursor inside the screen.
\<close>

theorem cputchar_in_bounds:
  assumes "crt_ok c"
  shows "\<exists>d. cputchar ch c = Some d \<and> crt_ok d"
  unfolding cputchar_def using cons_putc_ok [OF assms, of ch] by metis

theorem cputchar_in_bounds_witness: "\<exists>d. cputchar 10 (cons_demo\<lparr>crt_pos := 1999\<rparr>) = Some d \<and> crt_ok d"
  by (rule cputchar_in_bounds) (simp add: crt_ok_def cons_demo_def)

end
