(* ===== verification/Spinlock.thy ===== *)
theory Spinlock
  imports Kstate
begin

text \<open>
  The big kernel lock (\<^verbatim>\<open>kern/spinlock.c\<close>, \<^verbatim>\<open>kern/spinlock.h\<close>).  First the operations as the
  other kernel code calls them, on the kernel state of one processor; then their atomic
  instructions as a step relation for any number of processors, with mutual exclusion as an
  invariant of all interleavings.
\<close>

section \<open>Operations\<close>

text \<open>\<open>get_caller_pcs\<close> follows the chain of saved frame pointers for at most ten frames.\<close>

fun pcs_loop :: "nat \<Rightarrow> (u32 \<Rightarrow> u32) \<Rightarrow> u32 \<Rightarrow> u32 list" where
  "pcs_loop 0 ld bp = []"
| "pcs_loop (Suc n) ld bp =
     (if bp = 0 \<or> bp < ULIM then replicate (Suc n) 0 else ld (bp + 4) # pcs_loop n ld (ld bp))"

definition get_caller_pcs :: "(u32 \<Rightarrow> u32) \<Rightarrow> u32 \<Rightarrow> u32 list" where
  "get_caller_pcs ld bp = pcs_loop 10 ld bp"

definition holding :: "spinlock \<Rightarrow> nat \<Rightarrow> bool" where
  "holding lk cpu \<longleftrightarrow> locked lk \<and> lk_cpu lk = Some cpu"

definition spin_initlock :: "string \<Rightarrow> spinlock \<Rightarrow> spinlock" where
  "spin_initlock name lk = lk\<lparr>locked := False, lk_name := name, lk_cpu := None\<rparr>"

text \<open>
  \<open>spin_lock(&kernel_lock)\<close>: a second acquisition by the holder panics, a lock held by
  another processor makes this one spin (on this processor nothing else happens).
\<close>

definition lock_kernel :: "kstate \<Rightarrow> (unit, kstate) outcome" where
  "lock_kernel s =
     (let lk = kernel_lock s in
      if holding lk (cpunum s) then Panic ''CPU cannot acquire kernel_lock: already holding'' s
      else if locked lk then Leave Spinning s
      else Ret () (s\<lparr>kernel_lock := lk\<lparr>locked := True, lk_cpu := Some (cpunum s),
             lk_pcs := get_caller_pcs (kstack s) (ebp s)\<rparr>\<rparr>))"

definition unlock_kernel :: "kstate \<Rightarrow> (unit, kstate) outcome" where
  "unlock_kernel s =
     (let lk = kernel_lock s in
      if \<not> holding lk (cpunum s) then Panic ''spin_unlock'' s
      else Ret () (s\<lparr>kernel_lock := lk\<lparr>locked := False, lk_cpu := None,
             lk_pcs := (lk_pcs lk)[0 := 0]\<rparr>\<rparr>))"

lemma length_get_caller_pcs [simp]: "length (get_caller_pcs ld bp) = 10"
proof -
  have "length (pcs_loop n ld bp) = n" for n by (induction n arbitrary: bp) auto
  then show ?thesis by (simp add: get_caller_pcs_def)
qed

lemma unlock_after_lock:
  assumes "lock_kernel s = Ret () t"
  shows "\<exists>u. unlock_kernel t = Ret () u \<and> \<not> locked (kernel_lock u) \<and>
    u = s\<lparr>kernel_lock := kernel_lock u\<rparr>"
  using assms by (auto simp: lock_kernel_def unlock_kernel_def holding_def Let_def split: if_splits)

section \<open>Interleavings\<close>

text \<open>
  The control points of a processor: outside the lock's code (not holding it), after the
  \<open>holding\<close> test of \<open>spin_lock\<close>, after the successful \<open>xchg\<close>, holding the lock, after the
  \<open>holding\<close> test of \<open>spin_unlock\<close>, after clearing \<open>lk->cpu\<close>, and panicked.
\<close>

datatype lock_pc = Outside | Wants | Acquired | Inside | Leaving | Releasing | Panicked

record smp =
  smp_locked :: bool
  smp_cpu :: "nat option"
  smp_pc :: "nat \<Rightarrow> lock_pc"

definition smp_init :: smp where
  "smp_init = \<lparr>smp_locked = False, smp_cpu = None, smp_pc = (\<lambda>_. Outside)\<rparr>"

definition smp_holding :: "smp \<Rightarrow> nat \<Rightarrow> bool" where
  "smp_holding m i \<longleftrightarrow> smp_locked m \<and> smp_cpu m = Some i"

text \<open>
  A processor may call \<open>spin_lock\<close> and \<open>spin_unlock\<close> whenever it is outside or inside, also
  when it should not: the \<open>holding\<close> tests decide what happens.
\<close>

inductive lock_step :: "smp \<Rightarrow> smp \<Rightarrow> bool" where
  call_lock: "smp_pc m i \<in> {Outside, Inside} \<Longrightarrow>
    lock_step m (m\<lparr>smp_pc := (smp_pc m)(i := if smp_holding m i then Panicked else Wants)\<rparr>)"
| xchg_busy: "smp_pc m i = Wants \<Longrightarrow> smp_locked m \<Longrightarrow> lock_step m m"
| xchg_free: "smp_pc m i = Wants \<Longrightarrow> \<not> smp_locked m \<Longrightarrow>
    lock_step m (m\<lparr>smp_locked := True, smp_pc := (smp_pc m)(i := Acquired)\<rparr>)"
| record_cpu: "smp_pc m i = Acquired \<Longrightarrow>
    lock_step m (m\<lparr>smp_cpu := Some i, smp_pc := (smp_pc m)(i := Inside)\<rparr>)"
| call_unlock: "smp_pc m i \<in> {Outside, Inside} \<Longrightarrow>
    lock_step m (m\<lparr>smp_pc := (smp_pc m)(i := if smp_holding m i then Leaving else Panicked)\<rparr>)"
| clear_cpu: "smp_pc m i = Leaving \<Longrightarrow>
    lock_step m (m\<lparr>smp_cpu := None, smp_pc := (smp_pc m)(i := Releasing)\<rparr>)"
| xchg_release: "smp_pc m i = Releasing \<Longrightarrow>
    lock_step m (m\<lparr>smp_locked := False, smp_pc := (smp_pc m)(i := Outside)\<rparr>)"

inductive_cases lock_stepE: "lock_step m n"

definition owner_pc :: "lock_pc \<Rightarrow> bool" where
  "owner_pc p \<longleftrightarrow> p \<in> {Acquired, Inside, Leaving, Releasing}"

text \<open>
  There is an owner \<open>w\<close> (or none), the lock word says whether, and the control point of every
  processor agrees with \<open>w\<close> and with the recorded \<open>lk->cpu\<close>.
\<close>

fun pc_ok :: "nat option \<Rightarrow> nat option \<Rightarrow> nat \<Rightarrow> lock_pc \<Rightarrow> bool" where
  "pc_ok w cpu i Outside \<longleftrightarrow> w \<noteq> Some i"
| "pc_ok w cpu i Wants \<longleftrightarrow> w \<noteq> Some i"
| "pc_ok w cpu i Acquired \<longleftrightarrow> w = Some i \<and> cpu = None"
| "pc_ok w cpu i Inside \<longleftrightarrow> w = Some i \<and> cpu = Some i"
| "pc_ok w cpu i Leaving \<longleftrightarrow> w = Some i \<and> cpu = Some i"
| "pc_ok w cpu i Releasing \<longleftrightarrow> w = Some i \<and> cpu = None"
| "pc_ok w cpu i Panicked \<longleftrightarrow> True"

definition lock_inv :: "nat option \<Rightarrow> smp \<Rightarrow> bool" where
  "lock_inv w m \<longleftrightarrow> (smp_locked m \<longleftrightarrow> w \<noteq> None) \<and> (smp_cpu m = None \<or> smp_cpu m = w) \<and>
     (\<forall>i. pc_ok w (smp_cpu m) i (smp_pc m i))"

lemma lock_inv_init: "lock_inv None smp_init"
  by (simp add: lock_inv_def smp_init_def)

lemma pc_ok_other:
  assumes "pc_ok w c i p" and "w = Some j" and "i \<noteq> j" and "w' = None \<or> w' = Some j"
  shows "pc_ok w' c' i p"
  using assms by (cases p) auto

lemma lock_inv_pc: "lock_inv w m \<Longrightarrow> pc_ok w (smp_cpu m) i (smp_pc m i)"
  by (simp add: lock_inv_def)

lemma lock_inv_step:
  assumes "lock_step m n" and "lock_inv w m"
  shows "\<exists>w'. lock_inv w' n"
  using assms(1)
proof cases
  case (call_lock i)
  have "pc_ok w (smp_cpu m) i (smp_pc m i)" using assms(2) by (simp add: lock_inv_def)
  then have "lock_inv w n" using call_lock assms(2)
    by (auto simp: lock_inv_def smp_holding_def dest: spec [of _ i])
  then show ?thesis ..
next
  case (call_unlock i)
  have "pc_ok w (smp_cpu m) i (smp_pc m i)" using assms(2) by (simp add: lock_inv_def)
  then have "lock_inv w n" using call_unlock assms(2)
    by (auto simp: lock_inv_def smp_holding_def)
  then show ?thesis ..
next
  case (xchg_busy i)
  then show ?thesis using assms(2) by blast
next
  case (xchg_free i)
  then have w: "w = None" "smp_cpu m = None" using assms(2) by (auto simp: lock_inv_def)
  have "pc_ok (Some i) None j (smp_pc m j)" if "j \<noteq> i" for j
  proof -
    have "pc_ok None None j (smp_pc m j)" using assms(2) w by (simp add: lock_inv_def)
    then show ?thesis using that by (cases "smp_pc m j") auto
  qed
  then have "lock_inv (Some i) n" using xchg_free w by (simp add: lock_inv_def)
  then show ?thesis ..
next
  case (record_cpu i)
  then have w: "w = Some i" using assms(2) by (auto simp: lock_inv_def dest: spec [of _ i])
  then have "lock_inv (Some i) n"
    using record_cpu assms(2) pc_ok_other [OF lock_inv_pc [OF assms(2)], of i] by (auto simp: lock_inv_def)
  then show ?thesis ..
next
  case (clear_cpu i)
  then have w: "w = Some i" using assms(2) by (auto simp: lock_inv_def dest: spec [of _ i])
  then have "lock_inv (Some i) n"
    using clear_cpu assms(2) pc_ok_other [OF lock_inv_pc [OF assms(2)], of i] by (auto simp: lock_inv_def)
  then show ?thesis ..
next
  case (xchg_release i)
  then have w: "w = Some i" "smp_cpu m = None"
    using assms(2) by (auto simp: lock_inv_def dest: spec [of _ i])
  then have "lock_inv None n"
    using xchg_release assms(2) pc_ok_other [OF lock_inv_pc [OF assms(2)], of i] by (auto simp: lock_inv_def)
  then show ?thesis ..
qed

lemma lock_inv_reachable: "lock_step\<^sup>*\<^sup>* smp_init m \<Longrightarrow> \<exists>w. lock_inv w m"
proof (induction rule: rtranclp_induct)
  case base
  then show ?case using lock_inv_init by blast
next
  case (step m n)
  then show ?case using lock_inv_step by blast
qed

lemma lock_inv_owner:
  "lock_inv w m \<Longrightarrow> owner_pc (smp_pc m i) \<Longrightarrow> w = Some i"
  using lock_inv_pc [of w m i] by (auto simp: owner_pc_def)

text \<open>
  C16: in every state that any interleaving of the processors' atomic steps can reach, at most
  one processor is inside the kernel lock, the lock word is set then and \<open>lk->cpu\<close> names that
  processor; this holds even if processors call \<open>spin_lock\<close> twice or \<open>spin_unlock\<close> without
  holding the lock.
\<close>

theorem kernel_lock_mutual_exclusion:
  assumes "lock_step\<^sup>*\<^sup>* smp_init m" and "smp_pc m i = Inside" and "smp_pc m j = Inside"
  shows "i = j \<and> smp_locked m \<and> smp_cpu m = Some i"
proof -
  obtain w where inv: "lock_inv w m" using lock_inv_reachable [OF assms(1)] ..
  have "w = Some i" "smp_cpu m = Some i" "w = Some j"
    using lock_inv_pc [OF inv, of i] lock_inv_pc [OF inv, of j] assms(2,3) by simp_all
  then show ?thesis using inv by (simp add: lock_inv_def)
qed

theorem kernel_lock_mutual_exclusion_witness:
  "\<exists>m. lock_step\<^sup>*\<^sup>* smp_init m \<and> smp_pc m 0 = Inside \<and> smp_locked m \<and> smp_cpu m = Some 0"
proof -
  define m1 where "m1 = smp_init\<lparr>smp_pc := (smp_pc smp_init)(0 := Wants)\<rparr>"
  define m2 where "m2 = m1\<lparr>smp_locked := True, smp_pc := (smp_pc m1)(0 := Acquired)\<rparr>"
  define m3 where "m3 = m2\<lparr>smp_cpu := Some 0, smp_pc := (smp_pc m2)(0 := Inside)\<rparr>"
  have "lock_step smp_init m1"
    using call_lock [of smp_init 0] by (simp add: smp_init_def smp_holding_def m1_def)
  moreover have "lock_step m1 m2" unfolding m2_def by (rule xchg_free) (simp_all add: m1_def smp_init_def)
  moreover have "lock_step m2 m3" unfolding m3_def by (rule record_cpu) (simp add: m2_def)
  ultimately have r: "lock_step\<^sup>*\<^sup>* smp_init m3" by (meson r_into_rtranclp rtranclp_trans)
  have i: "smp_pc m3 0 = Inside" by (simp add: m3_def)
  show ?thesis using kernel_lock_mutual_exclusion [OF r i i] r i by blast
qed



end
