(* ===== verification/User_Access.thy ===== *)
theory User_Access
  imports Page_Table Spinlock
begin

text \<open>
  Kernel accesses to memory by byte and through the page tables.  \<open>vwrite8\<close> is a store of the
  kernel to a virtual address: the processor walks the tables at \<open>cr3\<close>; with \<open>CR0_WP\<close> set (as
  the kernel sets it) the write needs \<open>PTE_W\<close> at both levels, and a fault in kernel mode ends in
  the panic of \<open>page_fault_handler\<close>.
\<close>

section \<open>Bytes of physical memory\<close>

definition pget8 :: "kstate \<Rightarrow> u32 \<Rightarrow> u8" where
  "pget8 s pa = ucast (drop_bit (8 * unat (pa AND 3)) (phys s (pa AND NOT 3)))"

definition pput8 :: "u32 \<Rightarrow> u8 \<Rightarrow> kstate \<Rightarrow> kstate" where
  "pput8 pa b s =
     (let w = pa AND NOT 3; sh = 8 * unat (pa AND 3) in
      s\<lparr>phys := (phys s)(w := (phys s w AND NOT (push_bit sh 0xFF)) OR push_bit sh (ucast b))\<rparr>)"

definition kget8 :: "kstate \<Rightarrow> u32 \<Rightarrow> u8" where
  "kget8 s a = pget8 s (a - KERNBASE)"

definition kget16 :: "kstate \<Rightarrow> u32 \<Rightarrow> u16" where
  "kget16 s a = ucast (kget8 s a) OR push_bit 8 (ucast (kget8 s (a + 1)))"

definition kget32 :: "kstate \<Rightarrow> u32 \<Rightarrow> u32" where
  "kget32 s a = ucast (kget8 s a) OR push_bit 8 (ucast (kget8 s (a + 1))) OR
     push_bit 16 (ucast (kget8 s (a + 2))) OR push_bit 24 (ucast (kget8 s (a + 3)))"

section \<open>Accesses through the page tables\<close>

definition hw_pde :: "kstate \<Rightarrow> u32 \<Rightarrow> u32" where
  "hw_pde s va = phys s (PTE_ADDR (cr3 s) + 4 * PDX va)"

definition hw_pte :: "kstate \<Rightarrow> u32 \<Rightarrow> u32" where
  "hw_pte s va = phys s (PTE_ADDR (hw_pde s va) + 4 * PTX va)"

definition kernel_fault :: "kstate \<Rightarrow> ('a, kstate) outcome" where
  "kernel_fault s = Panic ''page_fault_handler():page fault in kernel mode!'' s"

definition vpa :: "kstate \<Rightarrow> u32 \<Rightarrow> u32" where
  "vpa s va = PTE_ADDR (hw_pte s va) OR PGOFF va"

definition vread8 :: "u32 \<Rightarrow> kstate \<Rightarrow> (u8, kstate) outcome" where
  "vread8 va s =
     (if flag (hw_pde s va) PTE_P \<and> flag (hw_pte s va) PTE_P then Ret (pget8 s (vpa s va)) s
      else kernel_fault s)"

definition vread32 :: "u32 \<Rightarrow> kstate \<Rightarrow> (u32, kstate) outcome" where
  "vread32 va s =
     kbind (vread8 va s) (\<lambda>b0 s. kbind (vread8 (va + 1) s) (\<lambda>b1 s.
     kbind (vread8 (va + 2) s) (\<lambda>b2 s. kbind (vread8 (va + 3) s) (\<lambda>b3 s.
       Ret (ucast b0 OR push_bit 8 (ucast b1) OR push_bit 16 (ucast b2) OR push_bit 24 (ucast b3)) s))))"

definition vwrite8 :: "u32 \<Rightarrow> u8 \<Rightarrow> kstate \<Rightarrow> (unit, kstate) outcome" where
  "vwrite8 va b s =
     (if flag (hw_pde s va) PTE_P \<and> flag (hw_pte s va) PTE_P \<and>
         flag (hw_pde s va) PTE_W \<and> flag (hw_pte s va) PTE_W
      then Ret () (pput8 (vpa s va) b s)
      else kernel_fault s)"

text \<open>\<open>memset(va, b, n)\<close> and \<open>memcpy(va, src, n)\<close> with \<open>src\<close> in the kernel image.\<close>

definition vmemset :: "u32 \<Rightarrow> u8 \<Rightarrow> u32 \<Rightarrow> kstate \<Rightarrow> (unit, kstate) outcome" where
  "vmemset va b n s = kfor (\<lambda>k. vwrite8 (va + of_nat k) b) [0..<unat n] s"

definition vmemcpy :: "u32 \<Rightarrow> u32 \<Rightarrow> u32 \<Rightarrow> kstate \<Rightarrow> (unit, kstate) outcome" where
  "vmemcpy va src n s =
     kfor (\<lambda>k s. vwrite8 (va + of_nat k) (kget8 s (src + of_nat k)) s) [0..<unat n] s"

definition vwrite32 :: "u32 \<Rightarrow> u32 \<Rightarrow> kstate \<Rightarrow> (unit, kstate) outcome" where
  "vwrite32 va v s =
     kfor (\<lambda>k. vwrite8 (va + of_nat k) (ucast (drop_bit (8 * k) v))) [0..<4] s"

text \<open>Dereferencing a possibly \<open>NULL\<close> pointer to an environment faults in the kernel.\<close>

definition with_env ::
  "nat option \<Rightarrow> (nat \<Rightarrow> kstate \<Rightarrow> ('a, kstate) outcome) \<Rightarrow> kstate \<Rightarrow> ('a, kstate) outcome" where
  "with_env e f s = (case e of None \<Rightarrow> kernel_fault s | Some i \<Rightarrow> f i s)"

lemma with_env_Some [simp]: "with_env (Some e) f s = f e s"
  by (simp add: with_env_def)

section \<open>Bytes are independent\<close>

lemma byte_lane_same:
  fixes w :: u32 and b :: u8
  assumes "n \<in> {0, 8, 16, 24}"
  shows "ucast (drop_bit n ((w AND NOT (push_bit n 0xFF)) OR push_bit n (ucast b))) = b"
proof -
  have m: "(0xFF :: u32) = mask 8" by (simp add: mask_eq_decr_exp)
  show ?thesis
    unfolding m using assms by (intro bit_word_eqI) (auto simp: bit_simps)
qed

lemma byte_lane_other:
  fixes w :: u32 and b :: u8
  assumes "n \<in> {0, 8, 16, 24}" and "k \<in> {0, 8, 16, 24}" and "n \<noteq> k"
  shows "(ucast (drop_bit k ((w AND NOT (push_bit n 0xFF)) OR push_bit n (ucast b))) :: u8) =
    ucast (drop_bit k w)"
proof -
  have m: "(0xFF :: u32) = mask 8" by (simp add: mask_eq_decr_exp)
  show ?thesis
    unfolding m using assms by (intro bit_word_eqI) (auto simp: bit_simps dest: bit_imp_le_length)
qed

lemma lane_cases: "8 * unat (pa AND 3 :: u32) \<in> {0, 8, 16, 24}"
proof -
  have "unat (pa AND 3) < 4"
  proof -
    have "pa AND 3 = take_bit 2 pa" by (simp add: take_bit_eq_mask mask_eq_decr_exp)
    then show ?thesis using take_bit_nat_less_exp [of 2 "unat pa"] by (simp add: unsigned_take_bit_eq)
  qed
  then have "unat (pa AND 3) \<in> {0, 1, 2, 3}" by auto
  then show ?thesis by auto
qed

lemma addr_split: "(pa::u32) = (pa AND NOT 3) OR (pa AND 3)"
  by (simp add: bit.conj_disj_distrib [symmetric])

lemma pget8_pput8: "pget8 (pput8 pa b s) pa' = (if pa' = pa then b else pget8 s pa')"
proof (cases "pa' AND NOT 3 = pa AND NOT 3")
  case True
  show ?thesis
  proof (cases "pa' = pa")
    case True
    then show ?thesis
      using byte_lane_same [OF lane_cases] by (simp add: pget8_def pput8_def Let_def)
  next
    case False
    then have "pa' AND 3 \<noteq> pa AND 3" using True addr_split [of pa] addr_split [of pa'] by metis
    then have "8 * unat (pa AND 3) \<noteq> 8 * unat (pa' AND 3)" by (simp add: word_unat_eq_iff)
    from byte_lane_other [OF lane_cases lane_cases this] False True show ?thesis
      by (simp add: pget8_def pput8_def Let_def)
  qed
next
  case False
  then show ?thesis by (auto simp: pget8_def pput8_def Let_def)
qed

end
