(* ===== verification/Env_Ops.thy ===== *)
theory Env_Ops
  imports User_Access
begin

text \<open>
  Environments (\<^verbatim>\<open>kern/env.c\<close>) and the scheduler (\<^verbatim>\<open>kern/sched.c\<close>): lookup by id,
  initialisation, creation, loading of a program, destruction and the switch to user mode.
\<close>

section \<open>envid2env\<close>

text \<open>The result \<open>Inr None\<close> is a success with \<open>*env_store == NULL\<close> (no current environment).\<close>

definition envid2env :: "u32 \<Rightarrow> bool \<Rightarrow> kstate \<Rightarrow> (jerror + nat option, kstate) outcome" where
  "envid2env envid checkperm s =
     (if envid = 0 then Ret (Inr (curenv s)) s
      else let e = ENVX envid in
        if env_status (envs s e) = ENV_FREE \<or> env_id (envs s e) \<noteq> envid
        then Ret (Inl E_BAD_ENV) s
        else if checkperm \<and> curenv s \<noteq> Some e
        then with_env (curenv s) (\<lambda>c s.
               if env_parent_id (envs s e) \<noteq> env_id (envs s c) then Ret (Inl E_BAD_ENV) s
               else Ret (Inr (Some e)) s) s
        else Ret (Inr (Some e)) s)"

section \<open>The free list of environments\<close>

definition env_list_push :: "nat \<Rightarrow> kstate \<Rightarrow> kstate" where
  "env_list_push e s =
     (upd_env e (\<lambda>v. v\<lparr>env_link := env_free_list s\<rparr>) s)\<lparr>env_free_list := Some e\<rparr>"

text \<open>\<open>env_alloc\<close> takes the head off the list and leaves its link as it is.\<close>

definition env_list_pop :: "kstate \<Rightarrow> kstate" where
  "env_list_pop s =
     (case env_free_list s of None \<Rightarrow> s
      | Some e \<Rightarrow> s\<lparr>env_free_list := env_link (envs s e)\<rparr>)"

interpretation el: free_stack env_free_list "\<lambda>s e. env_link (envs s e)" env_list_push env_list_pop
  by unfold_locales (auto simp: env_list_push_def env_list_pop_def kops fun_eq_iff)

abbreviation free_envs :: "kstate \<Rightarrow> nat list \<Rightarrow> bool" where
  "free_envs \<equiv> el.elems"

text \<open>The loop of \<open>env_init\<close>, from \<open>NENV - 1\<close> down to \<open>0\<close>.\<close>

definition env_init_step :: "nat \<Rightarrow> kstate \<Rightarrow> kstate" where
  "env_init_step i s = env_list_push i (upd_env i (\<lambda>v. v\<lparr>env_id := 0\<rparr>) s)"

definition env_init :: "kstate \<Rightarrow> kstate" where
  "env_init s = fold env_init_step (rev [0..<NENV]) (s\<lparr>env_free_list := None\<rparr>)"

section \<open>Creation\<close>

definition env_setup_vm :: "nat \<Rightarrow> kstate \<Rightarrow> (jerror + unit, kstate) outcome" where
  "env_setup_vm e s =
     kbind (page_alloc ALLOC_ZERO s) (\<lambda>p s. case p of
         None \<Rightarrow> Ret (Inl E_NO_MEM) s
       | Some p \<Rightarrow>
           let s = upd_page p (\<lambda>i. i\<lparr>pp_ref := pp_ref i + 1\<rparr>) s in
           kbind (page2kva p s) (\<lambda>a s.
             let s = upd_env e (\<lambda>v. v\<lparr>env_pgdir := a\<rparr>) s;
                 s = kcopy_page (env_pgdir (envs s e)) (kern_pgdir s) s
             in kbind (PADDR (env_pgdir (envs s e)) s) (\<lambda>pa s.
                  Ret (Inr ()) (kstore (env_pgdir (envs s e) + 4 * PDX UVPT)
                    (pa OR PTE_P OR PTE_U) s))))"

text \<open>The id of the next environment in slot \<open>e\<close>; \<open>generation\<close> is a signed \<open>int32_t\<close>.\<close>

definition next_env_id :: "u32 \<Rightarrow> nat \<Rightarrow> u32" where
  "next_env_id old e =
     (let generation = (old + push_bit ENVGENSHIFT 1) AND NOT (of_nat NENV - 1);
          generation = (if sint generation \<le> 0 then push_bit ENVGENSHIFT 1 else generation)
      in generation OR of_nat e)"

definition init_tf :: Trapframe where
  "init_tf = zero_tf\<lparr>tf_ds := GD_UD OR 3, tf_es := GD_UD OR 3, tf_ss := GD_UD OR 3,
     tf_esp := USTACKTOP, tf_cs := GD_UT OR 3, tf_eflags := FL_IF\<rparr>"

definition cur_id :: "kstate \<Rightarrow> u32" where
  "cur_id s = (case curenv s of None \<Rightarrow> 0 | Some c \<Rightarrow> env_id (envs s c))"

definition newline :: string where "newline = [CHR 0x0A]"

definition env_alloc :: "u32 \<Rightarrow> kstate \<Rightarrow> (jerror + nat, kstate) outcome" where
  "env_alloc parent_id s =
     (case env_free_list s of
        None \<Rightarrow> Ret (Inl E_NO_FREE_ENV) s
      | Some e \<Rightarrow>
          ebind (env_setup_vm e s) (\<lambda>_ s.
            let s = upd_env e (\<lambda>v. v\<lparr>env_id := next_env_id (env_id v) e\<rparr>) s;
                s = upd_env e (\<lambda>v. v\<lparr>env_parent_id := parent_id, env_type := ENV_TYPE_USER,
                      env_status := ENV_RUNNABLE, env_runs := 0, env_tf := init_tf,
                      env_pgfault_upcall := 0, env_ipc_recving := False\<rparr>) s;
                s = s\<lparr>env_free_list := env_link (envs s e)\<rparr>
            in Ret (Inr e) (kputs (''['' @ hex8 (cur_id s) @ ''] new env '' @
                 hex8 (env_id (envs s e)) @ newline) s)))"

section \<open>Loading a program\<close>

definition region_alloc :: "nat \<Rightarrow> u32 \<Rightarrow> u32 \<Rightarrow> kstate \<Rightarrow> (unit, kstate) outcome" where
  "region_alloc e va len s =
     kfor (\<lambda>begin_va s. kbind (page_alloc 0 s) (\<lambda>pp s. case pp of
         None \<Rightarrow> Panic ''region_alloc() faild: pp == NULL'' s
       | Some pp \<Rightarrow>
           kbind (page_insert (env_pgdir (envs s e)) pp begin_va (PTE_W OR PTE_U) s) (\<lambda>r s.
             if r = Inl E_NO_MEM
             then Panic ''region_alloc() faild: page_inset() == -E_NO_MEM'' s
             else Ret () s)))
       (page_range (ROUNDDOWN va PGSIZE) (ROUNDUP (va + len) PGSIZE)) s"

definition ELF_MAGIC :: u32 where [jos_consts]: "ELF_MAGIC = 0x464C457F"
definition ELF_PROG_LOAD :: u32 where [jos_consts]: "ELF_PROG_LOAD = 1"

text \<open>
  The fields of \<open>struct Elf\<close> and \<open>struct Proghdr\<close> by their offsets: \<open>e_magic\<close> 0, \<open>e_entry\<close> 24,
  \<open>e_phoff\<close> 28, \<open>e_phnum\<close> 44; \<open>p_type\<close> 0, \<open>p_offset\<close> 4, \<open>p_va\<close> 8, \<open>p_filesz\<close> 16, \<open>p_memsz\<close> 20.
\<close>

definition load_segment :: "nat \<Rightarrow> u32 \<Rightarrow> u32 \<Rightarrow> kstate \<Rightarrow> (unit, kstate) outcome" where
  "load_segment e binary ph s =
     (if kget32 s ph = ELF_PROG_LOAD then
        kbind (region_alloc e (kget32 s (ph + 8)) (kget32 s (ph + 20)) s) (\<lambda>_ s.
        kbind (vmemset (kget32 s (ph + 8)) 0 (kget32 s (ph + 20)) s) (\<lambda>_ s.
        vmemcpy (kget32 s (ph + 8)) (binary + kget32 s (ph + 4)) (kget32 s (ph + 16)) s))
      else Ret () s)"

definition load_icode :: "nat \<Rightarrow> u32 \<Rightarrow> kstate \<Rightarrow> (unit, kstate) outcome" where
  "load_icode e binary s =
     (if kget32 s binary \<noteq> ELF_MAGIC then Panic ''Not ELF!'' s
      else
        let ph = kget32 s (binary + 28) + binary; phnum = unat (kget16 s (binary + 44)) in
        kbind (PADDR (env_pgdir (envs s e)) s) (\<lambda>pa s.
        kbind (kfor (\<lambda>k. load_segment e binary (ph + 32 * of_nat k)) [0..<phnum] (lcr3 pa s)) (\<lambda>_ s.
        kbind (PADDR (kern_pgdir s) s) (\<lambda>pa s.
          let s = lcr3 pa s;
              s = upd_env e (\<lambda>v. v\<lparr>env_tf := (env_tf v)\<lparr>tf_eip := kget32 s (binary + 24)\<rparr>\<rparr>) s
          in region_alloc e (USTACKTOP - PGSIZE) PGSIZE s))))"

definition env_create :: "u32 \<Rightarrow> EnvType \<Rightarrow> kstate \<Rightarrow> (unit, kstate) outcome" where
  "env_create binary type s =
     kbind (env_alloc 0 s) (\<lambda>r s. case r of
         Inl _ \<Rightarrow> Panic ''env_create() failed'' s
       | Inr e \<Rightarrow>
           kbind (load_icode e binary s) (\<lambda>_ s. Ret () (upd_env e (\<lambda>v. v\<lparr>env_type := type\<rparr>) s)))"

section \<open>Destruction\<close>

text \<open>The inner and the outer loop of \<open>env_free\<close>.\<close>

definition free_pte :: "nat \<Rightarrow> u32 \<Rightarrow> u32 \<Rightarrow> u32 \<Rightarrow> kstate \<Rightarrow> (unit, kstate) outcome" where
  "free_pte e pt pdeno pteno s =
     (if flag (kload s (pt + 4 * pteno)) PTE_P
      then page_remove (env_pgdir (envs s e)) (PGADDR pdeno pteno 0) s
      else Ret () s)"

definition free_pde :: "nat \<Rightarrow> u32 \<Rightarrow> kstate \<Rightarrow> (unit, kstate) outcome" where
  "free_pde e pdeno s =
     (let entry = kload s (env_pgdir (envs s e) + 4 * pdeno) in
      if \<not> flag entry PTE_P then Ret () s
      else
        let pa = PTE_ADDR entry in
        kbind (KADDR pa s) (\<lambda>pt s.
        kbind (kfor (free_pte e pt pdeno) (map of_nat [0..<1024]) s) (\<lambda>_ s.
          let s = kstore (env_pgdir (envs s e) + 4 * pdeno) 0 s in
          kbind (pa2page pa s) page_decref)))"

definition env_free :: "nat \<Rightarrow> kstate \<Rightarrow> (unit, kstate) outcome" where
  "env_free e s =
     kbind (if curenv s = Some e then kbind (PADDR (kern_pgdir s) s) (\<lambda>pa s. Ret () (lcr3 pa s))
            else Ret () s) (\<lambda>_ s.
     let s = kputs (''['' @ hex8 (cur_id s) @ ''] free env '' @ hex8 (env_id (envs s e)) @ newline) s in
     kbind (kfor (free_pde e) (map of_nat [0..<unat (PDX UTOP)]) s) (\<lambda>_ s.
     kbind (PADDR (env_pgdir (envs s e)) s) (\<lambda>pa s.
       let s = upd_env e (\<lambda>v. v\<lparr>env_pgdir := 0\<rparr>) s in
     kbind (kbind (pa2page pa s) page_decref) (\<lambda>_ s.
       Ret () (env_list_push e (upd_env e (\<lambda>v. v\<lparr>env_status := ENV_FREE\<rparr>) s))))))"

section \<open>Running\<close>

definition env_pop_tf :: "kstate \<Rightarrow> (unit, kstate) outcome" where
  "env_pop_tf s =
     with_env (curenv s) (\<lambda>c s.
       Leave (Resume c) (upd_env c (\<lambda>v. v\<lparr>env_cpunum := cpunum s\<rparr>) s)) s"

definition env_run :: "nat \<Rightarrow> kstate \<Rightarrow> (unit, kstate) outcome" where
  "env_run e s =
     (let s = (case curenv s of
                 None \<Rightarrow> s
               | Some c \<Rightarrow> if env_status (envs s c) = ENV_RUNNING
                          then upd_env c (\<lambda>v. v\<lparr>env_status := ENV_RUNNABLE\<rparr>) s else s);
          s = set_curenv (Some e) s;
          s = upd_env e (\<lambda>v. v\<lparr>env_status := ENV_RUNNING, env_runs := env_runs v + 1\<rparr>) s
      in kbind (PADDR (env_pgdir (envs s e)) s) (\<lambda>pa s.
         kbind (unlock_kernel (lcr3 pa s)) (\<lambda>_ s. env_pop_tf s)))"

section \<open>Scheduler (kern/sched.c)\<close>

definition sched_halt :: "kstate \<Rightarrow> (unit, kstate) outcome" where
  "sched_halt s =
     (if \<forall>i \<in> set [0..<NENV]. env_status (envs s i) \<notin> {ENV_RUNNABLE, ENV_RUNNING, ENV_DYING}
      then Leave InMonitor (kputs (''No runnable environments in the system!'' @ newline) s)
      else
        let s = set_curenv None s in
        kbind (PADDR (kern_pgdir s) s) (\<lambda>pa s.
          let s = lcr3 pa s;
              s = s\<lparr>cpus := (cpus s)(cpunum s := (cpus s (cpunum s))\<lparr>cpu_status := CPU_HALTED\<rparr>)\<rparr>
          in kbind (unlock_kernel s) (\<lambda>_ s. Leave Halted s)))"

definition sched_order :: "kstate \<Rightarrow> nat list" where
  "sched_order s =
     (let start = (case curenv s of None \<Rightarrow> 0 | Some c \<Rightarrow> ENVX (env_id (envs s c)) + 1)
      in map (\<lambda>i. (start + i) mod NENV) [0..<NENV])"

definition sched_yield :: "kstate \<Rightarrow> (unit, kstate) outcome" where
  "sched_yield s =
     (case find (\<lambda>j. env_status (envs s j) = ENV_RUNNABLE) (sched_order s) of
        Some j \<Rightarrow> env_run j s
      | None \<Rightarrow>
          (case curenv s of
             Some c \<Rightarrow> if env_status (envs s c) = ENV_RUNNING then env_run c s else sched_halt s
           | None \<Rightarrow> sched_halt s))"

definition env_destroy :: "nat \<Rightarrow> kstate \<Rightarrow> (unit, kstate) outcome" where
  "env_destroy e s =
     (if env_status (envs s e) = ENV_RUNNING \<and> curenv s \<noteq> Some e
      then Ret () (upd_env e (\<lambda>v. v\<lparr>env_status := ENV_DYING\<rparr>) s)
      else kbind (env_free e s) (\<lambda>_ s.
        if curenv s = Some e then sched_yield (set_curenv None s) else Ret () s))"

definition user_mem_assert :: "nat \<Rightarrow> u32 \<Rightarrow> u32 \<Rightarrow> u32 \<Rightarrow> kstate \<Rightarrow> (unit, kstate) outcome" where
  "user_mem_assert env va len perm s =
     kbind (user_mem_check env va len (perm OR PTE_U) s) (\<lambda>r s. case r of
         Inr _ \<Rightarrow> Ret () s
       | Inl _ \<Rightarrow> env_destroy env (kputs (''['' @ hex8 (env_id (envs s env)) @
             ''] user_mem_check assertion failure for va '' @ hex8 (user_mem_check_addr s) @ newline) s))"

end
