(* ===== verification/Vm_Free.thy ===== *)
theory Vm_Free
  imports Vm_Ops
begin

text \<open>
  Taking an address space apart: dropping an empty page table and dropping an empty page
  directory keep the invariant of the memory system and return the page to the free list.
\<close>

section \<open>Dropping an empty table\<close>

lemma pde_clear:
  assumes "pt_shape D s" and "q \<in> D" and "i < PDX UTOP" and "q' \<in> D" and "i' < PDX UTOP"
  shows "pde (kstore (kva q i) 0 s) q' i' = (if q' = q \<and> i' = i then 0 else pde s q' i')"
  using pde_store_pde [OF assms(1,2) upde_less [OF assms(3)] assms(4) upde_less [OF assms(5)]] .

lemma pte_clear:
  assumes "pt_shape D s" and "q \<in> D" and "i < PDX UTOP" and "q' \<in> D" and "i' < PDX UTOP"
    and "flag (pde s q' i') PTE_P" and "j < 1024" and "\<not> (q' = q \<and> i' = i)"
  shows "pte (kstore (kva q i) 0 s) q' i' j = pte s q' i' j"
  using pte_store_pde [OF assms(1,2) upde_less [OF assms(3)] assms(4-7)] assms(8) by blast

lemma refers_clear_pde:
  assumes "pt_shape D s" and "q \<in> D" and "i < PDX UTOP"
    and "\<And>j. j < 1024 \<Longrightarrow> \<not> flag (pte s q i j) PTE_P"
  shows "refers D (kstore (kva q i) 0 s) r p \<longleftrightarrow> r \<noteq> TabRef q i \<and> refers D s r p"
proof (cases r)
  case (PageRef q' i' j)
  then show ?thesis
    using assms(4) pte_clear [OF assms(1-3), of q' i' j] pde_clear [OF assms(1-3), of q' i']
    by (auto split: if_splits)
qed (use pde_clear [OF assms(1-3)] in \<open>auto split: if_splits\<close>)

lemma vmap_clear_pde:
  assumes "pt_shape D s" and "q \<in> D" and "i < PDX UTOP" and "q' \<in> D" and "va < UTOP"
    and "\<And>j. j < 1024 \<Longrightarrow> \<not> flag (pte s q i j) PTE_P"
  shows "vmap (kstore (kva q i) 0 s) q' va = vmap s q' va"
proof -
  note i' = PDX_user [OF assms(5)]
  show ?thesis
    using pte_clear [OF assms(1-4) i', of "PTX va"] pde_clear [OF assms(1-4) i'] assms(6) [of "PTX va"]
    by (auto simp: vmap_def)
qed

lemma vm_inv_drop_table:
  assumes "vm_inv D R fl s" and "q \<in> D" and "i < PDX UTOP" and "flag (pde s q i) PTE_P"
    and "\<And>j. j < 1024 \<Longrightarrow> \<not> flag (pte s q i j) PTE_P"
  defines "z \<equiv> PGNUM (pde s q i)"
  defines "t \<equiv> kstore (kva q i) 0 s"
  shows "page_decref z t = Ret () (drop_ref z t)" and "vm_inv D R (z # fl) (drop_ref z t)"
    and "pp_ref (pages s z) = 1"
proof -
  have sh: "pt_shape D s" using assms(1) by (simp add: vm_inv_def)
  have rz: "refers D s (TabRef q i) z" using assms(2-4) by (simp add: z_def)
  have z: "z < npages s" "z \<notin> set fl"
    using pt_shape_valid [OF sh rz] vm_inv_referred_not_free [OF assms(1) rz] by auto
  have ref: "refers D t r p \<longleftrightarrow> r \<noteq> TabRef q i \<and> refers D s r p" for r p
    unfolding t_def by (rule refers_clear_pde [OF sh assms(2,3,5)])
  have "refs D s z = {TabRef q i}"
    using rz pt_shape_sole [OF sh rz] by (auto simp: refs_def)
  moreover have "R z = 0" using vm_inv_table [OF assms(1) rz] by simp
  ultimately have "unat (pp_ref (pages s z)) = 1" using vm_inv_count [OF assms(1) z(1)] by simp
  then show one: "pp_ref (pages s z) = 1" by (simp add: word_unat_eq_iff)
  have fr: "free_ok fl t" using vm_inv_free [OF assms(1)] by (simp add: t_def)
  have zt: "z < npages t" using z by (simp add: t_def)
  show "page_decref z t = Ret () (drop_ref z t)" by (rule page_decref_eq [OF fr zt z(2)])
  have "npages_ok s" by (rule pt_shape_npages_ok [OF sh])
  have sht: "pt_shape D t"
    unfolding pt_shape_def
  proof (intro conjI allI impI)
    show "npages_ok t" using \<open>npages_ok s\<close> by (simp add: t_def npages_ok_def)
    show "p < npages t" if "refers D t r p" for r p
      using that pt_shape_valid [OF sh, of r p] by (simp add: ref) (simp add: t_def)
    show "r' = r" if "refers D t r p" "is_table r" "refers D t r' p" for r r' p
      using that pt_shape_sole [OF sh, of r p r'] by (simp add: ref)
    fix x y w assume "refers D t (TabRef x y) (PGNUM (pde t x y))" "(w::u32) < 1024"
    moreover from this have "x \<in> D" "y < PDX UTOP" "flag (pde s x y) PTE_P" "\<not> (x = q \<and> y = i)"
      using ref [of "TabRef x y"] pde_clear [OF sh assms(2,3), of x y] by (auto simp: t_def)
    ultimately show "pte t x y w = 0 \<or> flag (pte t x y w) PTE_P"
      using pte_clear [OF sh assms(2,3), of x y w] pt_shape_pte [OF sh, of x y w]
      by (auto simp: t_def)
  qed
  have "unat (pp_ref (pages (drop_ref z t) x)) = R x + card (refs D (drop_ref z t) x)" if "x < npages s" for x
  proof -
    have rs: "refs D (drop_ref z t) x = refs D s x - {TabRef q i}"
      by (auto simp: refs_def refers_phys [OF drop_ref_misc(1)] ref simp del: refers.simps)
    have pr: "pp_ref (pages (drop_ref z t) x) = (if x = z then 0 else pp_ref (pages s x))"
      using one by (simp add: t_def)
    show ?thesis
    proof (cases "x = z")
      case True
      then show ?thesis unfolding rs pr using \<open>refs D s z = {TabRef q i}\<close> \<open>R z = 0\<close> by simp
    next
      case False
      then have "TabRef q i \<notin> refs D s x" using refers_unique [OF rz] by (auto simp: refs_def simp del: refers.simps)
      then show ?thesis unfolding rs pr using vm_inv_count [OF assms(1) that] False by simp
    qed
  qed
  moreover have "free_ok (z # fl) (drop_ref z t)"
    using free_ok_drop_ref [OF fr zt z(2)] one by (simp add: t_def)
  moreover have "pt_shape D (drop_ref z t)"
    using sht by (simp add: pt_shape_phys [OF drop_ref_misc(1)])
  moreover have "R p = 0" if "refers D (drop_ref z t) r p" "is_table r" for r p
    using that vm_inv_table [OF assms(1), of r p] by (simp add: refers_phys [OF drop_ref_misc(1)] ref)
  ultimately show "vm_inv D R (z # fl) (drop_ref z t)" by (simp add: vm_inv_def t_def)
qed

section \<open>Dropping an empty directory\<close>

lemma refers_minus:
  assumes "\<And>i. i < PDX UTOP \<Longrightarrow> \<not> flag (pde s q i) PTE_P"
  shows "refers (D - {q}) s r p \<longleftrightarrow> r \<noteq> DirRef q \<and> refers D s r p"
  using assms by (cases r) auto

lemma vm_inv_drop_dir:
  assumes "vm_inv D R fl s" and "q \<in> D" and "\<And>i. i < PDX UTOP \<Longrightarrow> \<not> flag (pde s q i) PTE_P"
  shows "page_decref q s = Ret () (drop_ref q s)" and "vm_inv (D - {q}) R (q # fl) (drop_ref q s)"
    and "pp_ref (pages s q) = 1"
proof -
  have sh: "pt_shape D s" using assms(1) by (simp add: vm_inv_def)
  have rq: "refers D s (DirRef q) q" using assms(2) by simp
  have q: "q < npages s" "q \<notin> set fl"
    using pt_shape_valid [OF sh rq] vm_inv_referred_not_free [OF assms(1) rq] by auto
  note ref = refers_minus [OF assms(3), of D]
  have rqs: "refs D s q = {DirRef q}" using rq pt_shape_sole [OF sh rq] by (auto simp: refs_def)
  have R0: "R q = 0" using vm_inv_table [OF assms(1) rq] by simp
  have "unat (pp_ref (pages s q)) = 1" using vm_inv_count [OF assms(1) q(1)] rqs R0 by simp
  then show one: "pp_ref (pages s q) = 1" by (simp add: word_unat_eq_iff)
  note fr = vm_inv_free [OF assms(1)]
  show "page_decref q s = Ret () (drop_ref q s)" by (rule page_decref_eq [OF fr q])
  have "pt_shape (D - {q}) s"
    unfolding pt_shape_def
  proof (intro conjI allI impI)
    show "npages_ok s" by (rule pt_shape_npages_ok [OF sh])
    show "p < npages s" if "refers (D - {q}) s r p" for r p
      using that pt_shape_valid [OF sh, of r p] by (simp add: ref)
    show "r' = r" if "refers (D - {q}) s r p" "is_table r" "refers (D - {q}) s r' p" for r r' p
      using that pt_shape_sole [OF sh, of r p r'] by (simp add: ref)
    show "pte s x y w = 0 \<or> flag (pte s x y w) PTE_P"
      if "refers (D - {q}) s (TabRef x y) (PGNUM (pde s x y))" "w < 1024" for x y w
      using that pt_shape_pte [OF sh, of x y w] by auto
  qed
  then have "pt_shape (D - {q}) (drop_ref q s)" by (simp add: pt_shape_phys [OF drop_ref_misc(1)])
  moreover have "free_ok (q # fl) (drop_ref q s)" using free_ok_drop_ref [OF fr q] one by simp
  moreover have "unat (pp_ref (pages (drop_ref q s) x)) = R x + card (refs (D - {q}) (drop_ref q s) x)"
    if "x < npages s" for x
  proof -
    have rs: "refs (D - {q}) (drop_ref q s) x = refs D s x - {DirRef q}"
      by (auto simp: refs_def refers_phys [OF drop_ref_misc(1)] ref simp del: refers.simps)
    have pr: "pp_ref (pages (drop_ref q s) x) = (if x = q then 0 else pp_ref (pages s x))"
      using one by simp
    show ?thesis
    proof (cases "x = q")
      case True
      then show ?thesis unfolding rs pr using rqs R0 by simp
    next
      case False
      then have "DirRef q \<notin> refs D s x" by (simp add: refs_def)
      then show ?thesis unfolding rs pr using vm_inv_count [OF assms(1) that] False by simp
    qed
  qed
  moreover have "R p = 0" if "refers (D - {q}) (drop_ref q s) r p" "is_table r" for r p
    using that vm_inv_table [OF assms(1), of r p] by (simp add: refers_phys [OF drop_ref_misc(1)] ref)
  ultimately show "vm_inv (D - {q}) R (q # fl) (drop_ref q s)" by (simp add: vm_inv_def)
qed

section \<open>No page is lost\<close>

text \<open>Every page without a reference is on the free list.\<close>

definition no_leak :: "u32 list \<Rightarrow> kstate \<Rightarrow> bool" where
  "no_leak fl s \<longleftrightarrow> (\<forall>p. p < npages s \<longrightarrow> pp_ref (pages s p) = 0 \<longrightarrow> p \<in> set fl)"

lemma no_leak_drop_ref:
  assumes "no_leak fl s" and "pp_ref (pages s p) \<noteq> 0"
  shows "no_leak (if pp_ref (pages s p) = 1 then p # fl else fl) (drop_ref p s)"
  using assms by (auto simp: no_leak_def)

lemma no_leak_same:
  "pages t = pages s \<Longrightarrow> npages t = npages s \<Longrightarrow> no_leak fl t = no_leak fl s"
  by (simp add: no_leak_def)

lemma mapped_ref_nonzero:
  assumes "vm_inv D R fl s" and "refers D s r p"
  shows "pp_ref (pages s p) \<noteq> 0"
proof
  assume "pp_ref (pages s p) = 0"
  then have "card (refs D s p) = 0"
    using vm_inv_count [OF assms(1) pt_shape_valid [OF vm_inv_shape [OF assms(1)] assms(2)]] by simp
  then show False using assms(2) by (simp add: refs_def)
qed

lemma vmap_refers:
  "q \<in> D \<Longrightarrow> va < UTOP \<Longrightarrow> vmap s q va = Some e \<Longrightarrow> refers D s (PageRef q (PDX va) (PTX va)) (PGNUM e)"
  by (auto simp: vmap_def PDX_user split: if_splits)

lemma remove_state_no_leak:
  assumes "vm_inv D R fl s" and "q \<in> D" and "va < UTOP" and "vmap s q va = Some e" and "no_leak fl s"
  shows "no_leak (remove_free q va s fl) (remove_state q va s)"
proof -
  have e: "e = pte s q (PDX va) (PTX va)" using assms(4) by (auto simp: vmap_def split: if_splits)
  have "pp_ref (pages s (PGNUM e)) \<noteq> 0"
    by (rule mapped_ref_nonzero [OF assms(1) vmap_refers [OF assms(2-4)]])
  note nl = no_leak_drop_ref [OF assms(5) this]
  have "pages (remove_state q va s) = pages (drop_ref (PGNUM e) s)"
    "npages (remove_state q va s) = npages (drop_ref (PGNUM e) s)"
    by (simp_all add: remove_state_def e)
  from no_leak_same [OF this] nl show ?thesis by (simp add: remove_free_def assms(4))
qed

lemma remove_state_pdes:
  assumes "pt_shape D s" and "q \<in> D" and "va < UTOP" and "flag (pde s q (PDX va)) PTE_P"
    and "q' \<in> D" and "i < PDX UTOP"
  shows "pde (remove_state q va s) q' i = pde s q' i"
proof -
  have "phys (remove_state q va s) =
      phys (kstore (kva (PGNUM (pde s q (PDX va))) (PTX va)) 0 s)"
    by (simp add: remove_state_def kops)
  from pde_cong [OF this] show ?thesis
    using pde_store_pte [OF assms(1,2) PDX_user [OF assms(3)] assms(4) PTX_word_less assms(5)
        upde_less [OF assms(6)], of va 0] by simp
qed

section \<open>The invariant reads the memory system only\<close>

lemma free_ok_same:
  assumes "pages t = pages s" and "page_free_list t = page_free_list s" and "npages t = npages s"
  shows "free_ok fl t = free_ok fl s"
  using assms by (simp add: free_ok_def pl.elems_def npages_ok_def)

lemma vm_inv_cong:
  assumes "phys t = phys s" and "pages t = pages s" and "page_free_list t = page_free_list s"
    and "npages t = npages s"
  shows "vm_inv D R fl t = vm_inv D R fl s"
  using assms by (simp add: vm_inv_def refers_phys [OF assms(1)] refs_phys [OF assms(1)]
      pt_shape_phys [OF assms(1,4)] free_ok_same [OF assms(2-4)])

end
