(* ===== verification/Env_Free.thy ===== *)
theory Env_Free
  imports Env_Ops Vm_Free
begin

text \<open>
  \<open>env_free\<close> returns all memory of an environment: every page only it had mapped, its page
  tables and its page directory go to the free list, no other address space changes, and no
  page is lost.
\<close>

section \<open>Addresses of the loops\<close>

lemma PGADDR_index:
  assumes "unat i < 1024" and "unat j < 1024"
  shows "PDX (PGADDR i j 0) = i" and "PTX (PGADDR i j 0) = j"
proof -
  have b: "n < 10" if "unat (x::u32) < 1024" "bit x n" for x n
  proof (rule ccontr)
    assume "\<not> n < 10"
    have "take_bit 10 (unat x) = unat x" using that(1) by (simp add: take_bit_nat_eq_self)
    then have "\<not> bit (unat x) n" using \<open>\<not> n < 10\<close> by (metis bit_take_bit_iff)
    then show False using that(2) by (auto simp: bit_unsigned_iff dest: bit_imp_possible_bit)
  qed
  have m: "(0x3FF::u32) = mask 10" by (simp add: mask_eq_decr_exp)
  show "PDX (PGADDR i j 0) = i"
    unfolding PGADDR_def PDX_def m
    by (intro bit_word_eqI) (auto simp: bit_simps dest: b [OF assms(1)] b [OF assms(2)])
  show "PTX (PGADDR i j 0) = j"
    unfolding PGADDR_def PTX_def m
    by (intro bit_word_eqI) (auto simp: bit_simps dest: b [OF assms(1)] b [OF assms(2)])
qed

lemma user_less: "PDX va < PDX UTOP \<Longrightarrow> va < UTOP"
proof -
  assume "PDX va < PDX UTOP"
  moreover have "unat va div 4194304 mod 1024 = unat va div 4194304"
    using unsigned_less [of va, where ?'a = nat] by simp
  ultimately have "unat va div 4194304 < 955" by (simp add: PDX_UTOP unat_mono_less unat_PDX)
  then show ?thesis by (simp add: unat_mono_less jos_consts)
qed

section \<open>The loops\<close>

text \<open>
  What both loops keep, relative to the state \<open>s\<close> they start from: the invariant, the other
  state, the other address spaces, and that no page is lost.
\<close>

definition freeing :: "u32 set \<Rightarrow> (u32 \<Rightarrow> nat) \<Rightarrow> u32 \<Rightarrow> kstate \<Rightarrow> u32 list \<Rightarrow> kstate \<Rightarrow> bool" where
  "freeing D R q s fl t \<longleftrightarrow> vm_inv D R fl t \<and> no_leak fl t \<and> vm_only s t \<and>
     (\<forall>q' \<in> D. q' \<noteq> q \<longrightarrow> (\<forall>va < UTOP. vmap t q' va = vmap s q' va)) \<and>
     (\<forall>k. 0 < R k \<longrightarrow> k < npages s \<longrightarrow> same_words k s t)"

lemma free_pte_step:
  assumes "freeing D R q s fl t" and "q \<in> D" and "env_pgdir (envs s e) = kva q 0"
    and "i < PDX UTOP" and "flag (pde t q i) PTE_P" and "j < 1024"
  shows "\<exists>u fl'. free_pte e (kva (PGNUM (pde t q i)) 0) i j t = Ret () u \<and> freeing D R q s fl' u \<and>
     (\<forall>i' < PDX UTOP. pde u q i' = pde t q i') \<and> \<not> flag (pte u q i j) PTE_P \<and>
     (\<forall>j' < 1024. \<not> flag (pte t q i j') PTE_P \<longrightarrow> \<not> flag (pte u q i j') PTE_P)"
proof -
  let ?va = "PGADDR i j 0"
  have inv: "vm_inv D R fl t" and nl: "no_leak fl t" and only: "vm_only s t"
    using assms(1) by (simp_all add: freeing_def)
  have ix: "PDX ?va = i" "PTX ?va = j"
    using PGADDR_index [OF upde_less [OF assms(4)]] assms(6) by (simp_all add: word1024_less)
  have va: "?va < UTOP" using ix assms(4) by (intro user_less) simp
  have env: "envs t = envs s" using only by (simp add: vm_only_def)
  show ?thesis
  proof (cases "flag (pte t q i j) PTE_P")
    case False
    then have "free_pte e (kva (PGNUM (pde t q i)) 0) i j t = Ret () t"
      by (simp add: free_pte_def pte_def)
    then show ?thesis using assms(1) False by blast
  next
    case True
    let ?u = "remove_state q ?va t" and ?fl = "remove_free q ?va t fl"
    have vm: "vmap t q ?va = Some (pte t q i j)" using True assms(5) by (simp add: vmap_def ix)
    have sh: "pt_shape D t" by (rule vm_inv_shape [OF inv])
    have pd: "flag (pde t q (PDX ?va)) PTE_P" using assms(5) ix by simp
    have run: "free_pte e (kva (PGNUM (pde t q i)) 0) i j t = Ret () ?u"
      using True page_remove_mapped [OF inv assms(2) va vm]
      by (simp add: free_pte_def env assms(3) pte_def)
    have pdes: "pde ?u q i' = pde t q i'" if "i' < PDX UTOP" for i'
      by (rule remove_state_pdes [OF sh assms(2) va pd assms(2) that])
    have "refers D ?u (PageRef q i j') p \<longleftrightarrow> j' \<noteq> j \<and> refers D t (PageRef q i j') p" for j' p
      using remove_state_refers [OF sh assms(2) va pd, of "PageRef q i j'" p] by (simp add: ix del: refers.simps)
    then have ptes: "flag (pte ?u q i j') PTE_P \<Longrightarrow> j' \<noteq> j \<and> flag (pte t q i j') PTE_P" if "j' < 1024" for j'
      using that assms(2,4,5) pdes [OF assms(4)] by auto
    have "vm_inv D R ?fl ?u"
      using remove_state_inv [OF inv assms(2) va vm] by (simp add: remove_free_def vm)
    moreover have "vmap ?u q' va' = vmap s q' va'" if "q' \<in> D" "q' \<noteq> q" "va' < UTOP" for q' va'
      using remove_state_vmap [OF sh assms(2) va pd that(1,3)] that assms(1) by (simp add: freeing_def)
    moreover have "vm_only s ?u" using vm_only_trans [OF only vm_only_remove_state] .
    moreover have "no_leak ?fl ?u" by (rule remove_state_no_leak [OF inv assms(2) va vm nl])
    moreover have "same_words k s ?u" if "0 < R k" "k < npages s" for k
      using same_words_trans [OF _ remove_state_words [OF inv assms(2) va pd kernel_no_table [OF inv that(1)]]] that only assms(1)
      by (simp add: freeing_def vm_only_def)
    ultimately have "freeing D R q s ?fl ?u" by (simp add: freeing_def)
    then show ?thesis using run pdes ptes assms(6) by blast
  qed
qed

lemma index_list: "set (map of_nat [0..<1024]) = {j::u32. j < 1024}"
proof -
  have "j \<in> of_nat ` {0..<1024}" if "j < 1024" for j :: u32
    using that by (intro image_eqI [of _ _ "unat j"]) (simp_all add: unat_mono_less)
  moreover have "(of_nat k :: u32) < 1024" if "k < 1024" for k
    using that by (simp add: unat_mono_less unsigned_of_nat take_bit_nat_eq_self)
  ultimately show ?thesis by auto
qed

lemma free_ptes:
  assumes "freeing D R q s fl t" and "q \<in> D" and "env_pgdir (envs s e) = kva q 0"
    and "i < PDX UTOP" and "flag (pde t q i) PTE_P"
  shows "\<exists>u. kfor (free_pte e (kva (PGNUM (pde t q i)) 0) i) (map of_nat [0..<1024]) t = Ret () u \<and>
     (\<exists>fl'. freeing D R q s fl' u) \<and> (\<forall>i' < PDX UTOP. pde u q i' = pde t q i') \<and>
     (\<forall>j < 1024. \<not> flag (pte u q i j) PTE_P)"
proof -
  let ?I = "\<lambda>ys u. (\<exists>fl'. freeing D R q s fl' u) \<and> (\<forall>i' < PDX UTOP. pde u q i' = pde t q i') \<and>
     (\<forall>j \<in> set ys. \<not> flag (pte u q i j) PTE_P)"
  have "\<exists>u. kfor (free_pte e (kva (PGNUM (pde t q i)) 0) i) (map of_nat [0..<1024]) t = Ret () u \<and>
      ?I (map of_nat [0..<1024]) u"
  proof (rule kfor_prefix_rule)
    show "?I [] t" using assms(1) by auto
    fix ys j zs u
    assume sp: "map of_nat [0..<1024] = ys @ j # zs" and I: "?I ys u"
    have all: "x < 1024" if "x \<in> set ys \<or> x = j" for x
      using that index_list unfolding sp by auto
    from I obtain fl' where fr: "freeing D R q s fl' u" by blast
    have pd: "pde u q i = pde t q i" using I assms(4) by blast
    then have fl: "flag (pde u q i) PTE_P" using assms(5) by simp
    from free_pte_step [OF fr assms(2-4) fl] all [of j]
    obtain v fl'' where v: "free_pte e (kva (PGNUM (pde u q i)) 0) i j u = Ret () v"
      "freeing D R q s fl'' v" "\<forall>i' < PDX UTOP. pde v q i' = pde u q i'"
      "\<not> flag (pte v q i j) PTE_P"
      "\<forall>j' < 1024. \<not> flag (pte u q i j') PTE_P \<longrightarrow> \<not> flag (pte v q i j') PTE_P" by blast
    have "?I (ys @ [j]) v" using v(2-5) I all by auto
    then show "\<exists>t'. free_pte e (kva (PGNUM (pde t q i)) 0) i j u = Ret () t' \<and> ?I (ys @ [j]) t'"
      using v(1) pd by auto
  qed
  then show ?thesis unfolding index_list by blast
qed

lemma KADDR_table:
  assumes "pt_shape D t" and "q \<in> D" and "i < PDX UTOP" and "flag (pde t q i) PTE_P"
  shows "KADDR (PTE_ADDR (pde t q i)) t = Ret (kva (PGNUM (pde t q i)) 0) t"
    and "npages u = npages t \<Longrightarrow> pa2page (PTE_ADDR (pde t q i)) u = Ret (PGNUM (pde t q i)) u"
proof -
  have "PGNUM (pde t q i) < npages t" by (rule pt_shape_table [OF assms])
  then show "KADDR (PTE_ADDR (pde t q i)) t = Ret (kva (PGNUM (pde t q i)) 0) t"
    "npages u = npages t \<Longrightarrow> pa2page (PTE_ADDR (pde t q i)) u = Ret (PGNUM (pde t q i)) u"
    by (simp_all add: KADDR_def pa2page_def kva_def page2pa_PGNUM PTE_ADDR_PGNUM PGNUM_push12
        PGNUM_less page2pa_def)
qed

lemma free_pde_step:
  assumes "freeing D R q s fl t" and "q \<in> D" and "env_pgdir (envs s e) = kva q 0"
    and "i < PDX UTOP"
  shows "\<exists>u fl'. free_pde e i t = Ret () u \<and> freeing D R q s fl' u \<and>
     (\<forall>i' < PDX UTOP. i' = i \<or> \<not> flag (pde t q i') PTE_P \<longrightarrow> \<not> flag (pde u q i') PTE_P)"
proof -
  have inv: "vm_inv D R fl t" and only: "vm_only s t" using assms(1) by (simp_all add: freeing_def)
  have sh: "pt_shape D t" by (rule vm_inv_shape [OF inv])
  have env: "envs t = envs s" using only by (simp add: vm_only_def)
  have ld: "kload t (kva q i) = pde t q i" by (simp add: pde_def)
  show ?thesis
  proof (cases "flag (pde t q i) PTE_P")
    case False
    then have "free_pde e i t = Ret () t" by (simp add: free_pde_def env assms(3) ld)
    then show ?thesis using assms(1) False by blast
  next
    case True
    let ?z = "PGNUM (pde t q i)"
    obtain u fl1 where loop: "kfor (free_pte e (kva ?z 0) i) (map of_nat [0..<1024]) t = Ret () u"
      and fr: "freeing D R q s fl1 u" and pdes: "\<forall>i' < PDX UTOP. pde u q i' = pde t q i'"
      and ptes: "\<forall>j < 1024. \<not> flag (pte u q i j) PTE_P"
      using free_ptes [OF assms True] by blast
    have inv1: "vm_inv D R fl1 u" and nl1: "no_leak fl1 u" and only1: "vm_only s u"
      using fr by (simp_all add: freeing_def)
    have np: "npages u = npages t" "envs u = envs s" using only only1 by (simp_all add: vm_only_def)
    have pu: "pde u q i = pde t q i" using pdes assms(4) by blast
    have fu: "flag (pde u q i) PTE_P" using True pu by simp
    let ?c = "kstore (kva q i) 0 u"
    let ?v = "drop_ref ?z ?c"
    note drop = vm_inv_drop_table [OF inv1 assms(2,4) fu ptes [rule_format], unfolded pu]
    have sh1: "pt_shape D u" by (rule vm_inv_shape [OF inv1])
    have "free_pde e i t = Ret () ?v"
      using True loop drop(1) KADDR_table(1) [OF sh assms(2,4) True] KADDR_table(2) [OF sh assms(2,4) True, of ?c] np
      by (simp add: free_pde_def env assms(3) ld)
    moreover have "no_leak (?z # fl1) ?v"
      using no_leak_drop_ref [of fl1 ?c ?z] nl1 drop(3) by (simp add: no_leak_same [of ?c u])
    moreover have "vm_only s ?v"
      using vm_only_trans [OF vm_only_trans [OF only1 vm_only_ops(1)] drop_ref_vm_only] .
    moreover have "vmap ?v q' va = vmap s q' va" if "q' \<in> D" "q' \<noteq> q" "va < UTOP" for q' va
      using vmap_clear_pde [OF sh1 assms(2,4) that(1,3) ptes [rule_format]] fr that
      by (simp add: vmap_phys [OF drop_ref_misc(1)] freeing_def)
    moreover have "same_words k s ?v" if "0 < R k" "k < npages s" for k
    proof -
      have ku: "k < npages u" using that(2) only1 by (simp add: vm_only_def)
      have "same_words k u ?c"
        by (rule same_words_kstore [OF dir_bound [OF sh1 assms(2)] upde_less [OF assms(4)]
              kernel_page_bound [OF inv1 ku] kernel_page(1) [OF inv1 that(1) assms(2)]])
      moreover have "same_words k ?c ?v" by (simp add: same_words_phys)
      moreover have "same_words k s u" using fr that by (simp add: freeing_def)
      ultimately show ?thesis by (metis same_words_trans)
    qed
    ultimately have "free_pde e i t = Ret () ?v" "freeing D R q s (?z # fl1) ?v"
      using drop(2) by (simp_all add: freeing_def)
    moreover have "\<not> flag (pde ?v q i') PTE_P"
      if "i' < PDX UTOP" "i' = i \<or> \<not> flag (pde t q i') PTE_P" for i'
      using that pde_clear [OF sh1 assms(2,4,2) that(1)] pdes by (auto simp: pde_cong [OF drop_ref_misc(1)])
    ultimately show ?thesis by blast
  qed
qed

lemma pde_list: "set (map of_nat [0..<unat (PDX UTOP)]) = {i. i < PDX UTOP}"
proof -
  have "i \<in> of_nat ` {0..<955}" if "unat i < 955" for i :: u32
    using that by (intro image_eqI [of _ _ "unat i"]) simp_all
  moreover have "unat (of_nat k :: u32) < 955" if "k < 955" for k
    using that by (simp add: unsigned_of_nat take_bit_nat_eq_self)
  ultimately show ?thesis by (auto simp: PDX_UTOP unat_mono_less)
qed

lemma free_pdes:
  assumes "freeing D R q s fl s" and "q \<in> D" and "env_pgdir (envs s e) = kva q 0"
  shows "\<exists>u fl'. kfor (free_pde e) (map of_nat [0..<unat (PDX UTOP)]) s = Ret () u \<and>
     freeing D R q s fl' u \<and> (\<forall>i < PDX UTOP. \<not> flag (pde u q i) PTE_P)"
proof -
  let ?I = "\<lambda>ys u. (\<exists>fl'. freeing D R q s fl' u) \<and> (\<forall>i \<in> set ys. \<not> flag (pde u q i) PTE_P)"
  have "\<exists>u. kfor (free_pde e) (map of_nat [0..<unat (PDX UTOP)]) s = Ret () u \<and>
      ?I (map of_nat [0..<unat (PDX UTOP)]) u"
  proof (rule kfor_prefix_rule)
    show "?I [] s" using assms(1) by auto
    fix ys i zs u
    assume sp: "map of_nat [0..<unat (PDX UTOP)] = ys @ i # zs" and I: "?I ys u"
    have all: "x < PDX UTOP" if "x \<in> set ys \<or> x = i" for x
      using that pde_list unfolding sp by auto
    from I obtain fl' where fr: "freeing D R q s fl' u" by blast
    from free_pde_step [OF fr assms(2,3)] all [of i] obtain v fl'' where
      "free_pde e i u = Ret () v" "freeing D R q s fl'' v"
      "\<forall>i' < PDX UTOP. i' = i \<or> \<not> flag (pde u q i') PTE_P \<longrightarrow> \<not> flag (pde v q i') PTE_P" by blast
    then show "\<exists>t. free_pde e i u = Ret () t \<and> ?I (ys @ [i]) t" using I all by auto
  qed
  then show ?thesis unfolding pde_list by blast
qed

section \<open>env_free\<close>

lemma PADDR_kva: "pt_shape D s \<Longrightarrow> q \<in> D \<Longrightarrow> PADDR (kva q 0) t = Ret (page2pa q) t"
  using PADDR_page2kva [of s q t] pt_shape_npages_ok pt_shape_dir by (simp add: kva_def)

lemma pa2page_dir:
  assumes "pt_shape D s" and "q \<in> D" and "npages t = npages s"
  shows "pa2page (page2pa q) t = Ret q t"
  using pt_shape_npages_ok [OF assms(1)] pt_shape_dir [OF assms(1,2)] assms(3)
  by (simp add: pa2page_def)

lemma env_free_ok:
  assumes "vm_inv D R fl s" and "no_leak fl s" and "q \<in> D" and "env_pgdir (envs s e) = kva q 0"
    and "\<not> kern_pgdir s < KERNBASE"
  obtains t fl' where "env_free e s = Ret () t" and "vm_inv (D - {q}) R fl' t" and "no_leak fl' t"
    and "\<And>q' va. q' \<in> D \<Longrightarrow> q' \<noteq> q \<Longrightarrow> va < UTOP \<Longrightarrow> vmap t q' va = vmap s q' va"
    and "envs t = (envs s)(e := (envs s e)\<lparr>env_pgdir := 0, env_status := ENV_FREE, env_link := env_free_list s\<rparr>)"
    and "env_free_list t = Some e" and "cpus t = cpus s" and "cpunum t = cpunum s"
    and "kernel_lock t = kernel_lock s" and "kern_pgdir t = kern_pgdir s" and "npages t = npages s"
    and "curenv s = Some e \<longrightarrow> cr3 t = kern_pgdir s - KERNBASE"
    and "\<And>k. 0 < R k \<Longrightarrow> k < npages s \<Longrightarrow> same_words k s t" and "cons t = cons s"
proof -
  define s0 where "s0 = (if curenv s = Some e then lcr3 (kern_pgdir s - KERNBASE) s else s)"
  define s1 where "s1 = kputs (''['' @ hex8 (cur_id s0) @ ''] free env '' @ hex8 (env_id (envs s0 e)) @ newline) s0"
  have head: "(if curenv s = Some e then kbind (PADDR (kern_pgdir s) s) (\<lambda>pa s. Ret () (lcr3 pa s))
      else Ret () s) = Ret () s0" using assms(5) by (simp add: s0_def PADDR_def)
  have same: "phys s1 = phys s" "pages s1 = pages s" "page_free_list s1 = page_free_list s"
    "npages s1 = npages s" "envs s1 = envs s" "env_free_list s1 = env_free_list s" "cpus s1 = cpus s"
    "cpunum s1 = cpunum s" "kernel_lock s1 = kernel_lock s" "kern_pgdir s1 = kern_pgdir s"
    "curenv s = Some e \<longrightarrow> cr3 s1 = kern_pgdir s - KERNBASE" "cons s1 = cons s"
    by (simp_all add: s1_def s0_def kops)
  have inv1: "vm_inv D R fl s1" using assms(1) by (simp add: vm_inv_cong [OF same(1-4)])
  have "freeing D R q s1 fl s1"
    using inv1 assms(2) by (simp add: freeing_def no_leak_same [OF same(2,4)])
  moreover have pg: "env_pgdir (envs s1 e) = kva q 0" using assms(4) same by simp
  ultimately obtain u fl1 where loop: "kfor (free_pde e) (map of_nat [0..<unat (PDX UTOP)]) s1 = Ret () u"
    and fr: "freeing D R q s1 fl1 u" and clr: "\<forall>i < PDX UTOP. \<not> flag (pde u q i) PTE_P"
    using free_pdes [OF _ assms(3)] by blast
  have inv2: "vm_inv D R fl1 u" and nl2: "no_leak fl1 u" and only: "vm_only s1 u"
    using fr by (simp_all add: freeing_def)
  have sh: "pt_shape D u" by (rule vm_inv_shape [OF inv2])
  have eu: "envs u = envs s" using only same by (simp add: vm_only_def)
  define v where "v = upd_env e (\<lambda>w. w\<lparr>env_pgdir := 0\<rparr>) u"
  have vs: "phys v = phys u" "pages v = pages u" "page_free_list v = page_free_list u" "npages v = npages u"
    by (simp_all add: v_def kops)
  have inv3: "vm_inv D R fl1 v" using inv2 by (simp add: vm_inv_cong [OF vs])
  have nl3: "no_leak fl1 v" using nl2 by (simp add: no_leak_same [OF vs(2,4)])
  have clr3: "\<And>i. i < PDX UTOP \<Longrightarrow> \<not> flag (pde v q i) PTE_P" using clr by (simp add: pde_cong [OF vs(1)])
  note drop = vm_inv_drop_dir [OF inv3 assms(3) clr3]
  define w where "w = drop_ref q v"
  define t where "t = env_list_push e (upd_env e (\<lambda>x. x\<lparr>env_status := ENV_FREE\<rparr>) w)"
  have ts: "phys t = phys w" "pages t = pages w" "page_free_list t = page_free_list w" "npages t = npages w"
    by (simp_all add: t_def env_list_push_def kops)
  have ow: "vm_only v w" unfolding w_def by (rule drop_ref_vm_only)
  have run: "env_free e s = Ret () t"
    unfolding env_free_def head kbind.simps Let_def s1_def [symmetric]
    using loop PADDR_kva [OF sh assms(3)] pa2page_dir [OF sh assms(3) vs(4)] drop(1) eu
    by (simp add: assms(4) v_def [symmetric] w_def [symmetric] t_def)
  show thesis
  proof (rule that [OF run])
    show "vm_inv (D - {q}) R (q # fl1) t" using drop(2) by (simp add: vm_inv_cong [OF ts] w_def)
    show "no_leak (q # fl1) t"
      using no_leak_drop_ref [OF nl3, of q] drop(3) by (simp add: no_leak_same [OF ts(2,4)] w_def)
    show "vmap t q' va = vmap s q' va" if "q' \<in> D" "q' \<noteq> q" "va < UTOP" for q' va
      using fr that by (simp add: vmap_phys [OF ts(1)] w_def vmap_phys [OF drop_ref_misc(1)]
          vmap_phys [OF vs(1)] freeing_def vmap_phys [OF same(1)])
    show "envs t = (envs s)(e := (envs s e)\<lparr>env_pgdir := 0, env_status := ENV_FREE, env_link := env_free_list s\<rparr>)"
      using ow only same by (auto simp: t_def env_list_push_def vm_only_def v_def kops)
    show "same_words k s t" if "0 < R k" "k < npages s" for k
    proof -
      have "same_words k s1 u" using fr that same(4) by (simp add: freeing_def)
      moreover have "same_words k s s1" by (rule same_words_phys [OF same(1)])
      moreover have "phys t = phys u" using ts(1) vs(1) by (simp add: w_def)
      ultimately show ?thesis by (blast intro: same_words_trans same_words_phys)
    qed
  qed (use ow only same in \<open>auto simp: t_def env_list_push_def vm_only_def v_def kops\<close>)
qed

end
