(* ===== verification/Env_Setup.thy ===== *)
theory Env_Setup
  imports Env_Ops Vm_Free
begin

text \<open>
  \<open>env_setup_vm\<close> and \<open>env_alloc\<close>: a new environment starts with an empty user address space, the
  kernel's entries copied from \<open>kern_pgdir\<close> and its own directory at \<open>UVPT\<close>; the reference counts
  stay exact and a failure changes nothing.
\<close>

section \<open>Changes confined to one page\<close>

definition confined :: "u32 \<Rightarrow> kstate \<Rightarrow> kstate \<Rightarrow> bool" where
  "confined z s t \<longleftrightarrow> (\<forall>a. PGNUM a \<noteq> z \<longrightarrow> phys t a = phys s a)"

lemma confined_kload:
  "confined z s t \<Longrightarrow> unat q < 0x10000 \<Longrightarrow> unat j < 1024 \<Longrightarrow> q \<noteq> z \<Longrightarrow>
   kload t (kva q j) = kload s (kva q j)"
  by (simp add: confined_def kload_def)

lemma confined_entries:
  assumes "pt_shape D s" and "refs D s z = {}" and "confined z s t" and "q \<in> D" and "i < PDX UTOP"
  shows "pde t q i = pde s q i"
    and "flag (pde s q i) PTE_P \<Longrightarrow> j < 1024 \<Longrightarrow> pte t q i j = pte s q i j"
proof -
  have "q \<noteq> z" using assms(2,4) by (auto simp: refs_def dest: spec [of _ "DirRef q"])
  then show pd: "pde t q i = pde s q i"
    using confined_kload [OF assms(3) dir_bound [OF assms(1,4)] upde_less [OF assms(5)]] by (simp add: pde_def)
  assume fl: "flag (pde s q i) PTE_P" and j: "j < 1024"
  then have "PGNUM (pde s q i) \<noteq> z"
    using assms(2,4,5) by (auto simp: refs_def dest: spec [of _ "TabRef q i"])
  then show "pte t q i j = pte s q i j"
    using confined_kload [OF assms(3) table_bound [OF assms(1,4,5) fl], of j] j
    by (simp add: pte_def pd word1024_less)
qed

lemma confined_refers:
  assumes "pt_shape D s" and "refs D s z = {}" and "confined z s t"
  shows "refers D t r p = refers D s r p"
  using confined_entries [OF assms] by (intro refers_cong) auto

lemma confined_vmap:
  assumes "pt_shape D s" and "refs D s z = {}" and "confined z s t" and "q \<in> D" and "va < UTOP"
  shows "vmap t q va = vmap s q va"
  using confined_entries [OF assms(1-4) PDX_user [OF assms(5)]] by (auto simp: vmap_def)

section \<open>Copying a page\<close>

lemma word_in_page_split:
  assumes "unat p < 0x10000" and "unat i < 1024"
  shows "PGOFF (page2pa p + 4 * i) = 4 * i" and "page2pa p OR 4 * i = page2pa p + 4 * i"
proof -
  have u: "unat (page2pa p + 4 * i) = unat p * 4096 + 4 * unat i"
    using assms by (intro unat_word_in_page) simp_all
  have "unat (4 * i) = 4 * unat i" using assms(2) by (simp add: unat_word_ariths)
  then show off: "PGOFF (page2pa p + 4 * i) = 4 * i"
    using assms(2) by (simp add: word_unat_eq_iff unat_PGOFF u)
  have "PGNUM (page2pa p + 4 * i) = p"
    using assms u by (simp add: word_unat_eq_iff unat_PGNUM)
  then have "PTE_ADDR (page2pa p + 4 * i) = page2pa p" by (metis page2pa_PGNUM)
  moreover have "PTE_ADDR a OR PGOFF a = a" for a
    by (simp add: PTE_ADDR_def PGOFF_def bit.conj_disj_distrib [symmetric])
  ultimately show "page2pa p OR 4 * i = page2pa p + 4 * i" using off by metis
qed

lemma kload_kcopy_page:
  assumes "unat q < 0x10000" and "unat k < 0x10000" and "unat i < 1024"
  shows "kload (kcopy_page (kva q 0) (kva k 0) s) (kva q i) = kload s (kva k i)"
proof -
  have "PTE_ADDR (kva k 0 - KERNBASE) = page2pa k"
    using PGNUM_kva [of k 0] assms(2) by (metis page2pa_PGNUM unat_0 zero_less_numeral)
  then have "PTE_ADDR (kva k 0 - KERNBASE) OR PGOFF (kva q i - KERNBASE) = kva k i - KERNBASE"
    using word_in_page_split(1) [OF assms(1,3)] word_in_page_split(2) [OF assms(2,3)]
    by (simp add: kva_offset)
  moreover have "PGNUM (kva q i - KERNBASE) = PGNUM (kva q 0 - KERNBASE)"
    using assms by simp
  ultimately show ?thesis by (simp add: kload_def kcopy_page_def)
qed

section \<open>env_setup_vm\<close>

definition setup_state :: "nat \<Rightarrow> u32 \<Rightarrow> kstate \<Rightarrow> kstate" where
  "setup_state e q s =
     (let s1 = upd_env e (\<lambda>v. v\<lparr>env_pgdir := kva q 0\<rparr>)
                 (upd_page q (\<lambda>i. i\<lparr>pp_ref := pp_ref i + 1\<rparr>) (alloc_state ALLOC_ZERO q s))
      in kstore (kva q (PDX UVPT)) (page2pa q OR PTE_P OR PTE_U) (kcopy_page (kva q 0) (kern_pgdir s) s1))"

lemma setup_state_fields:
  assumes "free_ok (q # fl) s"
  shows "npages (setup_state e q s) = npages s" "kern_pgdir (setup_state e q s) = kern_pgdir s"
    "envs (setup_state e q s) = (envs s)(e := (envs s e)\<lparr>env_pgdir := kva q 0\<rparr>)"
    "env_free_list (setup_state e q s) = env_free_list s" "cpus (setup_state e q s) = cpus s"
    "cpunum (setup_state e q s) = cpunum s" "kernel_lock (setup_state e q s) = kernel_lock s"
    "conout (setup_state e q s) = conout s" "cr3 (setup_state e q s) = cr3 s"
    "pp_ref (pages (setup_state e q s) p) = (if p = q then 1 else pp_ref (pages s p))"
    "free_ok fl (setup_state e q s)" "cons (setup_state e q s) = cons s"
proof -
  note a = alloc_state_facts [OF assms]
  show "npages (setup_state e q s) = npages s" "kern_pgdir (setup_state e q s) = kern_pgdir s"
    "envs (setup_state e q s) = (envs s)(e := (envs s e)\<lparr>env_pgdir := kva q 0\<rparr>)"
    "env_free_list (setup_state e q s) = env_free_list s" "cpus (setup_state e q s) = cpus s"
    "cpunum (setup_state e q s) = cpunum s" "kernel_lock (setup_state e q s) = kernel_lock s"
    "conout (setup_state e q s) = conout s" "cr3 (setup_state e q s) = cr3 s"
    "cons (setup_state e q s) = cons s"
    using a(2) [of ALLOC_ZERO] by (simp_all add: setup_state_def Let_def vm_only_def kops)
  show "pp_ref (pages (setup_state e q s) p) = (if p = q then 1 else pp_ref (pages s p))"
    using a(5) a(6) [of ALLOC_ZERO] by (simp add: setup_state_def Let_def kops)
  have "free_ok fl (upd_page q (\<lambda>i. i\<lparr>pp_ref := pp_ref i + 1\<rparr>) (alloc_state ALLOC_ZERO q s))"
    by (rule free_ok_upd_ref [OF a(1) a(4)])
  then show "free_ok fl (setup_state e q s)"
    by (subst free_ok_same [where s = "upd_page q (\<lambda>i. i\<lparr>pp_ref := pp_ref i + 1\<rparr>) (alloc_state ALLOC_ZERO q s)"])
      (simp_all add: setup_state_def Let_def kops)
qed

lemma setup_state_confined:
  assumes "free_ok (q # fl) s"
  shows "confined q s (setup_state e q s)"
proof -
  have "npages_ok s" "q < npages s" using assms by (simp_all add: free_ok_def)
  then have q: "unat q < 0x10000" by (rule page_bound)
  have hd: "page_free_list s = Some q" using assms by (auto simp: free_ok_def dest: pl.elems_head)
  have "PGNUM (kva q (PDX UVPT) - KERNBASE) = q" "PGNUM (kva q 0 - KERNBASE) = q"
    using q PDX_less by simp_all
  then show ?thesis
    unfolding confined_def setup_state_def Let_def alloc_state_def
    by (auto simp: kops page_list_pop_eq [OF hd])
qed

lemma PDX_UVPT: "PDX UVPT = 957"
  by (simp add: PDX_def jos_consts)

lemma setup_state_pde:
  assumes "free_ok (q # fl) s" and "kern_pgdir s = kva k 0" and "k < npages s" and "k \<noteq> q"
    and "unat i < 1024"
  shows "pde (setup_state e q s) q i = (if i = PDX UVPT then page2pa q OR PTE_P OR PTE_U else pde s k i)"
proof -
  have "npages_ok s" "q < npages s" using assms(1) by (simp_all add: free_ok_def)
  then have b: "unat q < 0x10000" "unat k < 0x10000" using page_bound assms(3) by blast+
  let ?s1 = "upd_env e (\<lambda>v. v\<lparr>env_pgdir := kva q 0\<rparr>)
                 (upd_page q (\<lambda>i. i\<lparr>pp_ref := pp_ref i + 1\<rparr>) (alloc_state ALLOC_ZERO q s))"
  have "kload ?s1 (kva k i) = kload (alloc_state ALLOC_ZERO q s) (kva k i)" by (simp add: kops)
  also have "\<dots> = kload s (kva k i)"
    using kload_alloc_state [OF assms(1) b(2) assms(5)] assms(4) by simp
  finally have "kload (kcopy_page (kva q 0) (kva k 0) ?s1) (kva q i) = pde s k i"
    using kload_kcopy_page [OF b assms(5)] by (simp add: pde_def)
  then show ?thesis
    using kload_kstore_kva [OF b(1) _ b(1) assms(5), of "PDX UVPT"] PDX_less [of UVPT]
    by (simp add: setup_state_def Let_def pde_def assms(2))
qed

lemma setup_frames:
  "envs (upd_env e f s) = (envs s)(e := f (envs s e))" "kern_pgdir (upd_env e f s) = kern_pgdir s"
  "kern_pgdir (upd_page p g s) = kern_pgdir s" "envs (kcopy_page a b s) = envs s"
  by (simp_all add: kops)

lemma env_setup_vm_eq:
  assumes "free_ok (q # fl) s"
  shows "env_setup_vm e s = Ret (Inr ()) (setup_state e q s)"
proof -
  note a = alloc_state_facts [OF assms]
  have ok: "npages_ok s" "q < npages s" using assms by (simp_all add: free_ok_def)
  have np: "npages (alloc_state ALLOC_ZERO q s) = npages s" "kern_pgdir (alloc_state ALLOC_ZERO q s) = kern_pgdir s"
    using a(2) [of ALLOC_ZERO] by (simp_all add: vm_only_def)
  let ?s1 = "upd_page q (\<lambda>i. i\<lparr>pp_ref := pp_ref i + 1\<rparr>) (alloc_state ALLOC_ZERO q s)"
  have "page2kva q ?s1 = Ret (kva q 0) ?s1"
    using page2kva_valid [of ?s1 q] ok np by (simp add: npages_ok_def kva_def)
  moreover have "PADDR (kva q 0) t = Ret (page2pa q) t" for t
    using PADDR_page2kva [OF ok] by (simp add: kva_def)
  ultimately show ?thesis
    using np by (simp add: env_setup_vm_def page_alloc_Some [OF assms] setup_state_def Let_def setup_frames)
qed

lemma refers_insert:
  assumes "\<And>i. i < PDX UTOP \<Longrightarrow> \<not> flag (pde t q i) PTE_P"
  shows "refers (insert q D) t r p \<longleftrightarrow> r = DirRef q \<and> p = q \<or> refers D t r p"
  using assms by (cases r) auto

text \<open>The directory of the kernel is a page of the machine whose user entries are empty.\<close>

definition kern_dir_ok :: "u32 \<Rightarrow> kstate \<Rightarrow> bool" where
  "kern_dir_ok k s \<longleftrightarrow> kern_pgdir s = kva k 0 \<and> k < npages s \<and>
     (\<forall>i < PDX UTOP. \<not> flag (pde s k i) PTE_P)"

lemma kern_dir_confined:
  assumes "kern_dir_ok k s" and "confined z s t" and "k \<noteq> z" and "npages_ok s"
    and "npages t = npages s" and "kern_pgdir t = kern_pgdir s"
  shows "kern_dir_ok k t"
proof -
  have "unat k < 0x10000" using assms(1,4) page_bound by (auto simp: kern_dir_ok_def)
  then have "pde t k i = pde s k i" if "i < PDX UTOP" for i
    using confined_kload [OF assms(2) _ upde_less [OF that] assms(3)] by (simp add: pde_def)
  then show ?thesis using assms by (simp add: kern_dir_ok_def)
qed

lemma setup_state_inv:
  assumes "vm_inv D R (q # fl) s" and "kern_dir_ok k s" and "k \<noteq> q"
  shows "vm_inv (insert q D) R fl (setup_state e q s)"
    and "q' \<in> D \<Longrightarrow> va < UTOP \<Longrightarrow> vmap (setup_state e q s) q' va = vmap s q' va"
    and "va < UTOP \<Longrightarrow> vmap (setup_state e q s) q va = None"
    and "kern_dir_ok k (setup_state e q s)"
    and "q \<notin> D"
proof -
  let ?t = "setup_state e q s"
  have fr: "free_ok (q # fl) s" and sh: "pt_shape D s" using assms(1) by (simp_all add: vm_inv_def)
  note f = setup_state_fields [OF fr] and cf = setup_state_confined [OF fr, of e]
  note z = vm_inv_free_page [OF assms(1), of q, simplified]
  note ref = confined_refers [OF sh z(2) cf]
  have empty: "\<not> flag (pde ?t q i) PTE_P" if "i < PDX UTOP" for i
    using setup_state_pde [OF fr _ _ assms(3) upde_less [OF that]] assms(2) that
    by (auto simp: kern_dir_ok_def PDX_UTOP PDX_UVPT)
  note ins = refers_insert [OF empty]
  have nq: "\<not> refers D s r q" for r using z(2) by (auto simp: refs_def)
  then show qD: "q \<notin> D" by (metis refers.simps(1))
  have shape: "pt_shape (insert q D) ?t"
    unfolding pt_shape_def
  proof (intro conjI allI impI)
    show "npages_ok ?t" using pt_shape_npages_ok [OF sh] f(1) by (simp add: npages_ok_def)
    show "p < npages ?t" if "refers (insert q D) ?t r p" for r p
      using that z(1) pt_shape_valid [OF sh, of r p] by (auto simp: ins ref f(1))
    show "r' = r" if "refers (insert q D) ?t r p" "is_table r" "refers (insert q D) ?t r' p" for r r' p
      using that nq pt_shape_sole [OF sh, of r p r'] by (auto simp: ins ref)
    fix x y w assume "refers (insert q D) ?t (TabRef x y) (PGNUM (pde ?t x y))" and w: "(w::u32) < 1024"
    then have t: "refers D s (TabRef x y) (PGNUM (pde ?t x y))" by (simp add: ins ref del: refers.simps)
    then show "pte ?t x y w = 0 \<or> flag (pte ?t x y w) PTE_P"
      using confined_entries [OF sh z(2) cf, of x y] pt_shape_pte [OF sh, of x y w] w by auto
  qed
  have "unat (pp_ref (pages ?t p)) = R p + card (refs (insert q D) ?t p)" if "p < npages s" for p
  proof -
    have "refs (insert q D) ?t p = (if p = q then {DirRef q} else refs D s p)"
      using nq by (auto simp: refs_def ins ref)
    then show ?thesis using vm_inv_count [OF assms(1) that] z(3) by (simp add: f)
  qed
  moreover have "R p = 0" if "refers (insert q D) ?t r p" "is_table r" for r p
    using that z(3) vm_inv_table [OF assms(1), of r p] by (auto simp: ins ref)
  ultimately show "vm_inv (insert q D) R fl ?t" using shape f by (simp add: vm_inv_def)
  show "q' \<in> D \<Longrightarrow> va < UTOP \<Longrightarrow> vmap ?t q' va = vmap s q' va"
    by (rule confined_vmap [OF sh z(2) cf])
  show "va < UTOP \<Longrightarrow> vmap ?t q va = None"
    using empty [OF PDX_user] by (simp add: vmap_def)
  show "kern_dir_ok k ?t"
    by (rule kern_dir_confined [OF assms(2) cf assms(3) pt_shape_npages_ok [OF sh] f(1,2)])
qed

section \<open>env_alloc\<close>

definition new_env :: "u32 \<Rightarrow> nat \<Rightarrow> Env \<Rightarrow> Env" where
  "new_env parent_id e v = v\<lparr>env_id := next_env_id (env_id v) e, env_parent_id := parent_id,
     env_type := ENV_TYPE_USER, env_status := ENV_RUNNABLE, env_runs := 0, env_tf := init_tf,
     env_pgfault_upcall := 0, env_ipc_recving := False\<rparr>"

text \<open>What the creation of the directory in page \<open>q\<close> changes outside the environments.\<close>

definition dir_made :: "u32 \<Rightarrow> kstate \<Rightarrow> kstate \<Rightarrow> bool" where
  "dir_made q s t \<longleftrightarrow> confined q s t \<and> cr3 t = cr3 s \<and> npages t = npages s \<and>
     (\<forall>p. pp_ref (pages t p) = (if p = q then 1 else pp_ref (pages s p)))"

lemma env_alloc_ok:
  assumes "vm_inv D R (q # fl) s" and "env_free_list s = Some e" and "kern_dir_ok k s" and "k \<noteq> q"
  obtains t where "env_alloc parent s = Ret (Inr e) t" and "vm_inv (insert q D) R fl t" and "q \<notin> D"
    and "envs t = (envs s)(e := new_env parent e ((envs s e)\<lparr>env_pgdir := kva q 0\<rparr>))"
    and "\<And>q' va. q' \<in> D \<Longrightarrow> va < UTOP \<Longrightarrow> vmap t q' va = vmap s q' va"
    and "\<And>va. va < UTOP \<Longrightarrow> vmap t q va = None"
    and "env_free_list t = env_link (envs s e)" and "cpus t = cpus s" and "cpunum t = cpunum s"
    and "kernel_lock t = kernel_lock s" and "kern_dir_ok k t" and "npages t = npages s"
    and "\<And>p. pp_ref (pages t p) = (if p = q then 1 else pp_ref (pages s p))" and "cr3 t = cr3 s"
    and "cons t = cons s" and "dir_made q s t"
proof -
  let ?u = "setup_state e q s"
  have fr: "free_ok (q # fl) s" using assms(1) by (simp add: vm_inv_def)
  note f = setup_state_fields [OF fr] and inv = setup_state_inv [OF assms(1,3,4)]
  have eq: "env_setup_vm e s = Ret (Inr ()) ?u" by (rule env_setup_vm_eq [OF fr])
  define t where "t = final (env_alloc parent s)"
  have run: "env_alloc parent s = Ret (Inr e) t"
    using eq by (simp add: env_alloc_def assms(2) Let_def t_def)
  have ts: "phys t = phys ?u" "pages t = pages ?u" "page_free_list t = page_free_list ?u" "npages t = npages ?u"
    "kern_pgdir t = kern_pgdir ?u" "cpus t = cpus ?u" "cpunum t = cpunum ?u" "kernel_lock t = kernel_lock ?u"
    "cr3 t = cr3 ?u" "cons t = cons ?u"
    "envs t = (envs s)(e := new_env parent e ((envs s e)\<lparr>env_pgdir := kva q 0\<rparr>))"
    "env_free_list t = env_link (envs s e)"
    using eq by (simp_all add: t_def env_alloc_def assms(2) Let_def kops f new_env_def)
  show thesis
  proof (rule that [OF run])
    show "vm_inv (insert q D) R fl t" using inv(1) by (simp add: vm_inv_cong [OF ts(1-4)])
    show "q \<notin> D" by (rule inv(5))
    show "kern_dir_ok k t" using inv(4) ts by (simp add: kern_dir_ok_def pde_cong [OF ts(1)])
    show "dir_made q s t" using setup_state_confined [OF fr, of e] ts f by (simp add: dir_made_def confined_def)
  qed (use ts f inv(2,3) in \<open>simp_all add: vmap_phys [OF ts(1)]\<close>)
qed

lemma env_alloc_no_mem:
  assumes "free_ok [] s" and "env_free_list s = Some e"
  shows "env_alloc parent s = Ret (Inl E_NO_MEM) s"
  using assms by (simp add: env_alloc_def env_setup_vm_def page_alloc_None)

end
