(* ===== verification/Env_Id.thy ===== *)
theory Env_Id
  imports Env_Ops
begin

text \<open>
  Environment identifiers: what \<open>env_alloc\<close> generates, why a stale identifier is not accepted
  by \<open>envid2env\<close>, and how long it takes until a slot's identifiers repeat.
\<close>

section \<open>Arithmetic of identifiers\<close>

lemma mask10: "(0x3FF::u32) = mask 10" by (simp add: mask_eq_decr_exp)

lemma unat_clear10: "unat ((x::u32) AND NOT 0x3FF) = unat x div 1024 * 1024"
proof -
  have "x AND NOT 0x3FF = push_bit 10 (drop_bit 10 x)"
    unfolding mask10 by (rule bit_word_eqI) (auto simp: bit_simps)
  moreover have "unat (drop_bit 10 x) = unat x div 1024"
    by (simp add: drop_bit_eq_div unat_div_distrib)
  moreover have "unat x div 1024 * 1024 < 2 ^ 32" using unsigned_less [of x, where ?'a = nat] by simp
  ultimately show ?thesis by (simp add: push_bit_eq_mult unat_word_ariths)
qed

lemma unat_low10: "unat ((x::u32) AND 0x3FF) = unat x mod 1024"
  by (simp add: and_mask10 unat_mod_distrib)

lemma ENVX_eq: "ENVX x = unat x mod 1024"
  by (simp add: ENVX_def jos_consts unat_low10)

lemma ENVX_less: "ENVX x < NENV"
  by (simp add: ENVX_eq jos_consts)

lemma unat_or_low:
  assumes "unat (x::u32) mod 1024 = 0" and "e < 1024"
  shows "unat (x OR of_nat e) = unat x + e"
proof -
  have ue: "unat (of_nat e :: u32) = e" using assms(2) by (simp add: unsigned_of_nat take_bit_nat_eq_self)
  have "x AND of_nat e = 0"
  proof (rule bit_word_eqI)
    fix n assume "n < LENGTH(32)"
    have lo: "\<not> bit x n" if "n < 10"
    proof -
      have "take_bit 10 (unat x) = 0" using assms(1) by (simp add: take_bit_eq_mod)
      then have "\<not> bit (unat x) n" using that by (metis bit_0_eq bit_take_bit_iff bot_apply bot_bool_def)
      then show ?thesis by (simp add: bit_unsigned_iff \<open>n < LENGTH(32)\<close>)
    qed
    have hi: "\<not> bit (of_nat e :: u32) n" if "10 \<le> n"
    proof -
      have "take_bit 10 e = e" using assms(2) by (simp add: take_bit_nat_eq_self)
      then have "\<not> bit e n" using that by (metis bit_take_bit_iff leD)
      then show ?thesis by (simp add: bit_of_nat_iff_bit bit_simps)
    qed
    show "bit (x AND of_nat e) n = bit 0 n" using lo hi by (cases "n < 10") (auto simp: bit_simps not_less)
  qed
  then have "x OR of_nat e = x + of_nat e" by (metis disjunctive_add bit_and_iff bit_0_eq bot_apply bot_bool_def)
  moreover have "unat x + e < 2 ^ 32"
  proof -
    have "unat x < 2 ^ 32" using unsigned_less [of x, where ?'a = nat] by simp
    moreover from assms(1) obtain k where "unat x = 1024 * k" by (auto simp: mod_eq_0_iff_dvd)
    ultimately show ?thesis using assms(2) by simp
  qed
  ultimately show ?thesis by (simp add: unat_word_ariths ue)
qed

lemma sint_pos: "0 < sint (x::u32) \<longleftrightarrow> x \<noteq> 0 \<and> unat x < 2 ^ 31"
proof -
  define n where "n = unat x"
  have ux: "uint x = int n" by (simp add: n_def)
  have lt: "n < 2 ^ 32" using unsigned_less [of x, where ?'a = nat] by (simp add: n_def)
  have x0: "x = 0 \<longleftrightarrow> n = 0" by (simp add: n_def unat_eq_zero)
  have s: "sint x = (int n + 2 ^ 31) mod 2 ^ 32 - 2 ^ 31"
    unfolding sint_uint ux by (simp add: signed_take_bit_eq_take_bit_shift take_bit_eq_mod)
  show ?thesis
  proof (cases "n < 2 ^ 31")
    case True
    then have "(int n + 2 ^ 31) mod 2 ^ 32 = int n + 2 ^ 31" by (intro mod_pos_pos_trivial) simp_all
    then have "sint x = int n" using s by simp
    then show ?thesis using True x0 by (simp add: n_def [symmetric])
  next
    case False
    then have "(int n + 2 ^ 31 - 2 ^ 32) mod 2 ^ 32 = int n + 2 ^ 31 - 2 ^ 32"
      using lt by (intro mod_pos_pos_trivial) simp_all
    then have "sint x = int n - 2 ^ 32" using s by (simp only: minus_mod_self2)
    then show ?thesis using False lt by (simp add: n_def [symmetric])
  qed
qed

text \<open>
  The identifier of slot \<open>e\<close> in generation \<open>g\<close> is \<open>g * 4096 + e\<close>; generations run from 1 to
  524287 and start over at 1.
\<close>

definition nth_env_id :: "nat \<Rightarrow> nat \<Rightarrow> u32" where
  "nth_env_id g e = of_nat (g * 4096 + e)"

lemma unat_nth_env_id: "g < 0x100000 \<Longrightarrow> e < 1024 \<Longrightarrow> unat (nth_env_id g e) = g * 4096 + e"
  unfolding nth_env_id_def
  by (simp add: unsigned_of_nat take_bit_nat_eq_self del: of_nat_add of_nat_mult)

lemma clear_low: "e < 1024 \<Longrightarrow> (g * 4096 + e + 4096) div 1024 * 1024 = g * 4096 + 4096" for e g :: nat
proof -
  assume "e < 1024"
  have "g * 4096 + e + 4096 = e + (g * 4 + 4) * 1024" by simp
  then have "(g * 4096 + e + 4096) div 1024 = e div 1024 + (g * 4 + 4)" by (metis div_mult_self1 zero_neq_numeral add.commute)
  with \<open>e < 1024\<close> show ?thesis by simp
qed

lemma low_mod: "e < 1024 \<Longrightarrow> (g * 4096 + e) mod 1024 = e" for e g :: nat
proof -
  assume "e < 1024"
  have "(g * 4096 + e) mod 1024 = (e + (g * 4) * 1024) mod 1024" by (simp add: algebra_simps)
  with \<open>e < 1024\<close> show ?thesis by (simp only: mod_mult_self1 mod_less)
qed

lemma next_env_id_generation:
  assumes "e < NENV" and "unat old = g * 4096 + (if g = 0 then r else e)" and "g < 524288" and "r < 1024"
  shows "next_env_id old e = nth_env_id (if g = 524287 then 1 else Suc g) e"
proof -
  let ?gen = "(old + push_bit ENVGENSHIFT 1) AND NOT (of_nat NENV - 1)"
  have e: "e < 1024" using assms(1) by (simp add: jos_consts)
  have c: "push_bit ENVGENSHIFT 1 = (4096::u32)" "of_nat NENV - 1 = (0x3FF::u32)"
    by (simp_all add: jos_consts)
  have "unat (old + 4096) = unat old + 4096"
    using assms e by (simp add: unat_word_ariths split: if_splits)
  then have gen: "unat ?gen = Suc g * 4096"
    unfolding c unat_clear10 using assms(2,4) e clear_low [of e g] clear_low [of r g]
    by (auto split: if_splits)
  have pos: "0 < sint ?gen \<longleftrightarrow> g \<noteq> 524287"
    using gen assms(3) by (auto simp: sint_pos word_unat_eq_iff)
  let ?gen' = "if sint ?gen \<le> 0 then push_bit ENVGENSHIFT 1 else ?gen"
  have gen': "unat ?gen' = (if g = 524287 then 1 else Suc g) * 4096"
    using gen pos c by (auto simp: not_less [symmetric])
  have "unat (?gen' OR of_nat e) = (if g = 524287 then 1 else Suc g) * 4096 + e"
    using unat_or_low [OF _ e, of ?gen'] gen' by (simp add: mod_mult_right_eq)
  also have "\<dots> = unat (nth_env_id (if g = 524287 then 1 else Suc g) e)"
    using assms(3) e by (simp add: unat_nth_env_id)
  finally have "?gen' OR of_nat e = nth_env_id (if g = 524287 then 1 else Suc g) e"
    by (simp only: word_unat_eq_iff)
  then show ?thesis by (simp only: next_env_id_def Let_def)
qed

lemma next_env_id_first: "e < NENV \<Longrightarrow> next_env_id 0 e = nth_env_id 1 e"
  using next_env_id_generation [of e 0 0 0] by simp

lemma next_env_id_nth:
  "e < NENV \<Longrightarrow> g < 524288 \<Longrightarrow> 0 < g \<Longrightarrow>
   next_env_id (nth_env_id g e) e = nth_env_id (if g = 524287 then 1 else Suc g) e"
  using next_env_id_generation [of e "nth_env_id g e" g 0]
  by (simp add: unat_nth_env_id jos_consts)

text \<open>\<open>k\<close> reuses of the slot later.\<close>

lemma env_id_iterate:
  assumes "e < NENV"
  shows "((\<lambda>x. next_env_id x e) ^^ k) (next_env_id 0 e) = nth_env_id (Suc (k mod 524287)) e"
proof (induction k)
  case 0
  then show ?case using next_env_id_first [OF assms] by simp
next
  case (Suc k)
  have "k mod 524287 < 524287" by simp
  then have "next_env_id (nth_env_id (Suc (k mod 524287)) e) e =
      nth_env_id (if Suc (k mod 524287) = 524287 then 1 else Suc (Suc (k mod 524287))) e"
    by (intro next_env_id_nth [OF assms]) simp_all
  moreover have "Suc k mod 524287 = (if Suc (k mod 524287) = 524287 then 0 else Suc (k mod 524287))"
    by (rule mod_Suc)
  ultimately show ?case using Suc.IH by simp
qed

lemma env_id_shape:
  assumes "e < NENV" and "0 < g" and "g < 524288"
  shows "ENVX (nth_env_id g e) = e" and "0 < sint (nth_env_id g e)"
  using assms by (simp_all add: ENVX_eq unat_nth_env_id sint_pos word_unat_eq_iff jos_consts low_mod)

section \<open>Properties\<close>

text \<open>
  C20: the identifiers a slot goes through are positive, carry the slot number in their low ten
  bits, and repeat only after 524287 reuses of the slot: two of them are equal exactly if the
  numbers of reuses agree modulo 524287.
\<close>

theorem env_ids_of_a_slot:
  assumes "e < NENV"
  shows "0 < sint (((\<lambda>x. next_env_id x e) ^^ j) (next_env_id 0 e)) \<and>
     ENVX (((\<lambda>x. next_env_id x e) ^^ j) (next_env_id 0 e)) = e \<and>
     (((\<lambda>x. next_env_id x e) ^^ j) (next_env_id 0 e) = ((\<lambda>x. next_env_id x e) ^^ k) (next_env_id 0 e)
        \<longleftrightarrow> j mod 524287 = k mod 524287)"
proof -
  have g: "0 < Suc (n mod 524287)" "Suc (n mod 524287) < 524288" for n
    using mod_less_divisor [of 524287 n] by simp_all
  have e: "e < 1024" using assms by (simp add: jos_consts)
  have "nth_env_id (Suc (j mod 524287)) e = nth_env_id (Suc (k mod 524287)) e
      \<longleftrightarrow> j mod 524287 = k mod 524287"
    using g [of j] g [of k] e by (simp add: word_unat_eq_iff unat_nth_env_id)
  then show ?thesis
    unfolding env_id_iterate [OF assms] using env_id_shape [OF assms g] by blast
qed

theorem env_ids_of_a_slot_witness:
  "next_env_id (next_env_id 0 5) 5 \<noteq> next_env_id 0 5 \<and> ENVX (next_env_id (next_env_id 0 5) 5) = 5"
proof -
  have "(5::nat) < NENV" by (simp add: jos_consts)
  from env_ids_of_a_slot [OF this, of 1 0] show ?thesis by simp
qed

text \<open>
  C21: if every slot in use carries an identifier with its own slot number, then for a running
  environment \<open>c\<close> the call \<open>envid2env\<close> never faults and succeeds exactly for the current
  environment (\<open>envid = 0\<close>) and for the environment in use that has this identifier, provided
  (when permission is checked) it is \<open>c\<close> itself or a child of \<open>c\<close>; in all other cases it
  returns \<open>-E_BAD_ENV\<close>, and it changes nothing.
\<close>

theorem envid2env_exact:
  assumes "\<forall>i < NENV. env_status (envs s i) \<noteq> ENV_FREE \<longrightarrow> ENVX (env_id (envs s i)) = i"
    and "curenv s = Some c"
  shows "\<exists>r. envid2env envid checkperm s = Ret r s \<and>
     (r = Inl E_BAD_ENV \<or> (\<exists>e. r = Inr (Some e))) \<and>
     (\<forall>e. r = Inr (Some e) \<longleftrightarrow>
        (if envid = 0 then e = c
         else e < NENV \<and> env_status (envs s e) \<noteq> ENV_FREE \<and> env_id (envs s e) = envid \<and>
           (checkperm \<longrightarrow> e = c \<or> env_parent_id (envs s e) = env_id (envs s c))))"
proof (cases "envid = 0")
  case True
  then show ?thesis using assms(2) by (auto simp: envid2env_def)
next
  case False
  let ?e = "ENVX envid"
  let ?ok = "\<lambda>e. env_status (envs s e) \<noteq> ENV_FREE \<and> env_id (envs s e) = envid \<and>
      (checkperm \<longrightarrow> e = c \<or> env_parent_id (envs s e) = env_id (envs s c))"
  have key: "(e < NENV \<and> ?ok e) \<longleftrightarrow> (?ok ?e \<and> e = ?e)" for e
  proof
    assume "e < NENV \<and> ?ok e"
    moreover from this have "ENVX (env_id (envs s e)) = e" using assms(1) [rule_format, of e] by simp
    ultimately show "?ok ?e \<and> e = ?e" by simp
  next
    assume "?ok ?e \<and> e = ?e"
    then show "e < NENV \<and> ?ok e" using ENVX_less [of envid] by simp
  qed
  define r where "r = (if ?ok ?e then Inr (Some ?e) else Inl E_BAD_ENV :: jerror + nat option)"
  have run: "envid2env envid checkperm s = Ret r s"
    using False assms(2) by (simp add: envid2env_def Let_def r_def)
  have iff: "r = Inr (Some e) \<longleftrightarrow> e < NENV \<and> ?ok e" for e
    unfolding key by (auto simp: r_def)
  have "r = Inl E_BAD_ENV \<or> (\<exists>e. r = Inr (Some e))" by (simp add: r_def)
  then show ?thesis using run iff False by (intro exI [of _ r]) simp
qed

definition one_env :: kstate where
  "one_env = bss_state\<lparr>envs := (\<lambda>_. zero_env)(0 := zero_env\<lparr>env_id := 0x1000, env_status := ENV_RUNNING\<rparr>),
     cpus := (\<lambda>_. zero_cpu\<lparr>cpu_env := Some 0\<rparr>)\<rparr>"

theorem envid2env_exact_witness:
  "envid2env 0x1000 True one_env = Ret (Inr (Some 0)) one_env \<and>
   envid2env 0x2000 True one_env = Ret (Inl E_BAD_ENV) one_env"
proof -
  have ids: "\<forall>i < NENV. env_status (envs one_env i) \<noteq> ENV_FREE \<longrightarrow> ENVX (env_id (envs one_env i)) = i"
    by (simp add: one_env_def zero_env_def ENVX_eq)
  have cur: "curenv one_env = Some 0" by (simp add: curenv_def one_env_def bss_state_def)
  have "env_id (envs one_env i) = (if i = 0 then 0x1000 else 0)"
    "env_status (envs one_env i) = (if i = 0 then ENV_RUNNING else ENV_FREE)" for i
    by (simp_all add: one_env_def zero_env_def)
  note st = this
  obtain r where r: "envid2env 0x1000 True one_env = Ret r one_env"
    "\<And>e. r = Inr (Some e) \<longleftrightarrow> e < NENV \<and> env_status (envs one_env e) \<noteq> ENV_FREE \<and>
       env_id (envs one_env e) = 0x1000 \<and> (e = 0 \<or> env_parent_id (envs one_env e) = env_id (envs one_env 0))"
    using envid2env_exact [OF ids cur, of "0x1000" True] by auto
  obtain q where q: "envid2env 0x2000 True one_env = Ret q one_env"
    "q = Inl E_BAD_ENV \<or> (\<exists>e. q = Inr (Some e))"
    "\<And>e. q = Inr (Some e) \<Longrightarrow> env_id (envs one_env e) = 0x2000"
    using envid2env_exact [OF ids cur, of "0x2000" True] by auto
  have "r = Inr (Some 0)" unfolding r(2) by (simp add: st jos_consts)
  moreover have "q = Inl E_BAD_ENV" using q(2,3) by (auto simp: st split: if_splits)
  ultimately show ?thesis using r(1) q(1) by simp
qed

end
