(* ===== verification/Sched_Spec.thy ===== *)
theory Sched_Spec
  imports Env_Id
begin

text \<open>
  Switching to an environment and the round-robin scheduler: what \<open>env_run\<close> leaves behind,
  which environment \<open>sched_yield\<close> chooses, and that no runnable environment is passed over
  forever.
\<close>

section \<open>env_run\<close>

definition suspend :: "nat option \<Rightarrow> kstate \<Rightarrow> kstate" where
  "suspend c s = (case c of None \<Rightarrow> s
     | Some c \<Rightarrow> if env_status (envs s c) = ENV_RUNNING
                then upd_env c (\<lambda>v. v\<lparr>env_status := ENV_RUNNABLE\<rparr>) s else s)"

lemma suspend_misc [simp]:
  "cpus (suspend c s) = cpus s" "cpunum (suspend c s) = cpunum s"
  "kernel_lock (suspend c s) = kernel_lock s" "env_pgdir (envs (suspend c s) e) = env_pgdir (envs s e)"
  "phys (suspend c s) = phys s" "pages (suspend c s) = pages s"
  "env_id (envs (suspend c s) e) = env_id (envs s e)"
  by (auto simp: suspend_def kops split: option.split)

lemma suspend_status:
  "env_status (envs (suspend c s) e) =
     (if c = Some e \<and> env_status (envs s e) = ENV_RUNNING then ENV_RUNNABLE else env_status (envs s e))"
  by (auto simp: suspend_def kops split: option.split)

text \<open>The state in which \<open>env_run\<close> leaves the kernel.\<close>

definition run_state :: "nat \<Rightarrow> kstate \<Rightarrow> kstate" where
  "run_state e s =
     (let s2 = upd_env e (\<lambda>v. v\<lparr>env_status := ENV_RUNNING, env_runs := env_runs v + 1\<rparr>)
                 (set_curenv (Some e) (suspend (curenv s) s));
          s3 = lcr3 (env_pgdir (envs s e) - KERNBASE) s2;
          s4 = s3\<lparr>kernel_lock := (kernel_lock s)\<lparr>locked := False, lk_cpu := None,
                 lk_pcs := (lk_pcs (kernel_lock s))[0 := 0]\<rparr>\<rparr>
      in upd_env e (\<lambda>v. v\<lparr>env_cpunum := cpunum s\<rparr>) s4)"

lemma env_run_eq:
  assumes "\<not> env_pgdir (envs s e) < KERNBASE" and "holding (kernel_lock s) (cpunum s)"
  shows "env_run e s = Leave (Resume e) (run_state e s)"
proof -
  define s2 where "s2 = upd_env e (\<lambda>v. v\<lparr>env_status := ENV_RUNNING, env_runs := env_runs v + 1\<rparr>)
      (set_curenv (Some e) (suspend (curenv s) s))"
  define s3 where "s3 = lcr3 (env_pgdir (envs s e) - KERNBASE) s2"
  define s4 where "s4 = s3\<lparr>kernel_lock := (kernel_lock s)\<lparr>locked := False, lk_cpu := None,
             lk_pcs := (lk_pcs (kernel_lock s))[0 := 0]\<rparr>\<rparr>"
  have run: "env_run e s = kbind (PADDR (env_pgdir (envs s2 e)) s2) (\<lambda>pa s.
         kbind (unlock_kernel (lcr3 pa s)) (\<lambda>_ s. env_pop_tf s))"
    unfolding env_run_def s2_def suspend_def Let_def by (rule refl)
  have pg: "env_pgdir (envs s2 e) = env_pgdir (envs s e)" by (simp add: s2_def kops)
  have lk: "kernel_lock s3 = kernel_lock s" "cpunum s3 = cpunum s" "curenv s4 = Some e" "cpunum s4 = cpunum s"
    by (simp_all add: s4_def s3_def s2_def kops curenv_def)
  have "unlock_kernel s3 = Ret () s4"
    using assms(2) lk(1,2) by (simp add: unlock_kernel_def Let_def s4_def)
  moreover have "env_pop_tf s4 = Leave (Resume e) (run_state e s)"
    using lk by (simp add: env_pop_tf_def run_state_def Let_def s2_def [symmetric] s3_def [symmetric] s4_def [symmetric])
  ultimately show ?thesis using run assms(1) by (simp add: PADDR_def pg s3_def)
qed

lemma env_run_ok:
  assumes "\<not> env_pgdir (envs s e) < KERNBASE" and "holding (kernel_lock s) (cpunum s)"
  obtains t where "env_run e s = Leave (Resume e) t" and "curenv t = Some e"
    and "cr3 t = env_pgdir (envs s e) - KERNBASE" and "tlb t = Map.empty"
    and "\<not> locked (kernel_lock t)" and "cpunum t = cpunum s"
    and "env_status (envs t e) = ENV_RUNNING" and "env_cpunum (envs t e) = cpunum s"
    and "\<And>j. j \<noteq> e \<Longrightarrow> env_status (envs t j) =
      (if curenv s = Some j \<and> env_status (envs s j) = ENV_RUNNING then ENV_RUNNABLE
       else env_status (envs s j))"
    and "\<And>j. env_id (envs t j) = env_id (envs s j)"
  by (rule that [OF env_run_eq [OF assms]])
    (simp_all add: run_state_def Let_def kops curenv_def suspend_status)

section \<open>The order of the search\<close>

definition sched_start :: "kstate \<Rightarrow> nat" where
  "sched_start s = (case curenv s of None \<Rightarrow> 0 | Some c \<Rightarrow> ENVX (env_id (envs s c)) + 1)"

text \<open>How many slots \<open>sched_yield\<close> looks at before it comes to slot \<open>j\<close>.\<close>

definition sched_dist :: "kstate \<Rightarrow> nat \<Rightarrow> nat" where
  "sched_dist s j = (j + NENV - sched_start s mod NENV) mod NENV"

lemma sched_order_nth: "i < NENV \<Longrightarrow> sched_order s ! i = (sched_start s + i) mod NENV"
  by (simp add: sched_order_def Let_def sched_start_def)

lemma length_sched_order [simp]: "length (sched_order s) = NENV"
  by (simp add: sched_order_def Let_def)

lemma sched_dist_less: "sched_dist s j < NENV"
  by (simp add: sched_dist_def jos_consts)

lemma circular_pos:
  fixes a j n :: nat
  assumes "j < n"
  shows "(a + (j + n - a mod n) mod n) mod n = j"
proof -
  have "a mod n < n" using assms by simp
  then have "(a + (j + n - a mod n) mod n) mod n = (a mod n + (j + n - a mod n)) mod n"
    by (metis mod_add_left_eq mod_add_right_eq)
  also have "\<dots> = (j + n) mod n" using \<open>a mod n < n\<close> by simp
  finally show ?thesis using assms by simp
qed

lemma circular_inj:
  fixes a i k n :: nat
  assumes "i < n" and "k < n" and "(a + i) mod n = (a + k) mod n"
  shows "i = k"
proof (rule ccontr)
  assume "i \<noteq> k"
  have aux: False if "x < y" "y < n" "(a + x) mod n = (a + y) mod n" for x y
  proof -
    have "n dvd (a + y) - (a + x)" using that mod_eq_dvd_iff_nat [of "a + x" "a + y" n] by simp
    then have "n dvd y - x" by simp
    then show False using that by (auto dest: dvd_imp_le)
  qed
  from \<open>i \<noteq> k\<close> assms aux [of i k] aux [of k i] show False by (cases "i < k") auto
qed

lemma sched_order_at: "j < NENV \<Longrightarrow> sched_order s ! sched_dist s j = j"
  using circular_pos [of j NENV "sched_start s"] by (simp add: sched_order_nth sched_dist_less sched_dist_def)

lemma sched_order_pos:
  assumes "i < NENV"
  shows "sched_dist s (sched_order s ! i) = i"
proof -
  let ?j = "sched_order s ! i"
  have "?j < NENV" using assms by (simp add: sched_order_nth jos_consts)
  then have "sched_order s ! sched_dist s ?j = ?j" by (rule sched_order_at)
  then have "(sched_start s + sched_dist s ?j) mod NENV = (sched_start s + i) mod NENV"
    using assms by (simp add: sched_order_nth sched_dist_less)
  then show ?thesis using circular_inj [OF sched_dist_less assms] by blast
qed

lemma find_sched:
  assumes "j < NENV" and "P j"
  obtains k where "find P (sched_order s) = Some k" and "k < NENV" and "P k"
    and "sched_dist s k \<le> sched_dist s j" and "\<And>i. i < NENV \<Longrightarrow> P i \<Longrightarrow> sched_dist s k \<le> sched_dist s i"
proof -
  have "sched_order s ! sched_dist s j = j" by (rule sched_order_at [OF assms(1)])
  then have "find P (sched_order s) \<noteq> None"
    using assms(2) sched_dist_less [of s j] by (auto simp: find_None_iff in_set_conv_nth)
  then obtain k where f: "find P (sched_order s) = Some k" by blast
  then obtain i where i: "i < NENV" "P k" "k = sched_order s ! i" "\<forall>l < i. \<not> P (sched_order s ! l)"
    by (auto simp: find_Some_iff)
  have k: "k < NENV" using i by (simp add: sched_order_nth jos_consts)
  have "sched_dist s k = i" using sched_order_pos [OF i(1)] i(3) by simp
  moreover have "i \<le> sched_dist s l" if "l < NENV" "P l" for l
    using i(4) that sched_order_at [OF that(1)] by (metis not_le_imp_less)
  ultimately show thesis using that [OF f k i(2)] assms by blast
qed

text \<open>After \<open>k\<close> was chosen, a slot that was further away has come closer.\<close>

lemma dist_decreases:
  fixes a j k n :: nat
  assumes "j < n" and "k < n" and "(k + n - a mod n) mod n < (j + n - a mod n) mod n"
  shows "(j + n - Suc k mod n) mod n < (j + n - a mod n) mod n"
proof -
  define b where "b = a mod n"
  have b: "b < n" using assms(1) by (simp add: b_def)
  have m: "(x + n - b) mod n = (if b \<le> x then x - b else x + n - b)" if "x < n" for x
    using that b by (auto simp: mod_if)
  show ?thesis
  proof (cases "Suc k = n")
    case True
    then show ?thesis
      using assms b unfolding b_def [symmetric] m [OF assms(1)] m [OF assms(2)]
      by (auto split: if_splits)
  next
    case False
    then have "Suc k < n" using assms(2) by simp
    then have "(j + n - Suc k mod n) mod n = (if Suc k \<le> j then j - Suc k else j + n - Suc k)"
      using assms(1) by (auto simp: mod_if)
    then show ?thesis
      using assms b unfolding b_def [symmetric] m [OF assms(1)] m [OF assms(2)]
      by (auto split: if_splits)
  qed
qed

section \<open>Properties\<close>

definition can_run :: "kstate \<Rightarrow> bool" where
  "can_run s \<longleftrightarrow> holding (kernel_lock s) (cpunum s) \<and>
     (\<forall>i < NENV. env_status (envs s i) \<in> {ENV_RUNNABLE, ENV_RUNNING} \<longrightarrow>
        \<not> env_pgdir (envs s i) < KERNBASE)"

text \<open>
  C18: if an environment is runnable and this processor holds the kernel lock, \<open>sched_yield\<close>
  switches to the first runnable environment in circular order after the current one; when
  user mode resumes, that environment is the current one and marked running, its address space
  is loaded with an empty TLB, the environment that ran before is runnable again, and the
  kernel lock is released.
\<close>

theorem sched_yield_round_robin:
  assumes "can_run s" and "j < NENV" and "env_status (envs s j) = ENV_RUNNABLE"
  shows "\<exists>k t. sched_yield s = Leave (Resume k) t \<and> k < NENV \<and>
     env_status (envs s k) = ENV_RUNNABLE \<and>
     (\<forall>i < NENV. env_status (envs s i) = ENV_RUNNABLE \<longrightarrow> sched_dist s k \<le> sched_dist s i) \<and>
     curenv t = Some k \<and> env_status (envs t k) = ENV_RUNNING \<and>
     cr3 t = env_pgdir (envs s k) - KERNBASE \<and> tlb t = Map.empty \<and> \<not> locked (kernel_lock t) \<and>
     (\<forall>i. i \<noteq> k \<longrightarrow> env_status (envs t i) =
        (if curenv s = Some i \<and> env_status (envs s i) = ENV_RUNNING then ENV_RUNNABLE
         else env_status (envs s i)))"
proof -
  obtain k where f: "find (\<lambda>j. env_status (envs s j) = ENV_RUNNABLE) (sched_order s) = Some k"
    and k: "k < NENV" "env_status (envs s k) = ENV_RUNNABLE"
    and min: "\<And>i. i < NENV \<Longrightarrow> env_status (envs s i) = ENV_RUNNABLE \<Longrightarrow> sched_dist s k \<le> sched_dist s i"
    using find_sched [of j "\<lambda>j. env_status (envs s j) = ENV_RUNNABLE" s] assms(2,3) by blast
  have pg: "\<not> env_pgdir (envs s k) < KERNBASE" and lk: "holding (kernel_lock s) (cpunum s)"
    using assms(1) k by (simp_all add: can_run_def)
  obtain t where "env_run k s = Leave (Resume k) t" "curenv t = Some k"
    "cr3 t = env_pgdir (envs s k) - KERNBASE" "tlb t = Map.empty" "\<not> locked (kernel_lock t)"
    "env_status (envs t k) = ENV_RUNNING"
    "\<And>j. j \<noteq> k \<Longrightarrow> env_status (envs t j) =
      (if curenv s = Some j \<and> env_status (envs s j) = ENV_RUNNING then ENV_RUNNABLE
       else env_status (envs s j))"
    by (rule env_run_ok [OF pg lk]) blast
  then show ?thesis using f k min by (intro exI [of _ k] exI [of _ t]) (simp add: sched_yield_def)
qed

definition two_envs :: kstate where
  "two_envs = one_env\<lparr>envs := (\<lambda>_. zero_env)
       (0 := zero_env\<lparr>env_id := 0x1000, env_status := ENV_RUNNING, env_pgdir := 0xF0001000\<rparr>,
        1 := zero_env\<lparr>env_id := 0x1001, env_status := ENV_RUNNABLE, env_pgdir := 0xF0002000\<rparr>),
     kernel_lock := \<lparr>locked = True, lk_name = ''kernel_lock'', lk_cpu = Some 0, lk_pcs = replicate 10 0\<rparr>\<rparr>"

lemma two_envs_can_run: "can_run two_envs"
  by (auto simp: can_run_def two_envs_def one_env_def bss_state_def holding_def zero_env_def jos_consts)

theorem sched_yield_round_robin_witness:
  "\<exists>t. sched_yield two_envs = Leave (Resume 1) t \<and> env_status (envs t 0) = ENV_RUNNABLE"
proof -
  have "(1::nat) < NENV" "env_status (envs two_envs 1) = ENV_RUNNABLE"
    by (simp_all add: two_envs_def jos_consts)
  from sched_yield_round_robin [OF two_envs_can_run this] obtain k t
    where "sched_yield two_envs = Leave (Resume k) t" "env_status (envs two_envs k) = ENV_RUNNABLE"
    "\<forall>i. i \<noteq> k \<longrightarrow> env_status (envs t i) =
        (if curenv two_envs = Some i \<and> env_status (envs two_envs i) = ENV_RUNNING then ENV_RUNNABLE
         else env_status (envs two_envs i))" by blast
  moreover have "env_status (envs two_envs i) = (if i = 0 then ENV_RUNNING else if i = 1 then ENV_RUNNABLE else ENV_FREE)" for i
    by (simp add: two_envs_def zero_env_def)
  moreover have "curenv two_envs = Some 0" by (simp add: two_envs_def one_env_def bss_state_def curenv_def)
  ultimately show ?thesis by (auto split: if_splits)
qed

text \<open>
  C19: no starvation.  A runnable environment \<open>j\<close> that \<open>sched_yield\<close> does not choose stays
  runnable, and the number of slots the scheduler looks at before \<open>j\<close> is strictly smaller the
  next time; so \<open>j\<close> is chosen after at most \<open>NENV\<close> calls.
\<close>

theorem sched_yield_no_starvation:
  assumes "can_run s" and "\<forall>i < NENV. env_status (envs s i) \<noteq> ENV_FREE \<longrightarrow> ENVX (env_id (envs s i)) = i"
    and "j < NENV" and "env_status (envs s j) = ENV_RUNNABLE"
  shows "\<exists>k t. sched_yield s = Leave (Resume k) t \<and>
     (k = j \<or> env_status (envs t j) = ENV_RUNNABLE \<and> sched_dist t j < sched_dist s j)"
proof -
  obtain k where f: "find (\<lambda>j. env_status (envs s j) = ENV_RUNNABLE) (sched_order s) = Some k"
    and k: "k < NENV" "env_status (envs s k) = ENV_RUNNABLE" and le: "sched_dist s k \<le> sched_dist s j"
    using find_sched [of j "\<lambda>j. env_status (envs s j) = ENV_RUNNABLE" s] assms(3,4) by blast
  have pg: "\<not> env_pgdir (envs s k) < KERNBASE" and lk: "holding (kernel_lock s) (cpunum s)"
    using assms(1) k by (simp_all add: can_run_def)
  obtain t where t: "env_run k s = Leave (Resume k) t" "curenv t = Some k"
    "\<And>j. env_id (envs t j) = env_id (envs s j)"
    "\<And>j. j \<noteq> k \<Longrightarrow> env_status (envs t j) =
      (if curenv s = Some j \<and> env_status (envs s j) = ENV_RUNNING then ENV_RUNNABLE
       else env_status (envs s j))"
    by (rule env_run_ok [OF pg lk]) blast
  have "sched_dist t j < sched_dist s j" if "k \<noteq> j"
  proof -
    have "sched_dist s k \<noteq> sched_dist s j"
      using sched_order_at [OF k(1)] sched_order_at [OF assms(3)] that by metis
    then have "sched_dist s k < sched_dist s j" using le by simp
    moreover have "sched_start t = Suc k" using t(2,3) assms(2) k by (simp add: sched_start_def)
    ultimately show ?thesis
      using dist_decreases [OF assms(3) k(1), of "sched_start s"] by (simp add: sched_dist_def)
  qed
  moreover have "env_status (envs t j) = ENV_RUNNABLE" if "k \<noteq> j" using t(4) [of j] that assms(4) by simp
  moreover have "sched_yield s = Leave (Resume k) t" using f t(1) by (simp add: sched_yield_def)
  ultimately show ?thesis by blast
qed

theorem sched_yield_no_starvation_witness:
  "\<exists>k t. sched_yield two_envs = Leave (Resume k) t \<and>
     (k = 1 \<or> env_status (envs t 1) = ENV_RUNNABLE \<and> sched_dist t 1 < sched_dist two_envs 1)"
  by (rule sched_yield_no_starvation [OF two_envs_can_run])
    (auto simp: two_envs_def zero_env_def ENVX_eq jos_consts)

text \<open>
  C17: without a runnable environment, \<open>sched_yield\<close> resumes the current environment if it is
  still running; otherwise it halts this processor with no current environment, the kernel's
  address space and the lock released as long as some environment is running or dying
  elsewhere, and enters the monitor if there is none.
\<close>

theorem sched_yield_idle:
  assumes "can_run s" and "\<forall>i < NENV. env_status (envs s i) \<noteq> ENV_RUNNABLE"
    and "\<not> kern_pgdir s < KERNBASE" and "\<forall>c. curenv s = Some c \<longrightarrow> c < NENV"
  shows "\<exists>t. sched_yield s =
     (case curenv s of
        Some c \<Rightarrow> if env_status (envs s c) = ENV_RUNNING then Leave (Resume c) t
                 else if \<exists>i < NENV. env_status (envs s i) \<in> {ENV_RUNNING, ENV_DYING}
                   then Leave Halted t else Leave InMonitor t
      | None \<Rightarrow> if \<exists>i < NENV. env_status (envs s i) \<in> {ENV_RUNNING, ENV_DYING}
               then Leave Halted t else Leave InMonitor t) \<and>
     (sched_yield s = Leave Halted t \<longrightarrow> curenv t = None \<and> cr3 t = kern_pgdir s - KERNBASE \<and>
        cpu_status (cpus t (cpunum s)) = CPU_HALTED \<and> \<not> locked (kernel_lock t))"
proof -
  have lk: "holding (kernel_lock s) (cpunum s)" using assms(1) by (simp add: can_run_def)
  have nf: "find (\<lambda>j. env_status (envs s j) = ENV_RUNNABLE) (sched_order s) = None"
    using assms(2) by (auto simp: find_None_iff in_set_conv_nth sched_order_nth jos_consts)
  have halt: "\<exists>t. sched_halt s = (if \<exists>i < NENV. env_status (envs s i) \<in> {ENV_RUNNING, ENV_DYING}
        then Leave Halted t else Leave InMonitor t) \<and>
      (sched_halt s = Leave Halted t \<longrightarrow> curenv t = None \<and> cr3 t = kern_pgdir s - KERNBASE \<and>
        cpu_status (cpus t (cpunum s)) = CPU_HALTED \<and> \<not> locked (kernel_lock t))"
  proof (cases "\<exists>i < NENV. env_status (envs s i) \<in> {ENV_RUNNING, ENV_DYING}")
    case True
    then have g: "\<not> (\<forall>i \<in> set [0..<NENV]. env_status (envs s i) \<notin> {ENV_RUNNABLE, ENV_RUNNING, ENV_DYING})"
      by auto
    show ?thesis
      unfolding sched_halt_def using g True assms(3) lk
      by (auto simp: PADDR_def unlock_kernel_def Let_def holding_def kops curenv_def)
  next
    case False
    then have "\<forall>i \<in> set [0..<NENV]. env_status (envs s i) \<notin> {ENV_RUNNABLE, ENV_RUNNING, ENV_DYING}"
      using assms(2) by auto
    then show ?thesis using False by (simp add: sched_halt_def)
  qed
  have run: "\<exists>t. env_run c s = Leave (Resume c) t"
    if "curenv s = Some c" "env_status (envs s c) = ENV_RUNNING" for c
  proof -
    have "\<not> env_pgdir (envs s c) < KERNBASE" using assms(1,4) that by (simp add: can_run_def)
    then obtain t where "env_run c s = Leave (Resume c) t" using lk by (rule env_run_ok)
    then show ?thesis ..
  qed
  show ?thesis
  proof (cases "curenv s")
    case None
    then have "sched_yield s = sched_halt s" by (simp add: sched_yield_def nf)
    with halt None show ?thesis by simp
  next
    case (Some c)
    show ?thesis
    proof (cases "env_status (envs s c) = ENV_RUNNING")
      case True
      then have "sched_yield s = env_run c s" using Some by (simp add: sched_yield_def nf)
      with run [OF Some True] Some True show ?thesis by auto
    next
      case False
      then have "sched_yield s = sched_halt s" using Some by (simp add: sched_yield_def nf)
      with halt Some False show ?thesis by simp
    qed
  qed
qed

theorem sched_yield_idle_witness:
  "\<exists>t. sched_yield (two_envs\<lparr>envs := (envs two_envs)(1 := zero_env), kern_pgdir := 0xF0100000\<rparr>) =
     Leave (Resume 0) t"
proof -
  let ?s = "two_envs\<lparr>envs := (envs two_envs)(1 := zero_env), kern_pgdir := 0xF0100000\<rparr>"
  have "can_run ?s"
    by (auto simp: can_run_def two_envs_def one_env_def bss_state_def holding_def zero_env_def jos_consts)
  moreover have "\<forall>i < NENV. env_status (envs ?s i) \<noteq> ENV_RUNNABLE" by (simp add: two_envs_def zero_env_def)
  moreover have "\<not> kern_pgdir ?s < KERNBASE" by (simp add: jos_consts)
  moreover have cur: "curenv ?s = Some 0" by (simp add: two_envs_def one_env_def bss_state_def curenv_def)
  moreover from cur have "\<forall>c. curenv ?s = Some c \<longrightarrow> c < NENV" by (simp add: jos_consts)
  moreover have "env_status (envs ?s 0) = ENV_RUNNING" by (simp add: two_envs_def)
  ultimately show ?thesis using sched_yield_idle [of ?s] by auto
qed

end
