(* ===== verification/Syscall.thy ===== *)
theory Syscall
  imports Env_Ops
begin

text \<open>
  The system calls of \<^verbatim>\<open>kern/syscall.c\<close> and their dispatcher.  A system call returns an
  \<open>int\<close>: \<open>Inr v\<close> is the return value \<open>v\<close>, \<open>Inl e\<close> the return value \<open>-e\<close>.
\<close>

section \<open>Console\<close>

text \<open>
  \<open>cprintf("%.*s", len, s)\<close>: the loop \<open>for (; (ch = *p++) != 0 && (precision < 0 || --precision >= 0);)\<close>
  of \<open>vprintfmt\<close>, which reads a byte before it looks at the precision.  The first argument bounds
  the iterations; after \<open>2 ^ 32\<close> bytes without a NUL the loop has come back to where it started.
\<close>

fun vputs :: "nat \<Rightarrow> int \<Rightarrow> u32 \<Rightarrow> kstate \<Rightarrow> (unit, kstate) outcome" where
  "vputs 0 prec p s = Leave Spinning s"
| "vputs (Suc n) prec p s =
     kbind (vread8 p s) (\<lambda>ch s.
       if ch = 0 then Ret () s
       else if prec < 0 then vputs n prec (p + 1) (kputs [char_of (unat ch)] s)
       else if 0 \<le> prec - 1 then vputs n (prec - 1) (p + 1) (kputs [char_of (unat ch)] s)
       else Ret () s)"

definition cprint_len :: "u32 \<Rightarrow> u32 \<Rightarrow> kstate \<Rightarrow> (unit, kstate) outcome" where
  "cprint_len p len s = vputs (2 ^ 32) (sint len) p s"

definition sys_cputs :: "u32 \<Rightarrow> u32 \<Rightarrow> kstate \<Rightarrow> (jerror + u32, kstate) outcome" where
  "sys_cputs p len s =
     with_env (curenv s) (\<lambda>c s.
       kbind (if flag (tf_cs (env_tf (envs s c))) 3 then user_mem_assert c p len 0 s else Ret () s)
         (\<lambda>_ s. kbind (cprint_len p len s) (\<lambda>_ s. Ret (Inr 0) s))) s"

text \<open>\<open>cons_getc\<close> stays inside its buffer (theory \<open>Console_Buffer\<close>).\<close>

definition sys_cgetc :: "kstate \<Rightarrow> (jerror + u32, kstate) outcome" where
  "sys_cgetc s =
     (case cons_getc (cons s) of
        None \<Rightarrow> kernel_fault s
      | Some (ch, c) \<Rightarrow> Ret (Inr (ucast ch)) (s\<lparr>cons := c\<rparr>))"

section \<open>Environments\<close>

definition sys_getenvid :: "kstate \<Rightarrow> (jerror + u32, kstate) outcome" where
  "sys_getenvid s = with_env (curenv s) (\<lambda>c s. Ret (Inr (env_id (envs s c))) s) s"

definition sys_env_destroy :: "u32 \<Rightarrow> kstate \<Rightarrow> (jerror + u32, kstate) outcome" where
  "sys_env_destroy envid s =
     ebind (envid2env envid True s) (\<lambda>e s.
       with_env (curenv s) (\<lambda>c s. with_env e (\<lambda>e s.
         let msg = (if e = c then ''['' @ hex8 (env_id (envs s c)) @ ''] exiting gracefully'' @ newline
                    else ''['' @ hex8 (env_id (envs s c)) @ ''] destroying '' @ hex8 (env_id (envs s e)) @ newline)
         in kbind (env_destroy e (kputs msg s)) (\<lambda>_ s. Ret (Inr 0) s)) s) s)"

definition sys_yield :: "kstate \<Rightarrow> (jerror + u32, kstate) outcome" where
  "sys_yield s = kbind (sched_yield s) (\<lambda>_ s. Ret (Inr 0) s)"

definition sys_exofork :: "kstate \<Rightarrow> (jerror + u32, kstate) outcome" where
  "sys_exofork s =
     with_env (curenv s) (\<lambda>c s.
       ebind (env_alloc (env_id (envs s c)) s) (\<lambda>e s.
         let s = upd_env e (\<lambda>v. v\<lparr>env_tf := env_tf (envs s c)\<rparr>) s;
             s = upd_env e (\<lambda>v. v\<lparr>env_status := ENV_NOT_RUNNABLE\<rparr>) s;
             s = upd_env e (\<lambda>v. v\<lparr>env_tf := (env_tf v)\<lparr>tf_regs := (tf_regs (env_tf v))\<lparr>reg_eax := 0\<rparr>\<rparr>\<rparr>) s
         in Ret (Inr (env_id (envs s e))) s)) s"

text \<open>The numbering of the status values, \<open>ENV_FREE\<close> being 0.\<close>

fun status_code :: "EnvStatus \<Rightarrow> u32" where
  "status_code ENV_FREE = 0"
| "status_code ENV_DYING = 1"
| "status_code ENV_RUNNABLE = 2"
| "status_code ENV_RUNNING = 3"
| "status_code ENV_NOT_RUNNABLE = 4"

definition sys_env_set_status :: "u32 \<Rightarrow> u32 \<Rightarrow> kstate \<Rightarrow> (jerror + u32, kstate) outcome" where
  "sys_env_set_status envid status s =
     (if status \<noteq> status_code ENV_NOT_RUNNABLE \<and> status \<noteq> status_code ENV_RUNNABLE
      then Ret (Inl E_INVAL) s
      else ebind (envid2env envid True s) (\<lambda>e s. with_env e (\<lambda>e s.
        Ret (Inr 0) (upd_env e (\<lambda>v. v\<lparr>env_status :=
          (if status = status_code ENV_RUNNABLE then ENV_RUNNABLE else ENV_NOT_RUNNABLE)\<rparr>) s)) s))"

definition sys_env_set_pgfault_upcall :: "u32 \<Rightarrow> u32 \<Rightarrow> kstate \<Rightarrow> (jerror + u32, kstate) outcome" where
  "sys_env_set_pgfault_upcall envid func s =
     ebind (envid2env envid True s) (\<lambda>e s. with_env e (\<lambda>e s.
       Ret (Inr 0) (upd_env e (\<lambda>v. v\<lparr>env_pgfault_upcall := func\<rparr>) s)) s)"

section \<open>Memory\<close>

definition bad_va :: "u32 \<Rightarrow> bool" where
  "bad_va va \<longleftrightarrow> UTOP \<le> va \<or> ROUNDDOWN va PGSIZE \<noteq> va"

definition bad_perm :: "u32 \<Rightarrow> bool" where
  "bad_perm perm \<longleftrightarrow> perm AND (PTE_U OR PTE_P) \<noteq> PTE_U OR PTE_P"

definition sys_page_alloc :: "u32 \<Rightarrow> u32 \<Rightarrow> u32 \<Rightarrow> kstate \<Rightarrow> (jerror + u32, kstate) outcome" where
  "sys_page_alloc envid va perm s =
     ebind (envid2env envid True s) (\<lambda>e s.
       if bad_va va then Ret (Inl E_INVAL) s
       else if bad_perm perm then Ret (Inl E_INVAL) s
       else kbind (page_alloc 1 s) (\<lambda>pg s. case pg of
           None \<Rightarrow> Ret (Inl E_NO_MEM) s
         | Some pg \<Rightarrow> with_env e (\<lambda>e s.
             kbind (page_insert (env_pgdir (envs s e)) pg va perm s) (\<lambda>r s. case r of
                 Inl err \<Rightarrow> kbind (page_free pg s) (\<lambda>_ s. Ret (Inl err) s)
               | Inr _ \<Rightarrow> Ret (Inr 0) s)) s))"

definition sys_page_map ::
  "u32 \<Rightarrow> u32 \<Rightarrow> u32 \<Rightarrow> u32 \<Rightarrow> u32 \<Rightarrow> kstate \<Rightarrow> (jerror + u32, kstate) outcome" where
  "sys_page_map srcenvid srcva dstenvid dstva perm s =
     ebind (envid2env srcenvid True s) (\<lambda>se s.
     ebind (envid2env dstenvid True s) (\<lambda>de s.
       if bad_va srcva \<or> bad_va dstva then Ret (Inl E_INVAL) s
       else with_env se (\<lambda>se s.
         kbind (page_lookup (env_pgdir (envs s se)) srcva s) (\<lambda>r s. case r of
             None \<Rightarrow> Ret (Inl E_INVAL) s
           | Some (pg, pte) \<Rightarrow>
               if bad_perm perm then Ret (Inl E_INVAL) s
               else if \<not> flag (kload s pte) PTE_W \<and> flag perm PTE_W then Ret (Inl E_INVAL) s
               else with_env de (\<lambda>de s.
                 kbind (page_insert (env_pgdir (envs s de)) pg dstva perm s) (\<lambda>r s. case r of
                     Inl err \<Rightarrow> Ret (Inl err) s
                   | Inr _ \<Rightarrow> Ret (Inr 0) s)) s)) s))"

definition sys_page_unmap :: "u32 \<Rightarrow> u32 \<Rightarrow> kstate \<Rightarrow> (jerror + u32, kstate) outcome" where
  "sys_page_unmap envid va s =
     ebind (envid2env envid True s) (\<lambda>e s.
       if bad_va va then Ret (Inl E_INVAL) s
       else with_env e (\<lambda>e s.
         kbind (page_remove (env_pgdir (envs s e)) va s) (\<lambda>_ s. Ret (Inr 0) s)) s)"

section \<open>Messages\<close>

definition ipc_deliver :: "nat \<Rightarrow> u32 \<Rightarrow> kstate \<Rightarrow> (jerror + u32, kstate) outcome" where
  "ipc_deliver e v s =
     with_env (curenv s) (\<lambda>c s.
       Ret (Inr 0) (upd_env e (\<lambda>w. w\<lparr>env_ipc_recving := False,
         env_ipc_from := env_id (envs s c), env_ipc_value := v, env_status := ENV_RUNNABLE,
         env_tf := (env_tf w)\<lparr>tf_regs := (tf_regs (env_tf w))\<lparr>reg_eax := 0\<rparr>\<rparr>\<rparr>) s)) s"

text \<open>
  When the lookup finds no page, the code still reads \<open>*pte\<close> through the uninitialised local
  variable; \<open>pte0\<close> is its indeterminate value.  The read faults or the call returns
  \<open>-E_INVAL\<close> one test later.
\<close>

definition sys_ipc_try_send ::
  "u32 \<Rightarrow> u32 \<Rightarrow> u32 \<Rightarrow> u32 \<Rightarrow> u32 \<Rightarrow> kstate \<Rightarrow> (jerror + u32, kstate) outcome" where
  "sys_ipc_try_send pte0 envid v srcva perm s =
     ebind (envid2env envid False s) (\<lambda>e s. with_env e (\<lambda>e s.
       if \<not> env_ipc_recving (envs s e) then Ret (Inl E_IPC_NOT_RECV) s
       else if srcva < UTOP then
         with_env (curenv s) (\<lambda>c s.
           kbind (page_lookup (env_pgdir (envs s c)) srcva s) (\<lambda>r s.
             if srcva \<noteq> ROUNDDOWN srcva PGSIZE then Ret (Inl E_INVAL) s
             else case r of
               None \<Rightarrow> kbind (vread32 pte0 s) (\<lambda>_ s. Ret (Inl E_INVAL) s)
             | Some (pg, pte) \<Rightarrow>
                 if kload s pte AND perm AND 7 \<noteq> perm AND 7 then Ret (Inl E_INVAL) s
                 else if flag perm PTE_W \<and> \<not> flag (kload s pte) PTE_W then Ret (Inl E_INVAL) s
                 else if env_ipc_dstva (envs s e) < UTOP then
                   kbind (page_insert (env_pgdir (envs s e)) pg (env_ipc_dstva (envs s e)) perm s)
                     (\<lambda>r s. case r of
                         Inl err \<Rightarrow> Ret (Inl err) s
                       | Inr _ \<Rightarrow> ipc_deliver e v (upd_env e (\<lambda>w. w\<lparr>env_ipc_perm := perm\<rparr>) s))
                 else ipc_deliver e v s)) s
       else ipc_deliver e v s) s)"

definition sys_ipc_recv :: "u32 \<Rightarrow> kstate \<Rightarrow> (jerror + u32, kstate) outcome" where
  "sys_ipc_recv dstva s =
     (if dstva < UTOP \<and> dstva \<noteq> ROUNDDOWN dstva PGSIZE then Ret (Inl E_INVAL) s
      else with_env (curenv s) (\<lambda>c s.
        sys_yield (upd_env c (\<lambda>v. v\<lparr>env_ipc_recving := True, env_status := ENV_NOT_RUNNABLE,
          env_ipc_dstva := dstva\<rparr>) s)) s)"

section \<open>Dispatcher\<close>

definition SYS_cputs :: u32 where [jos_consts]: "SYS_cputs = 0"
definition SYS_cgetc :: u32 where [jos_consts]: "SYS_cgetc = 1"
definition SYS_getenvid :: u32 where [jos_consts]: "SYS_getenvid = 2"
definition SYS_env_destroy :: u32 where [jos_consts]: "SYS_env_destroy = 3"
definition SYS_page_alloc :: u32 where [jos_consts]: "SYS_page_alloc = 4"
definition SYS_page_map :: u32 where [jos_consts]: "SYS_page_map = 5"
definition SYS_page_unmap :: u32 where [jos_consts]: "SYS_page_unmap = 6"
definition SYS_exofork :: u32 where [jos_consts]: "SYS_exofork = 7"
definition SYS_env_set_status :: u32 where [jos_consts]: "SYS_env_set_status = 8"
definition SYS_env_set_pgfault_upcall :: u32 where [jos_consts]: "SYS_env_set_pgfault_upcall = 9"
definition SYS_yield :: u32 where [jos_consts]: "SYS_yield = 10"
definition SYS_ipc_try_send :: u32 where [jos_consts]: "SYS_ipc_try_send = 11"
definition SYS_ipc_recv :: u32 where [jos_consts]: "SYS_ipc_recv = 12"
definition NSYSCALLS :: u32 where [jos_consts]: "NSYSCALLS = 13"

text \<open>The result is the \<open>int32_t\<close> that goes into \<open>%eax\<close>; the results of the calls are dropped.\<close>

definition syscall :: "u32 \<Rightarrow> u32 \<Rightarrow> u32 \<Rightarrow> u32 \<Rightarrow> u32 \<Rightarrow> u32 \<Rightarrow> kstate \<Rightarrow> (u32, kstate) outcome" where
  "syscall no a1 a2 a3 a4 a5 s =
     (if no = SYS_cgetc then kbind (sys_cgetc s) (\<lambda>_ s. Ret 0 s)
      else if no = SYS_cputs then kbind (sys_cputs a1 a2 s) (\<lambda>_ s. Ret 0 s)
      else if no = SYS_getenvid then kbind (sys_getenvid s) (\<lambda>_ s. Ret 0 s)
      else if no = SYS_env_destroy then kbind (sys_env_destroy a1 s) (\<lambda>_ s. Ret 0 s)
      else if no = SYS_yield then kbind (sys_yield s) (\<lambda>_ s. Ret 0 s)
      else if no = NSYSCALLS then Ret 0 s
      else Ret (neg_errno E_INVAL) s)"

end
