(* ===== verification/Kernel_Inv.thy ===== *)
theory Kernel_Inv
  imports Env_Free Env_Setup Sched_Spec Syscall Console_Buffer
begin

text \<open>
  The invariant of the whole kernel state and its preservation by the system calls: page
  tables, reference counts and free list agree with the environments that exist, no page is
  lost, environment slots are either free and on the free list or carry a well-formed
  identifier and an address space of their own.
\<close>

section \<open>The invariant\<close>

definition live :: "kstate \<Rightarrow> nat \<Rightarrow> bool" where
  "live s e \<longleftrightarrow> e < NENV \<and> env_status (envs s e) \<noteq> ENV_FREE"

definition env_dir :: "kstate \<Rightarrow> nat \<Rightarrow> u32" where
  "env_dir s e = PGNUM (env_pgdir (envs s e) - KERNBASE)"

definition dirs :: "kstate \<Rightarrow> u32 set" where
  "dirs s = env_dir s ` {e. live s e}"

definition env_table_ok :: "kstate \<Rightarrow> bool" where
  "env_table_ok s \<longleftrightarrow>
     (\<forall>e. live s e \<longrightarrow> env_pgdir (envs s e) = kva (env_dir s e) 0) \<and>
     inj_on (env_dir s) {e. live s e} \<and>
     (\<exists>el. free_envs s el \<and> (\<forall>e. e \<in> set el \<longleftrightarrow> e < NENV \<and> \<not> live s e)) \<and>
     (\<forall>e < NENV. (env_id (envs s e) = 0 \<and> \<not> live s e) \<or>
        (\<exists>g. 0 < g \<and> g < 524288 \<and> env_id (envs s e) = nth_env_id g e))"

definition kinv :: "u32 \<Rightarrow> (u32 \<Rightarrow> nat) \<Rightarrow> u32 list \<Rightarrow> kstate \<Rightarrow> bool" where
  "kinv k R fl s \<longleftrightarrow> vm_inv (dirs s) R fl s \<and> leaks fl s = {} \<and> kern_dir_ok k s \<and> 0 < R k \<and>
     env_table_ok s \<and> buf_ok (cons s) \<and> (\<forall>c. curenv s = Some c \<longrightarrow> live s c)"

lemma kinvD:
  assumes "kinv k R fl s"
  shows "vm_inv (dirs s) R fl s" and "leaks fl s = {}" and "kern_dir_ok k s" and "0 < R k"
    and "env_table_ok s" and "buf_ok (cons s)" and "curenv s = Some c \<Longrightarrow> live s c"
  using assms by (simp_all add: kinv_def)

lemma no_leak_leaks: "no_leak fl s \<longleftrightarrow> leaks fl s = {}"
  by (auto simp: no_leak_def leaks_def)

lemma live_dir: "live s e \<Longrightarrow> env_dir s e \<in> dirs s"
  by (simp add: dirs_def)

lemma live_pgdir: "kinv k R fl s \<Longrightarrow> live s e \<Longrightarrow> env_pgdir (envs s e) = kva (env_dir s e) 0"
  by (simp add: kinv_def env_table_ok_def)

lemma kinv_kern_pgdir:
  assumes "kinv k R fl s"
  shows "\<not> kern_pgdir s < KERNBASE" and "k < npages s"
proof -
  have "npages_ok s" "k < npages s" "kern_pgdir s = kva k 0"
    using assms by (auto simp: kinv_def vm_inv_def pt_shape_def kern_dir_ok_def)
  then show "\<not> kern_pgdir s < KERNBASE" "k < npages s"
    using PADDR_page2kva [of s k s] by (auto simp: PADDR_def kva_def split: if_splits)
qed

lemma kinv_dir_high:
  assumes "kinv k R fl s" and "live s e"
  shows "\<not> env_pgdir (envs s e) < KERNBASE"
proof -
  have "npages_ok s" "env_dir s e < npages s"
    using kinvD(1) [OF assms(1)] pt_shape_dir [OF _ live_dir [OF assms(2)]] by (auto simp: vm_inv_def pt_shape_def)
  then show ?thesis
    using PADDR_page2kva [of s "env_dir s e" s] live_pgdir [OF assms] by (auto simp: PADDR_def kva_def split: if_splits)
qed

lemma kinv_can_run: "kinv k R fl s \<Longrightarrow> holding (kernel_lock s) (cpunum s) \<Longrightarrow> can_run s"
  using kinv_dir_high by (auto simp: can_run_def live_def)

lemma kinv_ids:
  "kinv k R fl s \<Longrightarrow> \<forall>i < NENV. env_status (envs s i) \<noteq> ENV_FREE \<longrightarrow> ENVX (env_id (envs s i)) = i"
  using env_id_shape(1) by (fastforce simp: kinv_def env_table_ok_def live_def)

section \<open>Operations of the memory system\<close>

lemma live_cong: "envs t = envs s \<Longrightarrow> live t = live s"
  by (intro ext) (simp add: live_def)

lemma env_dir_cong: "envs t = envs s \<Longrightarrow> env_dir t = env_dir s"
  by (intro ext) (simp add: env_dir_def)

lemma dirs_cong: "envs t = envs s \<Longrightarrow> dirs t = dirs s"
  by (simp add: dirs_def live_cong [of t s] env_dir_cong [of t s])

lemma env_table_cong: "envs t = envs s \<Longrightarrow> env_free_list t = env_free_list s \<Longrightarrow> env_table_ok t = env_table_ok s"
  by (simp add: env_table_ok_def live_cong [of t s] env_dir_cong [of t s] el.elems_def)

lemma kern_dir_words:
  assumes "kern_dir_ok k s" and "same_words k s t" and "npages t = npages s" and "kern_pgdir t = kern_pgdir s"
  shows "kern_dir_ok k t"
  using assms upde_less by (simp add: kern_dir_ok_def same_words_def pde_def)

lemma kinv_vm_step:
  assumes "kinv k R fl s" and "vm_only s t" and "vm_inv (dirs s) R fl' t" and "leaks fl' t = {}"
    and "same_words k s t"
  shows "kinv k R fl' t"
proof -
  have f: "envs t = envs s" "env_free_list t = env_free_list s" "curenv t = curenv s" "cons t = cons s"
    "npages t = npages s" "kern_pgdir t = kern_pgdir s"
    using assms(2) by (simp_all add: vm_only_def curenv_def)
  show ?thesis
    using assms(1,3,4) kern_dir_words [OF kinvD(3) [OF assms(1)] assms(5) f(5,6)]
    by (simp add: kinv_def dirs_cong [OF f(1)] env_table_cong [OF f(1,2)] live_cong [OF f(1)] f)
qed

text \<open>Changing fields of environments that the invariant does not read.\<close>

lemma kinv_env_fields:
  assumes "kinv k R fl s"
    and "phys t = phys s" and "pages t = pages s" and "page_free_list t = page_free_list s"
    and "npages t = npages s" and "kern_pgdir t = kern_pgdir s" and "env_free_list t = env_free_list s"
    and "cons t = cons s" and "\<And>c. curenv t = Some c \<Longrightarrow> live s c"
    and "\<And>e. env_pgdir (envs t e) = env_pgdir (envs s e)" and "\<And>e. env_id (envs t e) = env_id (envs s e)"
    and "\<And>e. env_link (envs t e) = env_link (envs s e)"
    and "\<And>e. env_status (envs t e) = ENV_FREE \<longleftrightarrow> env_status (envs s e) = ENV_FREE"
  shows "kinv k R fl t"
proof -
  have l: "live t = live s" by (intro ext) (simp add: live_def assms(13))
  have d: "env_dir t = env_dir s" by (intro ext) (simp add: env_dir_def assms(10))
  have "env_table_ok t = env_table_ok s"
    by (simp add: env_table_ok_def l d el.elems_def assms(7,10-12))
  moreover have "leaks fl t = leaks fl s" by (simp add: leaks_def assms(3,5))
  moreover have "kern_dir_ok k t = kern_dir_ok k s"
    by (simp add: kern_dir_ok_def assms(5,6) pde_cong [OF assms(2)])
  ultimately show ?thesis
    using assms(1,9) by (simp add: kinv_def dirs_def l d vm_inv_cong [OF assms(2-5)] assms(8))
qed

lemma kinv_kputs: "kinv k R fl s \<Longrightarrow> kinv k R fl (kputs str s)"
  by (rule kinv_env_fields) (auto simp: kops curenv_def dest: kinvD(7) [unfolded curenv_def])

section \<open>Outcomes that keep the invariant\<close>

definition safe :: "u32 \<Rightarrow> (u32 \<Rightarrow> nat) \<Rightarrow> ('a, kstate) outcome \<Rightarrow> bool" where
  "safe k R m \<longleftrightarrow> \<not> panics m \<and> (\<exists>fl. kinv k R fl (final m))"

lemma safe_Ret [simp]: "safe k R (Ret x t) \<longleftrightarrow> (\<exists>fl. kinv k R fl t)"
  and safe_Leave [simp]: "safe k R (Leave l t) \<longleftrightarrow> (\<exists>fl. kinv k R fl t)"
  and safe_Panic [simp]: "\<not> safe k R (Panic p t)"
  by (simp_all add: safe_def)

lemma safe_kbind:
  assumes "safe k R m" and "\<And>x t fl. m = Ret x t \<Longrightarrow> kinv k R fl t \<Longrightarrow> safe k R (f x t)"
  shows "safe k R (kbind m f)"
  using assms by (cases m) auto

lemma env_run_safe:
  assumes "kinv k R fl s" and "live s e" and "holding (kernel_lock s) (cpunum s)"
    and "\<And>c. curenv s = Some c \<Longrightarrow> live s c"
  shows "safe k R (env_run e s)"
proof -
  have "kinv k R fl (run_state e s)"
    by (rule kinv_env_fields [OF assms(1)])
      (use assms(2,4) in \<open>auto simp: run_state_def Let_def suspend_def kops curenv_def live_def
        split: option.splits\<close>)
  then show ?thesis using env_run_eq [OF kinv_dir_high [OF assms(1,2)] assms(3)] by auto
qed

lemma sched_halt_safe:
  assumes "kinv k R fl s" and "holding (kernel_lock s) (cpunum s)"
  shows "safe k R (sched_halt s)"
proof (cases "\<forall>i \<in> set [0..<NENV]. env_status (envs s i) \<notin> {ENV_RUNNABLE, ENV_RUNNING, ENV_DYING}")
  case True
  then show ?thesis unfolding sched_halt_def using kinv_kputs [OF assms(1)] by auto
next
  case False
  let ?t = "lcr3 (kern_pgdir s - KERNBASE) (set_curenv None s)"
  let ?u = "?t\<lparr>cpus := (cpus ?t)(cpunum ?t := (cpus ?t (cpunum ?t))\<lparr>cpu_status := CPU_HALTED\<rparr>)\<rparr>"
  let ?v = "?u\<lparr>kernel_lock := (kernel_lock ?u)\<lparr>locked := False, lk_cpu := None,
             lk_pcs := (lk_pcs (kernel_lock ?u))[0 := 0]\<rparr>\<rparr>"
  have "sched_halt s = Leave Halted ?v"
    unfolding sched_halt_def using False assms(2) kinv_kern_pgdir(1) [OF assms(1)]
    by (auto simp: PADDR_def unlock_kernel_def Let_def holding_def kops)
  moreover have "kinv k R fl ?v"
    by (rule kinv_env_fields [OF assms(1)]) (auto simp: kops curenv_def)
  ultimately show ?thesis by auto
qed

lemma sched_yield_safe:
  assumes "kinv k R fl s" and "holding (kernel_lock s) (cpunum s)"
  shows "safe k R (sched_yield s)"
proof -
  have run: "safe k R (env_run e s)" if "live s e" for e
    by (rule env_run_safe [OF assms(1) that assms(2) kinvD(7) [OF assms(1)]])
  have "e < NENV" if "find P (sched_order s) = Some e" for P e
    using that by (auto simp: find_Some_iff sched_order_nth jos_consts)
  moreover have "env_status (envs s e) = ENV_RUNNABLE"
    if "find (\<lambda>j. env_status (envs s j) = ENV_RUNNABLE) (sched_order s) = Some e" for e
    using that by (auto simp: find_Some_iff)
  ultimately have "live s e"
    if "find (\<lambda>j. env_status (envs s j) = ENV_RUNNABLE) (sched_order s) = Some e" for e
    using that by (auto simp: live_def)
  then show ?thesis
    using run sched_halt_safe [OF assms] kinvD(7) [OF assms(1)]
    by (auto simp: sched_yield_def split: option.split)
qed

section \<open>Creating and freeing environments\<close>

lemma kinv_dir_bound: "kinv k R fl s \<Longrightarrow> q \<in> dirs s \<Longrightarrow> PGNUM (kva q 0 - KERNBASE) = q"
  using dir_bound [OF vm_inv_shape [OF kinvD(1)]] by simp

lemma env_free_kinv:
  assumes "kinv k R fl s" and "live s e"
  obtains t fl' where "env_free e s = Ret () t"
    and "kinv k R fl' (if curenv s = Some e then set_curenv None t else t)"
    and "curenv t = curenv s" and "kernel_lock t = kernel_lock s" and "cpunum t = cpunum s"
    and "\<And>x va. live s x \<Longrightarrow> x \<noteq> e \<Longrightarrow> va < UTOP \<Longrightarrow> vmap t (env_dir s x) va = vmap s (env_dir s x) va"
    and "\<And>x. live t x \<longleftrightarrow> live s x \<and> x \<noteq> e"
proof -
  note inv = kinvD [OF assms(1)]
  have nl: "no_leak fl s" using inv(2) by (simp add: no_leak_leaks)
  obtain t fl' where t: "env_free e s = Ret () t" "vm_inv (dirs s - {env_dir s e}) R fl' t" "no_leak fl' t"
    "\<And>q' va. q' \<in> dirs s \<Longrightarrow> q' \<noteq> env_dir s e \<Longrightarrow> va < UTOP \<Longrightarrow> vmap t q' va = vmap s q' va"
    "envs t = (envs s)(e := (envs s e)\<lparr>env_pgdir := 0, env_status := ENV_FREE, env_link := env_free_list s\<rparr>)"
    "env_free_list t = Some e" "cpus t = cpus s" "cpunum t = cpunum s"
    "kernel_lock t = kernel_lock s" "kern_pgdir t = kern_pgdir s" "npages t = npages s"
    "\<And>k. 0 < R k \<Longrightarrow> k < npages s \<Longrightarrow> same_words k s t" "cons t = cons s"
    by (rule env_free_ok [OF inv(1) nl live_dir [OF assms(2)] live_pgdir [OF assms] kinv_kern_pgdir(1) [OF assms(1)]])
      blast
  have lv: "live t x \<longleftrightarrow> live s x \<and> x \<noteq> e" for x by (simp add: live_def t(5))
  have ed: "env_dir t x = env_dir s x" if "x \<noteq> e" for x using that by (simp add: env_dir_def t(5))
  have inj: "inj_on (env_dir s) {e. live s e}" using inv(5) by (simp add: env_table_ok_def)
  have "dirs t = env_dir s ` ({x. live s x} - {e})"
    unfolding dirs_def using ed by (intro image_cong) (auto simp: lv)
  also have "\<dots> = dirs s - {env_dir s e}"
    unfolding dirs_def using inj assms(2) by (subst inj_on_image_set_diff [OF inj]) auto
  finally have dt: "dirs t = dirs s - {env_dir s e}" .
  obtain fel where fel: "free_envs s fel" "\<And>x. x \<in> set fel \<longleftrightarrow> x < NENV \<and> \<not> live s x"
    using inv(5) by (auto simp: env_table_ok_def)
  have e: "e < NENV" "e \<notin> set fel" using assms(2) fel(2) by (auto simp: live_def)
  have "(\<lambda>x. env_link (envs t x)) = (\<lambda>x. env_link (envs s x))(e := env_free_list s)"
    by (auto simp: t(5))
  then have fe: "free_envs t (e # fel)"
    using fel(1) e(2) by (simp add: el.elems_def t(6) chain_upd)
  have table: "env_table_ok t"
    unfolding env_table_ok_def
  proof (intro conjI)
    show "\<forall>x. live t x \<longrightarrow> env_pgdir (envs t x) = kva (env_dir t x) 0"
      using live_pgdir [OF assms(1)] by (auto simp: lv ed) (simp add: t(5))
    show "inj_on (env_dir t) {x. live t x}" using inj by (auto simp: inj_on_def lv ed)
    show "\<exists>el. free_envs t el \<and> (\<forall>x. (x \<in> set el) = (x < NENV \<and> \<not> live t x))"
      using fe fel(2) e(1) by (intro exI [of _ "e # fel"]) (auto simp: lv)
    show "\<forall>x < NENV. (env_id (envs t x) = 0 \<and> \<not> live t x) \<or>
        (\<exists>g. 0 < g \<and> g < 524288 \<and> env_id (envs t x) = nth_env_id g x)"
      using inv(5) by (auto simp: env_table_ok_def lv t(5))
  qed
  have kd: "kern_dir_ok k t"
    by (rule kern_dir_words [OF inv(3) t(12) [OF inv(4) kinv_kern_pgdir(2) [OF assms(1)]] t(11,10)])
  have cur: "curenv t = curenv s" by (simp add: curenv_def t(7,8))
  define u where "u = (if curenv s = Some e then set_curenv None t else t)"
  have u: "phys u = phys t" "pages u = pages t" "page_free_list u = page_free_list t" "npages u = npages t"
    "envs u = envs t" "env_free_list u = env_free_list t" "kern_pgdir u = kern_pgdir t" "cons u = cons t"
    by (simp_all add: u_def kops)
  have "curenv u = Some c \<Longrightarrow> live t c" for c
    using inv(7) [of c] cur by (auto simp: u_def lv curenv_def kops split: if_splits)
  moreover have "vm_inv (dirs u) R fl' u" using t(2) dt by (simp add: vm_inv_cong [OF u(1-4)] dirs_cong [OF u(5)])
  moreover have "leaks fl' u = {}" using t(3) by (simp add: leaks_def no_leak_leaks u(2,4))
  moreover have "kern_dir_ok k u" using kd by (simp add: kern_dir_ok_def u(4,7) pde_cong [OF u(1)])
  moreover have "env_table_ok u" using table by (simp add: env_table_cong [OF u(5,6)])
  moreover have "buf_ok (cons u)" using inv(6) t(13) u(8) by simp
  ultimately have "kinv k R fl' u" using inv(4) by (simp add: kinv_def live_cong [OF u(5)])
  then show thesis
    using that [OF t(1) _ cur t(9,8)] t(4) lv assms(2) live_dir [of s]
    by (simp add: u_def inj_on_eq_iff [OF inj])
qed

lemma env_table_alloc:
  assumes "env_table_ok s" and "env_free_list s = Some e" and "q \<notin> dirs s"
    and "PGNUM (kva q 0 - KERNBASE) = q"
    and "envs t = (envs s)(e := new_env parent e ((envs s e)\<lparr>env_pgdir := kva q 0\<rparr>))"
    and "env_free_list t = env_link (envs s e)"
  shows "env_table_ok t" and "dirs t = insert q (dirs s)" and "\<not> live s e" and "e < NENV"
    and "live t x \<longleftrightarrow> live s x \<or> x = e" and "env_dir t x = (if x = e then q else env_dir s x)"
proof -
  obtain fel where fel: "free_envs s fel" "\<And>x. x \<in> set fel \<longleftrightarrow> x < NENV \<and> \<not> live s x"
    using assms(1) by (auto simp: env_table_ok_def)
  then obtain fs where fs: "fel = e # fs" "chain (\<lambda>x. env_link (envs s x)) (env_link (envs s e)) fs"
    using assms(2) by (auto simp: el.elems_def chain_Some)
  have d: "distinct fel" by (rule el.elems_distinct [OF fel(1)])
  show e: "\<not> live s e" "e < NENV" using fel(2) [of e] fs(1) by auto
  show lv: "live t x \<longleftrightarrow> live s x \<or> x = e" for x
    using e by (auto simp: live_def assms(5) new_env_def)
  show dir: "env_dir t x = (if x = e then q else env_dir s x)" for x
    using assms(4) by (simp add: env_dir_def assms(5) new_env_def)
  have set: "{x. live t x} = insert e {x. live s x}" by (auto simp: lv)
  have im: "env_dir t ` {x. live s x} = dirs s"
    unfolding dirs_def by (rule image_cong) (use dir e in auto)
  then show "dirs t = insert q (dirs s)" unfolding dirs_def [of t] set using dir [of e] by (simp only: image_insert if_True simp_thms)
  have inj: "inj_on (env_dir t) {x. live s x}"
    using assms(1) e by (auto simp: env_table_ok_def inj_on_def dir)
  have "chain (\<lambda>x. env_link (envs t x)) (env_free_list t) fs"
    using fs(2) d by (simp add: assms(5,6) fs(1) new_env_def) (subst chain_cong; auto)
  then have fe: "free_envs t fs" by (simp add: el.elems_def)
  have "env_pgdir (envs t x) = kva (env_dir t x) 0" if "live t x" for x
    using that assms(1) lv dir by (auto simp: env_table_ok_def assms(5) new_env_def)
  moreover have "inj_on (env_dir t) {x. live t x}"
    unfolding set using inj im assms(3) e by (simp add: dir)
  moreover have "(env_id (envs t x) = 0 \<and> \<not> live t x) \<or>
        (\<exists>g. 0 < g \<and> g < 524288 \<and> env_id (envs t x) = nth_env_id g x)" if "x < NENV" for x
  proof (cases "x = e")
    case True
    have "env_id (envs s e) = 0 \<or> (\<exists>g. 0 < g \<and> g < 524288 \<and> env_id (envs s e) = nth_env_id g e)"
      using assms(1) e(2) by (auto simp: env_table_ok_def)
    then have "\<exists>g. 0 < g \<and> g < 524288 \<and> next_env_id (env_id (envs s e)) e = nth_env_id g e"
    proof
      assume "env_id (envs s e) = 0"
      then show ?thesis using next_env_id_first [OF e(2)] by (intro exI [of _ 1]) simp
    next
      assume "\<exists>g. 0 < g \<and> g < 524288 \<and> env_id (envs s e) = nth_env_id g e"
      then obtain g where "0 < g" "g < 524288" "env_id (envs s e) = nth_env_id g e" by blast
      then show ?thesis
        using next_env_id_nth [OF e(2), of g] by (intro exI [of _ "if g = 524287 then 1 else Suc g"]) auto
    qed
    then show ?thesis using True by (simp add: assms(5) new_env_def)
  next
    case False
    then show ?thesis using that assms(1) lv by (auto simp: env_table_ok_def assms(5))
  qed
  moreover have "\<forall>x. x \<in> set fs \<longleftrightarrow> x < NENV \<and> \<not> live t x"
    using fel(2) d lv by (auto simp: fs(1))
  ultimately show "env_table_ok t" using fe unfolding env_table_ok_def by blast
qed

lemma env_alloc_kinv:
  assumes "kinv k R (q # fl) s" and "env_free_list s = Some e"
  obtains t where "env_alloc parent s = Ret (Inr e) t" and "kinv k R fl t" and "q \<notin> dirs s"
    and "envs t = (envs s)(e := new_env parent e ((envs s e)\<lparr>env_pgdir := kva q 0\<rparr>))"
    and "\<And>q' va. q' \<in> dirs s \<Longrightarrow> va < UTOP \<Longrightarrow> vmap t q' va = vmap s q' va"
    and "\<And>va. va < UTOP \<Longrightarrow> vmap t q va = None"
    and "\<not> live s e" and "\<And>x. live t x \<longleftrightarrow> live s x \<or> x = e"
    and "\<And>x. env_dir t x = (if x = e then q else env_dir s x)" and "e < NENV"
    and "curenv t = curenv s" and "kernel_lock t = kernel_lock s" and "cpunum t = cpunum s" and "dir_made q s t"
proof -
  note inv = kinvD [OF assms(1)]
  have kq: "k \<noteq> q" using kernel_page(3) [OF inv(1,4)] by auto
  obtain t where t: "env_alloc parent s = Ret (Inr e) t" "vm_inv (insert q (dirs s)) R fl t" "q \<notin> dirs s"
    "envs t = (envs s)(e := new_env parent e ((envs s e)\<lparr>env_pgdir := kva q 0\<rparr>))"
    "\<And>q' va. q' \<in> dirs s \<Longrightarrow> va < UTOP \<Longrightarrow> vmap t q' va = vmap s q' va"
    "\<And>va. va < UTOP \<Longrightarrow> vmap t q va = None" "env_free_list t = env_link (envs s e)"
    "cpus t = cpus s" "cpunum t = cpunum s" "kernel_lock t = kernel_lock s" "kern_dir_ok k t" "npages t = npages s"
    "\<And>p. pp_ref (pages t p) = (if p = q then 1 else pp_ref (pages s p))" "cons t = cons s" "dir_made q s t"
    by (rule env_alloc_ok [OF inv(1) assms(2) inv(3) kq, of parent]) blast
  have "unat q < 0x10000" using dir_bound [OF vm_inv_shape [OF t(2)]] by blast
  then have "PGNUM (kva q 0 - KERNBASE) = q" by simp
  note tab = env_table_alloc [OF inv(5) assms(2) t(3) this t(4,7)]
  have "leaks fl t = {}" using inv(2) by (auto simp: leaks_def t(12,13))
  moreover have cur: "curenv t = curenv s" by (simp add: curenv_def t(8,9))
  ultimately have "kinv k R fl t" using t(2,11,14) tab(1,2,5) inv(4,6,7) by (auto simp: kinv_def)
  then show thesis by (rule that [OF t(1) _ t(3-6) tab(3,5,6,4) cur t(10,9,15)])
qed

lemma env_alloc_fails:
  assumes "kinv k R fl s"
  shows "env_free_list s = None \<Longrightarrow> env_alloc parent s = Ret (Inl E_NO_FREE_ENV) s"
    and "fl = [] \<Longrightarrow> env_free_list s = Some e \<Longrightarrow> env_alloc parent s = Ret (Inl E_NO_MEM) s"
  using env_alloc_no_mem vm_inv_free [OF kinvD(1) [OF assms]] by (auto simp: env_alloc_def)

lemma env_destroy_safe:
  assumes "kinv k R fl s" and "live s e" and "holding (kernel_lock s) (cpunum s)"
  shows "safe k R (env_destroy e s)"
proof (cases "env_status (envs s e) = ENV_RUNNING \<and> curenv s \<noteq> Some e")
  case True
  have "kinv k R fl (upd_env e (\<lambda>v. v\<lparr>env_status := ENV_DYING\<rparr>) s)"
    by (rule kinv_env_fields [OF assms(1)])
      (use True assms(2) kinvD(7) [OF assms(1)] in \<open>auto simp: kops curenv_def live_def\<close>)
  then show ?thesis using True by (auto simp: env_destroy_def)
next
  case False
  obtain t fl' where t: "env_free e s = Ret () t"
    "kinv k R fl' (if curenv s = Some e then set_curenv None t else t)"
    "curenv t = curenv s" "kernel_lock t = kernel_lock s" "cpunum t = cpunum s"
    by (rule env_free_kinv [OF assms(1,2)]) blast
  then have "curenv s = Some e \<Longrightarrow> safe k R (sched_yield (set_curenv None t))"
    using assms(3) by (intro sched_yield_safe [of _ _ fl']) (auto simp: kops)
  then show ?thesis using False t by (auto simp: env_destroy_def)
qed

end
