(* ===== verification/Syscall_Inv.thy ===== *)
theory Syscall_Inv
  imports Kernel_Inv
begin

text \<open>
  The system calls keep the invariant of the kernel and never panic; what each of the calls on
  memory and environments does, on every branch.
\<close>

section \<open>Finding the environment\<close>

lemma envid2env_cases:
  assumes "kinv k R fl s" and "curenv s = Some c"
  obtains "envid2env envid chk s = Ret (Inl E_BAD_ENV) s"
  | e where "envid2env envid chk s = Ret (Inr (Some e)) s" and "live s e"
proof -
  have "live s c" using kinvD(7) [OF assms] .
  then have "envid2env envid chk s = Ret (Inl E_BAD_ENV) s \<or>
      (\<exists>e. envid2env envid chk s = Ret (Inr (Some e)) s \<and> live s e)"
    using assms(2) ENVX_less [of envid] by (auto simp: envid2env_def Let_def live_def)
  then show thesis using that by blast
qed

section \<open>Allocating a page and giving it back\<close>

lemma confined_vm_inv:
  assumes "vm_inv D R fl s" and "refs D s z = {}" and "confined z s t" and "npages t = npages s"
    and "free_ok fl' t" and "\<And>p. p < npages s \<Longrightarrow> pp_ref (pages t p) = pp_ref (pages s p)"
  shows "vm_inv D R fl' t"
proof -
  note sh = vm_inv_shape [OF assms(1)]
  note ref = confined_refers [OF sh assms(2,3)]
  have refs: "refs D t p = refs D s p" for p by (simp add: refs_def ref)
  have "pt_shape D t"
    unfolding pt_shape_def
  proof (intro conjI allI impI)
    show "npages_ok t" using pt_shape_npages_ok [OF sh] assms(4) by (simp add: npages_ok_def)
    show "p < npages t" if "refers D t r p" for r p
      using that pt_shape_valid [OF sh, of r p] by (simp add: ref assms(4))
    show "r' = r" if "refers D t r p" "is_table r" "refers D t r' p" for r r' p
      using that pt_shape_sole [OF sh, of r p r'] by (simp add: ref)
    fix x y w assume "refers D t (TabRef x y) (PGNUM (pde t x y))" and w: "(w::u32) < 1024"
    then show "pte t x y w = 0 \<or> flag (pte t x y w) PTE_P"
      using confined_entries [OF sh assms(2,3), of x y] pt_shape_pte [OF sh, of x y w] w by auto
  qed
  moreover have "unat (pp_ref (pages t p)) = R p + card (refs D t p)" if "p < npages t" for p
    using vm_inv_count [OF assms(1), of p] that by (simp add: refs assms(4,6))
  moreover have "R p = 0" if "refers D t r p" "is_table r" for r p
    using that vm_inv_table [OF assms(1), of r p] by (simp add: ref)
  ultimately show ?thesis using assms(5) by (simp add: vm_inv_def)
qed

lemma alloc_confined:
  assumes "free_ok (p # fl) s"
  shows "confined p s (alloc_state f p s)"
proof -
  have "page_free_list s = Some p" and "unat p < 0x10000"
    using assms page_bound by (auto simp: free_ok_def dest: pl.elems_head)
  then show ?thesis by (auto simp: confined_def alloc_state_def kops page_list_pop_eq)
qed

lemma alloc_vm_inv:
  assumes "vm_inv D R (p # fl) s"
  shows "vm_inv D R fl (alloc_state f p s)" and "leaks fl (alloc_state f p s) = insert p (leaks (p # fl) s)"
    and "q \<in> D \<Longrightarrow> va < UTOP \<Longrightarrow> vmap (alloc_state f p s) q va = vmap s q va"
    and "q \<in> D \<Longrightarrow> i < PDX UTOP \<Longrightarrow> pde (alloc_state f p s) q i = pde s q i"
    and "refers D (alloc_state f p s) r x = refers D s r x"
proof -
  note fr = vm_inv_free [OF assms]
  note a = alloc_state_facts [OF fr] and z = vm_inv_free_page [OF assms, of p, simplified]
  note cf = alloc_confined [OF fr, of f] and sh = vm_inv_shape [OF assms]
  have np: "npages (alloc_state f p s) = npages s" using a(2) by (simp add: vm_only_def)
  show "vm_inv D R fl (alloc_state f p s)"
    by (rule confined_vm_inv [OF assms z(2) cf np a(1) a(6)])
  show "leaks fl (alloc_state f p s) = insert p (leaks (p # fl) s)"
    using z a(4) by (auto simp: leaks_def np a(6))
  show "q \<in> D \<Longrightarrow> va < UTOP \<Longrightarrow> vmap (alloc_state f p s) q va = vmap s q va"
    by (rule confined_vmap [OF sh z(2) cf])
  show "q \<in> D \<Longrightarrow> i < PDX UTOP \<Longrightarrow> pde (alloc_state f p s) q i = pde s q i"
    by (rule confined_entries(1) [OF sh z(2) cf])
  show "refers D (alloc_state f p s) r x = refers D s r x" by (rule confined_refers [OF sh z(2) cf])
qed

lemma unalloc_vm_inv:
  assumes "vm_inv D R (p # fl) s"
  shows "page_free p (alloc_state f p s) = Ret () (page_list_push p (alloc_state f p s))"
    and "vm_inv D R (p # fl) (page_list_push p (alloc_state f p s))"
    and "leaks (p # fl) (page_list_push p (alloc_state f p s)) = leaks (p # fl) s"
    and "vm_only s (page_list_push p (alloc_state f p s))"
proof -
  note fr = vm_inv_free [OF assms]
  note a = alloc_state_facts [OF fr] and z = vm_inv_free_page [OF assms, of p, simplified]
  have np: "npages (alloc_state f p s) = npages s" "p < npages (alloc_state f p s)"
    using a(2) [of f] z(1) by (simp_all add: vm_only_def)
  note fo = a(1) [of f] np(2) a(4) a(6) [of f p, unfolded z(4)]
  show "page_free p (alloc_state f p s) = Ret () (page_list_push p (alloc_state f p s))"
    by (rule page_free_ok [OF fo])
  have "confined p s (page_list_push p (alloc_state f p s))"
    using alloc_confined [OF fr, of f] by (simp add: confined_def page_list_push_eq)
  then show "vm_inv D R (p # fl) (page_list_push p (alloc_state f p s))"
    by (rule confined_vm_inv [OF assms z(2)]) (use np a(6) free_ok_push [OF fo] in \<open>simp_all add: page_list_push_eq\<close>)
  show "leaks (p # fl) (page_list_push p (alloc_state f p s)) = leaks (p # fl) s"
    using np(1) a(6) by (auto simp: leaks_def page_list_push_eq)
  show "vm_only s (page_list_push p (alloc_state f p s))"
    using a(2) [of f] by (simp add: vm_only_def page_list_push_eq)
qed

lemma alloc_same_words:
  assumes "free_ok (p # fl) s" and "k \<noteq> p" and "k < npages s"
  shows "same_words k s (alloc_state f p s)"
proof -
  have "unat k < 0x10000" using assms page_bound by (auto simp: free_ok_def)
  then show ?thesis using kload_alloc_state [OF assms(1)] assms(2) by (simp add: same_words_def)
qed

section \<open>The calls on memory\<close>

lemma sys_page_alloc_ok:
  assumes "kinv k R (p # fl) s" and "envid2env envid True s = Ret (Inr (Some e)) s" and "live s e"
    and "\<not> bad_va va" and "\<not> bad_perm perm" and "PGNUM perm = 0"
    and "flag (pde s (env_dir s e) (PDX va)) PTE_P \<or> fl \<noteq> []"
  obtains t fl' where "sys_page_alloc envid va perm s = Ret (Inr 0) t" and "kinv k R fl' t" and "vm_only s t"
    and "\<And>q va'. q \<in> dirs s \<Longrightarrow> va' < UTOP \<Longrightarrow> vmap t q va' =
      (if q = env_dir s e \<and> PGNUM va' = PGNUM va then Some (page2pa p OR perm OR PTE_P) else vmap s q va')"
    and "\<And>j. unat j < 1024 \<Longrightarrow> kload t (kva p j) = 0"
    and "\<And>x. no_table (dirs s) s x \<Longrightarrow> x \<notin> set (p # fl) \<Longrightarrow> x < npages s \<Longrightarrow> same_words x s t"
    and "dirs_grow (dirs s) s t"
proof -
  note inv = kinvD [OF assms(1)] and q = live_dir [OF assms(3)]
  note fr = vm_inv_free [OF inv(1)]
  note a = alloc_state_facts [OF fr] and av = alloc_vm_inv [OF inv(1), where f = 1]
  note z = vm_inv_free_page [OF inv(1), of p, simplified]
  let ?s = "alloc_state 1 p s"
  have va: "va < UTOP" using assms(4) by (simp add: bad_va_def not_le)
  have np: "npages ?s = npages s" "envs ?s = envs s" using a(2) [of 1] by (simp_all add: vm_only_def)
  have pg: "env_pgdir (envs ?s e) = kva (env_dir s e) 0" using live_pgdir [OF assms(1,3)] np by simp
  obtain t fl' where t: "page_insert (kva (env_dir s e) 0) p va perm ?s = Ret (Inr ()) t"
    "vm_inv (dirs s) R fl' t" "vm_only ?s t"
    "\<And>q' va'. q' \<in> dirs s \<Longrightarrow> va' < UTOP \<Longrightarrow> vmap t q' va' =
      (if q' = env_dir s e \<and> PGNUM va' = PGNUM va then Some (page2pa p OR perm OR PTE_P) else vmap ?s q' va')"
    "leaks fl' t \<subseteq> leaks fl ?s - {p}"
    "\<And>x. no_table (dirs s) ?s x \<Longrightarrow> x \<notin> set fl \<Longrightarrow> x < npages ?s \<Longrightarrow> same_words x ?s t"
    "dirs_grow (dirs s) ?s t"
  proof (rule page_insert_full [OF av(1) q va])
    show "p < npages ?s" "p \<notin> set fl" using np a(3,4) by simp_all
    show "\<not> is_table r" if "refers (dirs s) ?s r p" for r using that z(2) by (simp add: av(5) refs_def)
    show "pp_ref (pages ?s p) \<noteq> 0xFFFF" using a(6) z(4) by simp
    show "PGNUM perm = 0" by (rule assms(6))
    show "flag (pde ?s (env_dir s e) (PDX va)) PTE_P \<or> fl \<noteq> []"
      using assms(7) av(4) [OF q PDX_user [OF va]] by simp
  qed blast
  have only: "vm_only s t" using vm_only_trans [OF a(2) t(3)] .
  have kp: "k < npages s" "k \<noteq> p" using kinv_kern_pgdir(2) [OF assms(1)] kernel_page(3) [OF inv(1,4)] by auto
  have nt: "no_table (dirs s) ?s x = no_table (dirs s) s x" for x using av(5) by (simp add: no_table_def refs_def set_eq_iff del: refers.simps)
  have words: "same_words x s t" if "no_table (dirs s) s x" "x \<notin> set (p # fl)" "x < npages s" for x
    using t(6) [of x] alloc_same_words [OF fr _ that(3), of 1] that nt np by (auto intro: same_words_trans)
  have "no_table (dirs s) s p" using z(2) by (simp add: no_table_def refs_def)
  then have fresh: "same_words p ?s t" using t(6) [of p] a(3,4) np by (simp add: nt)
  have "same_words k ?s t" using t(6) [of k] kernel_no_table [OF inv(1,4)] kernel_page(3) [OF inv(1,4)] kp np nt by simp
  then have "same_words k s t" using alloc_same_words [OF fr kp(2,1), of 1] by (blast intro: same_words_trans)
  moreover have "leaks fl' t = {}" using t(5) av(2) inv(2) by auto
  ultimately have K: "kinv k R fl' t" using kinv_vm_step [OF assms(1) only t(2)] by blast
  show thesis
  proof (rule that [OF _ K only])
    show "sys_page_alloc envid va perm s = Ret (Inr 0) t"
      using assms(2,4,5) t(1) pg by (simp add: sys_page_alloc_def page_alloc_Some [OF fr])
    have "unat p < 0x10000" using fr page_bound by (auto simp: free_ok_def)
    then show "kload t (kva p j) = 0" if "unat j < 1024" for j
      using fresh kload_alloc_state [OF fr _ that, of p 1] that by (simp add: same_words_def)
    have "dirs_grow (dirs s) s ?s"
    proof (rule dirs_grow_same)
      fix x i assume x: "x \<in> dirs s" "unat (i :: u32) < 1024"
      have "x \<noteq> p" using z(2) x(1) by (auto simp: refs_def dest: spec [of _ "DirRef p"])
      then show "pde ?s x i = pde s x i"
        using kload_alloc_state [OF fr dir_bound [OF vm_inv_shape [OF inv(1)] x(1)] x(2)] by (simp add: pde_def)
    qed
    then show "dirs_grow (dirs s) s t" by (rule dirs_grow_trans [OF _ t(7)])
  qed (use t(4) av(3) words in auto)
qed

lemma sys_page_alloc_safe:
  assumes "kinv k R fl s" and "curenv s = Some c" and "PGNUM perm = 0"
  shows "safe k R (sys_page_alloc envid va perm s)"
proof -
  note inv = kinvD [OF assms(1)] and fr = vm_inv_free [OF kinvD(1) [OF assms(1)]]
  show ?thesis
  proof (cases rule: envid2env_cases [OF assms(1,2), of envid True])
    case 1
    then show ?thesis using assms(1) by (auto simp: sys_page_alloc_def)
  next
    case (2 e)
    show ?thesis
    proof (cases "bad_va va \<or> bad_perm perm \<or> fl = []")
      case True
      then show ?thesis using 2 assms(1) page_alloc_None fr by (auto simp: sys_page_alloc_def)
    next
      case False
      then obtain p gl where fl: "fl = p # gl" by (cases fl) auto
      show ?thesis
      proof (cases "flag (pde s (env_dir s e) (PDX va)) PTE_P \<or> gl \<noteq> []")
        case True
        show ?thesis
          by (rule sys_page_alloc_ok [OF assms(1) [unfolded fl] 2, of va perm])
            (use True False assms(3) in auto)
      next
        case no_mem: False
        note fr' = fr [unfolded fl] and inv1 = inv(1) [unfolded fl]
        note un = unalloc_vm_inv [OF inv1, where f = 1] and av = alloc_vm_inv [OF inv1, where f = 1]
        have pg: "env_pgdir (envs (alloc_state 1 p s) e) = kva (env_dir s e) 0"
          using live_pgdir [OF assms(1) 2(2)] alloc_state_facts(2) [OF fr', of 1] by (simp add: vm_only_def)
        have va: "va < UTOP" using False by (simp add: bad_va_def not_le)
        have "page_insert (kva (env_dir s e) 0) p va perm (alloc_state 1 p s) = Ret (Inl E_NO_MEM) (alloc_state 1 p s)"
          by (rule page_insert_no_mem [of "dirs s" R])
            (use no_mem av(1) av(4) [OF live_dir [OF 2(2)] PDX_user [OF va]] in simp_all)
        then have run: "sys_page_alloc envid va perm s = Ret (Inl E_NO_MEM) (page_list_push p (alloc_state 1 p s))"
          using False 2 pg un(1) by (simp add: sys_page_alloc_def page_alloc_Some [OF fr'])
        have kp: "k < npages s" "k \<noteq> p"
          using kinv_kern_pgdir(2) [OF assms(1)] kernel_page(3) [OF inv1 inv(4)] by auto
        have "same_words k s (page_list_push p (alloc_state 1 p s))"
          using alloc_same_words [OF fr' kp(2,1), of 1]
          by (rule same_words_trans) (simp add: same_words_phys page_list_push_eq)
        then have "kinv k R (p # gl) (page_list_push p (alloc_state 1 p s))"
          using kinv_vm_step [OF assms(1) un(4,2)] un(3) inv(2) fl by simp
        then show ?thesis using run by auto
      qed
    qed
  qed
qed

text \<open>Inserting a page that some environment already maps.\<close>

lemma insert_shared:
  assumes "kinv k R fl s" and "live s e" and "va < UTOP" and "PGNUM perm = 0"
    and "q \<in> dirs s" and "va0 < UTOP" and "vmap s q va0 = Some x" and "pp_ref (pages s (PGNUM x)) \<noteq> 0xFFFF"
  obtains (full) "fl = []" and "\<not> flag (pde s (env_dir s e) (PDX va)) PTE_P"
      and "page_insert (env_pgdir (envs s e)) (PGNUM x) va perm s = Ret (Inl E_NO_MEM) s"
  | (mapped) t fl' where "page_insert (env_pgdir (envs s e)) (PGNUM x) va perm s = Ret (Inr ()) t"
      and "kinv k R fl' t" and "vm_only s t"
      and "\<And>q' va'. q' \<in> dirs s \<Longrightarrow> va' < UTOP \<Longrightarrow> vmap t q' va' =
        (if q' = env_dir s e \<and> PGNUM va' = PGNUM va then Some (page2pa (PGNUM x) OR perm OR PTE_P)
         else vmap s q' va')"
      and "\<And>y. no_table (dirs s) s y \<Longrightarrow> y \<notin> set fl \<Longrightarrow> y < npages s \<Longrightarrow> same_words y s t"
      and "dirs_grow (dirs s) s t" and "length fl \<le> length fl' + (if flag (pde s (env_dir s e) (PDX va)) PTE_P then 0 else 1)"
proof -
  note inv = kinvD [OF assms(1)] and sh = vm_inv_shape [OF kinvD(1) [OF assms(1)]]
  have x: "refers (dirs s) s (PageRef q (PDX va0) (PTX va0)) (PGNUM x)"
    using assms(5-7) by (auto simp: vmap_def PDX_user split: if_splits)
  show thesis
  proof (cases "flag (pde s (env_dir s e) (PDX va)) PTE_P \<or> fl \<noteq> []")
    case False
    then show thesis
      using full page_insert_no_mem [of "dirs s" R s] inv(1) live_pgdir [OF assms(1,2)] by simp
  next
    case True
    show thesis
    proof (rule page_insert_full [OF inv(1) live_dir [OF assms(2)] assms(3)])
      show "PGNUM x < npages s" using pt_shape_valid [OF sh x] .
      show "PGNUM x \<notin> set fl" using vm_inv_referred_not_free [OF inv(1) x] .
      show "\<not> is_table r" if "refers (dirs s) s r (PGNUM x)" for r
        using pt_shape_sole [OF sh that _ x] by auto
      fix t fl'
      assume t: "page_insert (kva (env_dir s e) 0) (PGNUM x) va perm s = Ret (Inr ()) t"
        "vm_inv (dirs s) R fl' t" "vm_only s t" "leaks fl' t \<subseteq> leaks fl s - {PGNUM x}"
        and vm: "\<And>q' va'. q' \<in> dirs s \<Longrightarrow> va' < UTOP \<Longrightarrow> vmap t q' va' =
          (if q' = env_dir s e \<and> PGNUM va' = PGNUM va then Some (page2pa (PGNUM x) OR perm OR PTE_P)
           else vmap s q' va')"
        and sw: "\<And>y. no_table (dirs s) s y \<Longrightarrow> y \<notin> set fl \<Longrightarrow> y < npages s \<Longrightarrow> same_words y s t"
        and gr: "dirs_grow (dirs s) s t" and len: "length fl \<le> length fl' + (if flag (pde s (env_dir s e) (PDX va)) PTE_P then 0 else 1)"
      have "leaks fl' t = {}" using t(4) inv(2) by auto
      then have K: "kinv k R fl' t"
        using kinv_vm_step [OF assms(1) t(3,2)] kinv_kern_pgdir(2) [OF assms(1)]
          sw [OF kernel_no_table [OF inv(1,4)] kernel_page(3) [OF inv(1,4)]] by simp
      show thesis by (rule mapped [OF _ K t(3) vm sw gr len]) (use t(1) live_pgdir [OF assms(1,2)] in simp)
    qed (use True assms in auto)
  qed
qed

lemma lookup_kinv:
  assumes "kinv k R fl s" and "live s e" and "va < UTOP"
  shows "page_lookup (env_pgdir (envs s e)) va s =
    Ret (map_option (\<lambda>x. (PGNUM x, kva (PGNUM (pde s (env_dir s e) (PDX va))) (PTX va))) (vmap s (env_dir s e) va)) s"
    and "vmap s (env_dir s e) va = Some x \<Longrightarrow> kload s (kva (PGNUM (pde s (env_dir s e) (PDX va))) (PTX va)) = x"
proof -
  show "page_lookup (env_pgdir (envs s e)) va s =
    Ret (map_option (\<lambda>x. (PGNUM x, kva (PGNUM (pde s (env_dir s e) (PDX va))) (PTX va))) (vmap s (env_dir s e) va)) s"
    using page_lookup_vmap [OF vm_inv_shape [OF kinvD(1) [OF assms(1)]] live_dir [OF assms(2)] assms(3)]
      live_pgdir [OF assms(1,2)] by simp
  show "vmap s (env_dir s e) va = Some x \<Longrightarrow> kload s (kva (PGNUM (pde s (env_dir s e) (PDX va))) (PTX va)) = x"
    by (auto simp: vmap_def pte_def split: if_splits)
qed

text \<open>No page has the largest count its 16 bits hold.\<close>

definition counts_fit :: "kstate \<Rightarrow> bool" where
  "counts_fit s \<longleftrightarrow> (\<forall>p. pp_ref (pages s p) \<noteq> 0xFFFF)"

lemma counts_fitD: "counts_fit s \<Longrightarrow> pp_ref (pages s p) \<noteq> 0xFFFF"
  by (simp add: counts_fit_def)

lemma sys_page_map_ok:
  assumes "kinv k R fl s" and "envid2env srcid True s = Ret (Inr (Some se)) s" and "live s se"
    and "envid2env dstid True s = Ret (Inr (Some de)) s" and "live s de"
    and "\<not> bad_va srcva" and "\<not> bad_va dstva" and "\<not> bad_perm perm" and "PGNUM perm = 0"
    and "vmap s (env_dir s se) srcva = Some x" and "flag perm PTE_W \<Longrightarrow> flag x PTE_W"
    and "pp_ref (pages s (PGNUM x)) \<noteq> 0xFFFF"
  obtains (no_mem) "fl = []" and "\<not> flag (pde s (env_dir s de) (PDX dstva)) PTE_P"
      and "sys_page_map srcid srcva dstid dstva perm s = Ret (Inl E_NO_MEM) s"
  | (ok) t fl' where "sys_page_map srcid srcva dstid dstva perm s = Ret (Inr 0) t"
      and "kinv k R fl' t" and "vm_only s t"
      and "\<And>q va. q \<in> dirs s \<Longrightarrow> va < UTOP \<Longrightarrow> vmap t q va =
        (if q = env_dir s de \<and> PGNUM va = PGNUM dstva then Some (page2pa (PGNUM x) OR perm OR PTE_P)
         else vmap s q va)"
      and "\<And>y. no_table (dirs s) s y \<Longrightarrow> y \<notin> set fl \<Longrightarrow> y < npages s \<Longrightarrow> same_words y s t"
      and "dirs_grow (dirs s) s t" and "length fl \<le> length fl' + (if flag (pde s (env_dir s de) (PDX dstva)) PTE_P then 0 else 1)"
proof -
  have va: "srcva < UTOP" "dstva < UTOP" using assms(6,7) by (simp_all add: bad_va_def not_le)
  note lk = lookup_kinv [OF assms(1,3) va(1)]
  have run: "sys_page_map srcid srcva dstid dstva perm s =
      kbind (page_insert (env_pgdir (envs s de)) (PGNUM x) dstva perm s)
        (\<lambda>r s. case r of Inl err \<Rightarrow> Ret (Inl err) s | Inr _ \<Rightarrow> Ret (Inr 0) s)"
    using assms(2,4,6-8,10,11) lk(1) lk(2) [OF assms(10)] by (auto simp: sys_page_map_def)
  from assms(1,5) va(2) assms(9) live_dir [OF assms(3)] va(1) assms(10,12) show thesis
  proof (cases rule: insert_shared)
    case full
    then show thesis using no_mem run by simp
  next
    case (mapped t fl')
    then show thesis using ok [of t fl'] run by simp
  qed
qed

lemma sys_page_map_safe:
  assumes "kinv k R fl s" and "curenv s = Some c" and "PGNUM perm = 0" and "counts_fit s"
  shows "safe k R (sys_page_map srcid srcva dstid dstva perm s)"
proof (cases rule: envid2env_cases [OF assms(1,2), of srcid True])
  case 1
  then show ?thesis using assms(1) by (auto simp: sys_page_map_def)
next
  case (2 se)
  note se = this
  show ?thesis
  proof (cases rule: envid2env_cases [OF assms(1,2), of dstid True])
    case 1
    then show ?thesis using assms(1) se by (auto simp: sys_page_map_def)
  next
    case (2 de)
    show ?thesis
    proof (cases "bad_va srcva \<or> bad_va dstva")
      case True
      then show ?thesis using assms(1) se 2 by (auto simp: sys_page_map_def)
    next
      case False
      then have va: "srcva < UTOP" by (simp add: bad_va_def not_le)
      note lk = lookup_kinv [OF assms(1) se(2) va]
      show ?thesis
      proof (cases "\<exists>x. vmap s (env_dir s se) srcva = Some x \<and> \<not> bad_perm perm \<and> (flag perm PTE_W \<longrightarrow> flag x PTE_W)")
        case True
        then obtain x where x: "vmap s (env_dir s se) srcva = Some x" "\<not> bad_perm perm"
          "flag perm PTE_W \<Longrightarrow> flag x PTE_W" by blast
        show ?thesis
          by (rule sys_page_map_ok [OF assms(1) se 2, of srcva dstva perm x])
            (use False x assms(1,3) counts_fitD [OF assms(4)] in auto)
      next
        case no: False
        then show ?thesis
          using se(1) 2(1) False lk(1) lk(2) assms(1)
          by (cases "vmap s (env_dir s se) srcva") (auto simp: sys_page_map_def)
      qed
    qed
  qed
qed

lemma sys_page_unmap_ok:
  assumes "kinv k R fl s" and "envid2env envid True s = Ret (Inr (Some e)) s" and "live s e" and "\<not> bad_va va"
  obtains t fl' where "sys_page_unmap envid va s = Ret (Inr 0) t" and "kinv k R fl' t" and "vm_only s t"
    and "\<And>q va'. q \<in> dirs s \<Longrightarrow> va' < UTOP \<Longrightarrow> vmap t q va' =
      (if q = env_dir s e \<and> PGNUM va' = PGNUM va then None else vmap s q va')"
    and "fl' = remove_free (env_dir s e) va s fl"
    and "\<And>y. no_table (dirs s) s y \<Longrightarrow> y < npages s \<Longrightarrow> same_words y s t" and "dirs_grow (dirs s) s t"
proof -
  note inv = kinvD [OF assms(1)]
  have va: "va < UTOP" using assms(4) by (simp add: bad_va_def not_le)
  obtain t where t: "page_remove (kva (env_dir s e) 0) va s = Ret () t"
    "vm_inv (dirs s) R (remove_free (env_dir s e) va s fl) t" "vm_only s t"
    "\<And>q' va'. q' \<in> dirs s \<Longrightarrow> va' < UTOP \<Longrightarrow> vmap t q' va' =
      (if q' = env_dir s e \<and> PGNUM va' = PGNUM va then None else vmap s q' va')"
    "leaks (remove_free (env_dir s e) va s fl) t \<subseteq> leaks fl s"
    "\<And>k. no_table (dirs s) s k \<Longrightarrow> k < npages s \<Longrightarrow> same_words k s t" "dirs_grow (dirs s) s t"
    by (rule page_remove_ok [OF inv(1) live_dir [OF assms(3)] va]) blast
  have "leaks (remove_free (env_dir s e) va s fl) t = {}" using t(5) inv(2) by auto
  then have K: "kinv k R (remove_free (env_dir s e) va s fl) t"
    using kinv_vm_step [OF assms(1) t(3,2)] t(6) [OF kernel_no_table [OF inv(1,4)] kinv_kern_pgdir(2) [OF assms(1)]] by simp
  show thesis
    by (rule that [OF _ K t(3,4)]) (use assms(2,4) t(1,6,7) live_pgdir [OF assms(1,3)] in \<open>simp_all add: sys_page_unmap_def\<close>)
qed

lemma sys_page_unmap_safe:
  assumes "kinv k R fl s" and "curenv s = Some c"
  shows "safe k R (sys_page_unmap envid va s)"
proof (cases rule: envid2env_cases [OF assms, of envid True])
  case 1
  then show ?thesis using assms(1) by (auto simp: sys_page_unmap_def)
next
  case (2 e)
  show ?thesis
  proof (cases "bad_va va")
    case True
    then show ?thesis using 2 assms(1) by (auto simp: sys_page_unmap_def)
  next
    case False
    from sys_page_unmap_ok [OF assms(1) 2 False] show ?thesis by (metis safe_Ret)
  qed
qed

section \<open>The calls on environments\<close>

lemma kinv_upd_env:
  assumes "kinv k R fl s" and "\<And>v. env_pgdir (f v) = env_pgdir v" and "\<And>v. env_id (f v) = env_id v"
    and "\<And>v. env_link (f v) = env_link v"
    and "env_status (f (envs s e)) = ENV_FREE \<longleftrightarrow> env_status (envs s e) = ENV_FREE"
  shows "kinv k R fl (upd_env e f s)"
  by (rule kinv_env_fields [OF assms(1)])
    (use assms(2-5) in \<open>auto simp: kops curenv_def dest: kinvD(7) [OF assms(1), unfolded curenv_def]\<close>)

lemma sys_exofork_ok:
  assumes "kinv k R (q # fl) s" and "curenv s = Some c" and "env_free_list s = Some e"
  obtains t where "sys_exofork s = Ret (Inr (env_id (envs t e))) t" and "kinv k R fl t"
    and "\<not> live s e" and "\<And>x. live t x \<longleftrightarrow> live s x \<or> x = e" and "curenv t = curenv s"
    and "\<And>x. x \<noteq> e \<Longrightarrow> envs t x = envs s x"
    and "env_status (envs t e) = ENV_NOT_RUNNABLE" and "env_parent_id (envs t e) = env_id (envs s c)"
    and "env_tf (envs t e) = (env_tf (envs s c))\<lparr>tf_regs := (tf_regs (env_tf (envs s c)))\<lparr>reg_eax := 0\<rparr>\<rparr>"
    and "env_id (envs t e) = next_env_id (env_id (envs s e)) e"
    and "\<And>x va. live s x \<Longrightarrow> va < UTOP \<Longrightarrow> vmap t (env_dir t x) va = vmap s (env_dir s x) va"
    and "\<And>va. va < UTOP \<Longrightarrow> vmap t (env_dir t e) va = None" and "dir_made q s t"
proof -
  obtain u where u: "env_alloc (env_id (envs s c)) s = Ret (Inr e) u" "kinv k R fl u" "q \<notin> dirs s"
    "envs u = (envs s)(e := new_env (env_id (envs s c)) e ((envs s e)\<lparr>env_pgdir := kva q 0\<rparr>))"
    "\<And>q' va. q' \<in> dirs s \<Longrightarrow> va < UTOP \<Longrightarrow> vmap u q' va = vmap s q' va"
    "\<And>va. va < UTOP \<Longrightarrow> vmap u q va = None"
    "\<not> live s e" "\<And>x. live u x \<longleftrightarrow> live s x \<or> x = e"
    "\<And>x. env_dir u x = (if x = e then q else env_dir s x)" "e < NENV" "curenv u = curenv s" "dir_made q s u"
    by (rule env_alloc_kinv [OF assms(1,3), of "env_id (envs s c)"]) blast
  have ce: "c \<noteq> e" using u(7) kinvD(7) [OF assms(1,2)] by auto
  let ?tf = "(env_tf (envs s c))\<lparr>tf_regs := (tf_regs (env_tf (envs s c)))\<lparr>reg_eax := 0\<rparr>\<rparr>"
  let ?f = "\<lambda>v. v\<lparr>env_status := ENV_NOT_RUNNABLE, env_tf := ?tf\<rparr>"
  let ?t = "upd_env e ?f u"
  have run: "sys_exofork s = Ret (Inr (env_id (envs ?t e))) ?t"
    using assms(2) u(1,4) ce by (simp add: sys_exofork_def kops Let_def)
  have "env_status (envs u e) \<noteq> ENV_FREE" by (simp add: u(4) new_env_def)
  then have K: "kinv k R fl ?t" by (intro kinv_upd_env [OF u(2)]) simp_all
  have d: "env_dir ?t x = env_dir u x" for x by (simp add: env_dir_def kops)
  have l: "live ?t x \<longleftrightarrow> live u x" for x using u(8) [of e] by (auto simp: live_def kops)
  have v: "vmap ?t = vmap u" by (rule vmap_phys) (simp add: kops)
  show thesis
  proof (rule that [OF run K u(7)])
    show "vmap ?t (env_dir ?t x) va = vmap s (env_dir s x) va" if "live s x" "va < UTOP" for x va
      using that u(5,7,9) live_dir [OF that(1)] by (auto simp: d v)
    show "dir_made q s ?t" using u(12) by (simp add: dir_made_def confined_def kops)
  qed (use u l d v in \<open>auto simp: kops new_env_def curenv_def\<close>)
qed

lemma sys_exofork_safe:
  assumes "kinv k R fl s" and "curenv s = Some c"
  shows "safe k R (sys_exofork s)"
proof (cases "env_free_list s")
  case None
  then show ?thesis using assms env_alloc_fails(1) [OF assms(1)] by (auto simp: sys_exofork_def)
next
  case (Some e)
  show ?thesis
  proof (cases fl)
    case Nil
    then show ?thesis using assms env_alloc_fails(2) [OF assms(1) Nil Some] by (auto simp: sys_exofork_def)
  next
    case (Cons q gl)
    show ?thesis by (rule sys_exofork_ok [OF assms(1) [unfolded Cons] assms(2) Some]) auto
  qed
qed

lemma live_status: "live s e \<Longrightarrow> env_status (envs s e) \<noteq> ENV_FREE"
  by (simp add: live_def)

lemma sys_env_set_status_safe:
  assumes "kinv k R fl s" and "curenv s = Some c"
  shows "safe k R (sys_env_set_status envid status s)"
proof (cases rule: envid2env_cases [OF assms, of envid True])
  case 1
  then show ?thesis using assms(1) by (auto simp: sys_env_set_status_def)
next
  case (2 e)
  have "kinv k R fl (upd_env e (\<lambda>v. v\<lparr>env_status := w\<rparr>) s)" if "w \<noteq> ENV_FREE" for w
    using that live_status [OF 2(2)] by (intro kinv_upd_env [OF assms(1)]) simp_all
  then show ?thesis using 2 assms(1) by (auto simp: sys_env_set_status_def)
qed

lemma sys_env_set_pgfault_upcall_safe:
  assumes "kinv k R fl s" and "curenv s = Some c"
  shows "safe k R (sys_env_set_pgfault_upcall envid func s)"
proof (cases rule: envid2env_cases [OF assms, of envid True])
  case 1
  then show ?thesis using assms(1) by (auto simp: sys_env_set_pgfault_upcall_def)
next
  case (2 e)
  have "kinv k R fl (upd_env e (\<lambda>v. v\<lparr>env_pgfault_upcall := func\<rparr>) s)"
    by (rule kinv_upd_env [OF assms(1)]) simp_all
  then show ?thesis using 2 by (auto simp: sys_env_set_pgfault_upcall_def)
qed

lemma sys_yield_safe:
  "kinv k R fl s \<Longrightarrow> holding (kernel_lock s) (cpunum s) \<Longrightarrow> safe k R (sys_yield s)"
  unfolding sys_yield_def by (rule safe_kbind [OF sched_yield_safe]) auto

lemma sys_env_destroy_safe:
  assumes "kinv k R fl s" and "curenv s = Some c" and "holding (kernel_lock s) (cpunum s)"
  shows "safe k R (sys_env_destroy envid s)"
proof (cases rule: envid2env_cases [OF assms(1,2), of envid True])
  case 1
  then show ?thesis using assms(1) by (auto simp: sys_env_destroy_def)
next
  case (2 e)
  have "safe k R (let msg = m in kbind (env_destroy e (kputs msg s)) (\<lambda>_ s. Ret (Inr 0) s))" for m
    unfolding Let_def by (rule safe_kbind [OF env_destroy_safe [OF kinv_kputs [OF assms(1)]]])
      (use 2(2) assms(3) in \<open>auto simp: live_def kops\<close>)
  then show ?thesis by (simp only: sys_env_destroy_def 2(1) assms(2) ebind_Ret_Inr with_env_Some)
qed

section \<open>The console and messages\<close>

lemma kinv_cons:
  assumes "kinv k R fl s" and "buf_ok c"
  shows "kinv k R fl (s\<lparr>cons := c\<rparr>)"
proof -
  let ?t = "s\<lparr>cons := c\<rparr>"
  have p: "phys ?t = phys s" "pages ?t = pages s" "page_free_list ?t = page_free_list s" "npages ?t = npages s"
    and e: "envs ?t = envs s" "env_free_list ?t = env_free_list s" and r: "curenv ?t = curenv s"
    by (simp_all add: curenv_def)
  show ?thesis
    using assms by (simp add: kinv_def vm_inv_cong [OF p] dirs_cong [OF e(1)] env_table_cong [OF e] live_cong [OF e(1)] r
        leaks_def kern_dir_ok_def pde_cong [OF p(1)])
qed

lemma sys_cgetc_safe:
  assumes "kinv k R fl s"
  shows "safe k R (sys_cgetc s)"
proof -
  obtain ch c where "cons_getc (cons s) = Some (ch, c)" "buf_ok c"
    by (rule cons_getc_ok [OF kinvD(6) [OF assms]]) blast
  then show ?thesis using kinv_cons [OF assms] by (auto simp: sys_cgetc_def)
qed

lemma ipc_deliver_safe:
  assumes "kinv k R fl s" and "curenv s = Some c" and "live s e"
  shows "safe k R (ipc_deliver e v s)"
proof -
  have "kinv k R fl (upd_env e (\<lambda>w. w\<lparr>env_ipc_recving := False,
         env_ipc_from := env_id (envs s c), env_ipc_value := v, env_status := ENV_RUNNABLE,
         env_tf := (env_tf w)\<lparr>tf_regs := (tf_regs (env_tf w))\<lparr>reg_eax := 0\<rparr>\<rparr>\<rparr>) s)"
    using live_status [OF assms(3)] by (intro kinv_upd_env [OF assms(1)]) simp_all
  then show ?thesis using assms(2) by (auto simp: ipc_deliver_def)
qed

lemma sys_ipc_try_send_safe:
  assumes "kinv k R fl s" and "curenv s = Some c" and "PGNUM perm = 0" and "counts_fit s"
    and "srcva < UTOP \<Longrightarrow> srcva = ROUNDDOWN srcva PGSIZE \<Longrightarrow> vmap s (env_dir s c) srcva \<noteq> None"
  shows "safe k R (sys_ipc_try_send pte0 envid v srcva perm s)"
proof (cases rule: envid2env_cases [OF assms(1,2), of envid False])
  case 1
  then show ?thesis using assms(1) by (auto simp: sys_ipc_try_send_def)
next
  case (2 e)
  have c: "live s c" using kinvD(7) [OF assms(1,2)] .
  note dl = ipc_deliver_safe [OF assms(1,2) 2(2), of v]
  show ?thesis
  proof (cases "env_ipc_recving (envs s e) \<and> srcva < UTOP \<and> srcva = ROUNDDOWN srcva PGSIZE")
    case False
    then show ?thesis
      using 2 assms(1,2) dl lookup_kinv(1) [OF assms(1) c, of srcva] by (auto simp: sys_ipc_try_send_def)
  next
    case True
    then obtain x where x: "vmap s (env_dir s c) srcva = Some x" using assms(5) by auto
    have lk: "page_lookup (env_pgdir (envs s c)) srcva s =
        Ret (Some (PGNUM x, kva (PGNUM (pde s (env_dir s c) (PDX srcva))) (PTX srcva))) s"
      using lookup_kinv(1) [OF assms(1) c] True x by simp
    have ins: "safe k R (kbind (page_insert (env_pgdir (envs s e)) (PGNUM x) (env_ipc_dstva (envs s e)) perm s)
          (\<lambda>r s. case r of Inl err \<Rightarrow> Ret (Inl err) s
           | Inr _ \<Rightarrow> ipc_deliver e v (upd_env e (\<lambda>w. w\<lparr>env_ipc_perm := perm\<rparr>) s)))"
      if dst: "env_ipc_dstva (envs s e) < UTOP"
    proof -
      have "srcva < UTOP" "pp_ref (pages s (PGNUM x)) \<noteq> 0xFFFF" using True assms(4) by (auto simp: counts_fit_def)
      from assms(1) 2(2) dst assms(3) live_dir [OF c] this(1) x this(2) show ?thesis
      proof (cases rule: insert_shared)
        case full
        then show ?thesis using assms(1) by auto
      next
        case (mapped t fl')
        let ?t = "upd_env e (\<lambda>w. w\<lparr>env_ipc_perm := perm\<rparr>) t"
        have K: "kinv k R fl' ?t" by (rule kinv_upd_env [OF mapped(2)]) simp_all
        have "curenv ?t = Some c" "live ?t e"
          using mapped(3) assms(2) 2(2) by (simp_all add: vm_only_def curenv_def live_def kops)
        then show ?thesis using mapped(1) ipc_deliver_safe [OF K] by simp
      qed
    qed
    have eq: "sys_ipc_try_send pte0 envid v srcva perm s =
        (let y = kload s (kva (PGNUM (pde s (env_dir s c) (PDX srcva))) (PTX srcva)) in
         if y AND perm AND 7 \<noteq> perm AND 7 then Ret (Inl E_INVAL) s
         else if flag perm PTE_W \<and> \<not> flag y PTE_W then Ret (Inl E_INVAL) s
         else if env_ipc_dstva (envs s e) < UTOP then
           kbind (page_insert (env_pgdir (envs s e)) (PGNUM x) (env_ipc_dstva (envs s e)) perm s)
          (\<lambda>r s. case r of Inl err \<Rightarrow> Ret (Inl err) s
           | Inr _ \<Rightarrow> ipc_deliver e v (upd_env e (\<lambda>w. w\<lparr>env_ipc_perm := perm\<rparr>) s))
         else ipc_deliver e v s)"
      using True 2(1) assms(2) lk by (simp add: sys_ipc_try_send_def Let_def)
    show ?thesis unfolding eq Let_def using ins dl assms(1) by auto
  qed
qed

lemma sys_ipc_recv_safe:
  assumes "kinv k R fl s" and "curenv s = Some c" and "holding (kernel_lock s) (cpunum s)"
  shows "safe k R (sys_ipc_recv dstva s)"
proof -
  let ?t = "upd_env c (\<lambda>v. v\<lparr>env_ipc_recving := True, env_status := ENV_NOT_RUNNABLE, env_ipc_dstva := dstva\<rparr>) s"
  have "kinv k R fl ?t"
    using live_status [OF kinvD(7) [OF assms(1,2)]] by (intro kinv_upd_env [OF assms(1)]) simp_all
  then have "safe k R (sys_yield ?t)" by (rule sys_yield_safe) (use assms(3) in \<open>simp add: kops\<close>)
  then show ?thesis using assms by (auto simp: sys_ipc_recv_def)
qed

end
