(* ===== verification/Kernel_Spec.thy ===== *)
theory Kernel_Spec
  imports Syscall_Inv Vm_Spec
begin

text \<open>
  What the kernel promises an environment: the contract of the system calls, stated over the
  code's definitions and the invariant \<open>kinv\<close> of theory \<open>Kernel_Inv\<close>.
\<close>

section \<open>A small system\<close>

text \<open>
  Eight pages: 0 is reserved, 1 the kernel's directory, 2 the directory of environment 0, the
  others are free; environment 0 runs on CPU 0, which holds the kernel lock.
\<close>

definition k_small :: kstate where
  "k_small = bss_state\<lparr>npages := 8, page_free_list := Some 3, kern_pgdir := kva 1 0,
     pages := (\<lambda>p. if p < 3 then \<lparr>pp_link = None, pp_ref = 1\<rparr>
                   else if p < 7 then \<lparr>pp_link = Some (p + 1), pp_ref = 0\<rparr> else zero_page),
     envs := (\<lambda>e. if e = 0 then zero_env\<lparr>env_id := 0x1000, env_status := ENV_RUNNING, env_pgdir := kva 2 0\<rparr>
                  else zero_env\<lparr>env_link := (if e < 1023 then Some (e + 1) else None)\<rparr>),
     env_free_list := Some 1,
     cpus := (\<lambda>_. zero_cpu)(0 := zero_cpu\<lparr>cpu_env := Some 0\<rparr>),
     kernel_lock := \<lparr>locked = True, lk_name = ''kernel_lock'', lk_cpu = Some 0, lk_pcs = replicate 10 0\<rparr>\<rparr>"

definition small_refs :: "u32 \<Rightarrow> nat" where
  "small_refs = (\<lambda>_. 0)(0 := 1, 1 := 1)"

lemma k_small_misc [simp]:
  "npages k_small = 8" "pde k_small q i = 0" "pte k_small q i j = 0" "vmap k_small q va = None"
  "curenv k_small = Some 0" "kernel_lock k_small = \<lparr>locked = True, lk_name = ''kernel_lock'', lk_cpu = Some 0, lk_pcs = replicate 10 0\<rparr>"
  "cpunum k_small = 0" "kern_pgdir k_small = kva 1 0" "cons k_small = zero_console"
  "env_free_list k_small = Some 1" "env_pgdir (envs k_small 0) = kva 2 0" "env_id (envs k_small 0) = 0x1000"
  by (simp_all add: k_small_def bss_state_def pde_def pte_def vmap_def kload_def curenv_def)

lemma k_small_live [simp]: "live k_small e \<longleftrightarrow> e = 0"
  by (simp add: live_def k_small_def zero_env_def jos_consts)

lemma k_small_dir [simp]: "env_dir k_small 0 = 2"
  by (simp add: env_dir_def)

lemma k_small_dirs [simp]: "dirs k_small = {2}"
  by (simp add: dirs_def)

lemma k_small_refers: "refers {2} k_small r p \<longleftrightarrow> r = DirRef 2 \<and> p = 2"
  by (cases r) auto

lemma k_small_free: "free_ok [3, 4, 5, 6, 7] k_small"
proof -
  have "p \<notin> {3, 4, 5, 6, 7} \<Longrightarrow> p < 8 \<Longrightarrow> p < 3" for p :: u32
    by (auto simp: word_less_nat_alt word_unat_eq_iff)
  then show ?thesis by (auto simp: free_ok_def npages_ok_def pl.elems_def k_small_def zero_page_def)
qed

lemma k_small_vm: "vm_inv {2} small_refs [3, 4, 5, 6, 7] k_small"
proof -
  have "refs {2} k_small p = (if p = 2 then {DirRef 2} else {})" for p
    by (auto simp: refs_def k_small_refers)
  moreover have "pp_ref (pages k_small p) = (if p < 3 then 1 else 0)" for p
    by (simp add: k_small_def zero_page_def)
  moreover have "p = 0 \<or> p = 1 \<or> p = 2 \<longleftrightarrow> p < 3" for p :: u32
    by (auto simp: word_less_nat_alt word_unat_eq_iff)
  ultimately show ?thesis
    using k_small_free by (auto simp: vm_inv_def pt_shape_def npages_ok_def k_small_refers small_refs_def)
qed

lemma chain_upto: "i \<le> n \<Longrightarrow> chain (\<lambda>e. if Suc e < n then Some (Suc e) else None) (if i < n then Some i else None) [i..<n]"
proof (induction "n - i" arbitrary: i)
  case 0
  then show ?case by simp
next
  case (Suc d)
  then have "[i..<n] = i # [Suc i..<n]" "i < n" by (simp_all add: upt_rec)
  then show ?case using Suc.hyps(1) [of "Suc i"] Suc.hyps(2) by simp
qed

lemma k_small_table: "env_table_ok k_small"
proof -
  have "chain (\<lambda>e. if Suc e < 1024 then Some (Suc e) else None) (Some 1) [1..<1024] =
      chain (\<lambda>e. env_link (envs k_small e)) (Some 1) [1..<1024]"
    by (rule chain_cong) (auto simp: k_small_def zero_env_def)
  then have "free_envs k_small [1..<1024]" using chain_upto [of 1 1024] by (simp add: el.elems_def)
  moreover have "nth_env_id 1 0 = 0x1000" by (simp add: nth_env_id_def)
  moreover have "env_id (envs k_small e) = (if e = 0 then 0x1000 else 0)" for e
    by (simp add: k_small_def zero_env_def)
  moreover have "\<exists>g. 0 < g \<and> g < 524288 \<and> (0x1000 :: u32) = nth_env_id g 0"
    using calculation(2) by (intro exI [of _ 1]) simp
  moreover have "inj_on (env_dir k_small) (Collect (live k_small))" by (simp add: inj_on_def)
  ultimately show ?thesis
    unfolding env_table_ok_def by (auto simp: jos_consts intro!: exI [of _ "[1..<1024]"])
qed

lemma k_small_kinv: "kinv 1 small_refs [3, 4, 5, 6, 7] k_small"
proof -
  have "p < 8 \<Longrightarrow> p \<notin> {3, 4, 5, 6, 7} \<Longrightarrow> pp_ref (pages k_small p) \<noteq> 0" for p
    using k_small_free by (auto simp: k_small_def zero_page_def word_less_nat_alt word_unat_eq_iff)
  then have "leaks [3, 4, 5, 6, 7] k_small = {}" by (auto simp: leaks_def)
  moreover have "buf_ok zero_console" by (simp add: buf_ok_def zero_console_def jos_consts)
  ultimately show ?thesis
    using k_small_vm k_small_table by (simp add: kinv_def kern_dir_ok_def small_refs_def)
qed

lemma k_small_counts: "counts_fit k_small"
  by (simp add: counts_fit_def k_small_def zero_page_def)

lemma k_small_holds: "holding (kernel_lock k_small) (cpunum k_small)"
  by (simp add: holding_def)

text \<open>
  The same system after environment 0 has mapped page 4 by entry \<open>j\<close> of a table in page 3, which is
  entry \<open>i\<close> of its directory.
\<close>

definition k_map :: "u32 \<Rightarrow> u32 \<Rightarrow> kstate" where
  "k_map i j = k_small\<lparr>phys := (\<lambda>_. 0)(0x2000 + 4 * i := 0x3007, 0x3000 + 4 * j := 0x4007), page_free_list := Some 5,
     pages := (\<lambda>p. if p < 5 then \<lparr>pp_link = None, pp_ref = 1\<rparr>
                   else if p < 7 then \<lparr>pp_link = Some (p + 1), pp_ref = 0\<rparr> else zero_page)\<rparr>"

lemma k_map_misc [simp]:
  "npages (k_map i j) = 8" "envs (k_map i j) = envs k_small" "curenv (k_map i j) = Some 0"
  "env_free_list (k_map i j) = env_free_list k_small" "cons (k_map i j) = cons k_small"
  "kern_pgdir (k_map i j) = kva 1 0" "kernel_lock (k_map i j) = kernel_lock k_small" "cpunum (k_map i j) = 0"
  by (simp_all add: k_map_def curenv_def) (simp_all add: k_small_def bss_state_def)

lemma k_map_env [simp]:
  "live (k_map i j) = live k_small" "env_dir (k_map i j) = env_dir k_small" "dirs (k_map i j) = {2}"
  "env_table_ok (k_map i j) = env_table_ok k_small"
  using live_cong [of "k_map i j" k_small] env_dir_cong [of "k_map i j" k_small] dirs_cong [of "k_map i j" k_small]
    env_table_cong [of "k_map i j" k_small] by simp_all

lemma k_map_word:
  assumes "unat i < 1024" and "unat j < 1024" and "unat p < 0x10000" and "unat n < 1024"
  shows "kload (k_map i j) (kva p n) = (if p = 2 \<and> n = i then 0x3007 else if p = 3 \<and> n = j then 0x4007 else 0)"
proof -
  have "kva 2 i - KERNBASE = 0x2000 + 4 * i" "kva 3 j - KERNBASE = 0x3000 + 4 * j"
    by (simp_all add: kva_offset page2pa_def)
  then have "kva p n - KERNBASE = 0x2000 + 4 * i \<longleftrightarrow> p = 2 \<and> n = i" "kva p n - KERNBASE = 0x3000 + 4 * j \<longleftrightarrow> p = 3 \<and> n = j"
    using kva_eq_iff [of p n 2 i] kva_eq_iff [of p n 3 j] assms by simp_all
  then show ?thesis by (auto simp: kload_def k_map_def)
qed

lemma k_map_flags [simp]: "flag (0x3007::u32) PTE_P" "flag (0x4007::u32) PTE_P"
  by (simp_all add: flag_def jos_consts)

lemma k_map_pde: "unat i < 1024 \<Longrightarrow> unat j < 1024 \<Longrightarrow> unat p < 0x10000 \<Longrightarrow> p \<noteq> 3 \<Longrightarrow> unat n < 1024 \<Longrightarrow>
    pde (k_map i j) p n = (if p = 2 \<and> n = i then 0x3007 else 0)"
  and k_map_pte: "unat i < 1024 \<Longrightarrow> unat j < 1024 \<Longrightarrow> unat n < 1024 \<Longrightarrow>
    pte (k_map i j) 2 i n = (if n = j then 0x4007 else 0)"
  by (auto simp: pde_def pte_def k_map_word PGNUM_def)

lemma k_map_refers:
  assumes "i < PDX UTOP" and "unat j < 1024"
  shows "refers {2} (k_map i j) r p \<longleftrightarrow> r = DirRef 2 \<and> p = 2 \<or> r = TabRef 2 i \<and> p = 3 \<or> r = PageRef 2 i j \<and> p = 4"
proof -
  note i = upde_less [OF assms(1)]
  have "unat n < 1024" if "n < PDX UTOP" for n :: u32 using that by (rule upde_less)
  then show ?thesis
    by (cases r) (auto simp: k_map_pde [OF i assms(2)] k_map_pte [OF i assms(2)] word1024_less PGNUM_def assms split: if_splits)
qed

lemma k_map_kinv:
  assumes "i < PDX UTOP" and "unat j < 1024"
  shows "kinv 1 small_refs [5, 6, 7] (k_map i j)"
proof -
  let ?s = "k_map i j"
  note i = upde_less [OF assms(1)] and ref = k_map_refers [OF assms]
  have refs: "refs {2} ?s p = (if p = 2 then {DirRef 2} else if p = 3 then {TabRef 2 i}
      else if p = 4 then {PageRef 2 i j} else {})" for p by (auto simp: refs_def ref)
  have pr: "pp_ref (pages ?s p) = (if p < 5 then 1 else 0)" for p
    by (simp add: k_map_def zero_page_def)
  have lt5: "p < 5 \<longleftrightarrow> p = 0 \<or> p = 1 \<or> p = 2 \<or> p = 3 \<or> p = 4" for p :: u32
    by (auto simp: word_less_nat_alt word_unat_eq_iff)
  have lt8: "p < 5" if "p < 8" "p \<notin> {5, 6, 7}" for p :: u32
    using that by (auto simp: word_less_nat_alt word_unat_eq_iff)
  then have fr: "free_ok [5, 6, 7] ?s"
    by (auto simp: free_ok_def npages_ok_def pl.elems_def) (auto simp: k_map_def zero_page_def)
  have "pt_shape {2} ?s"
    by (auto simp: pt_shape_def npages_ok_def ref k_map_pte [OF i assms(2)] word1024_less simp del: refers.simps)
  then have "vm_inv {2} small_refs [5, 6, 7] ?s"
    using fr by (auto simp: vm_inv_def ref refs pr small_refs_def lt5 simp del: refers.simps)
  moreover have "leaks [5, 6, 7] ?s = {}" using lt8 by (auto simp: leaks_def pr)
  moreover have "kern_dir_ok 1 ?s" by (simp add: kern_dir_ok_def k_map_pde [OF i assms(2)] upde_less)
  ultimately show ?thesis
    using kinvD(4,5,6) [OF k_small_kinv] k_small_live by (simp add: kinv_def)
qed

text \<open>In particular, page 4 at address \<open>0x800000\<close>.\<close>

definition k_mapped :: kstate where
  "k_mapped = k_map 2 0"

lemma k_mapped_misc [simp]:
  "npages k_mapped = 8" "envs k_mapped = envs k_small" "curenv k_mapped = Some 0"
  "env_free_list k_mapped = env_free_list k_small" "kernel_lock k_mapped = kernel_lock k_small" "cpunum k_mapped = 0"
  "live k_mapped = live k_small" "env_dir k_mapped = env_dir k_small" "dirs k_mapped = {2}"
  by (simp_all add: k_mapped_def)

lemma k_mapped_pde: "unat p < 0x10000 \<Longrightarrow> p \<noteq> 3 \<Longrightarrow> unat n < 1024 \<Longrightarrow>
    pde k_mapped p n = (if p = 2 \<and> n = 2 then 0x3007 else 0)"
  and k_mapped_pte: "unat n < 1024 \<Longrightarrow> pte k_mapped 2 2 n = (if n = 0 then 0x4007 else 0)"
  using k_map_pde [of 2 0 p n] k_map_pte [of 2 0 n] by (simp_all add: k_mapped_def)

lemma k_mapped_kinv: "kinv 1 small_refs [5, 6, 7] k_mapped"
  unfolding k_mapped_def by (rule k_map_kinv) (simp_all add: PDX_UTOP)

lemma k_mapped_vmap: "vmap k_mapped 2 0x800000 = Some 0x4007"
  by (simp add: vmap_def PDX_def PTX_def k_mapped_pde k_mapped_pte)

lemma k_mapped_counts: "counts_fit k_mapped"
  by (simp add: counts_fit_def k_mapped_def k_map_def zero_page_def)

lemma sys_page_map_read_only:
  assumes "kinv k R fl s" and "envid2env srcid True s = Ret (Inr (Some se)) s" and "live s se"
    and "envid2env dstid True s = Ret (Inr (Some de)) s" and "live s de"
    and "\<not> bad_va srcva" and "\<not> bad_va dstva" and "\<not> bad_perm perm"
    and "vmap s (env_dir s se) srcva = Some x" and "flag perm PTE_W" and "\<not> flag x PTE_W"
  shows "sys_page_map srcid srcva dstid dstva perm s = Ret (Inl E_INVAL) s"
proof -
  have "srcva < UTOP" using assms(6) by (simp add: bad_va_def not_le)
  note lk = lookup_kinv [OF assms(1,3) this]
  show ?thesis using assms(2,4,6-8,10,11) lk(1) lk(2) [OF assms(9)] assms(9) by (simp add: sys_page_map_def)
qed

section \<open>All system calls\<close>

text \<open>
  The system calls by name.  The first argument of \<open>Ipc_try_send\<close> is the indeterminate value of
  the uninitialised pointer in \<open>sys_ipc_try_send\<close>.
\<close>

datatype call =
    Cgetc | Getenvid | Env_destroy u32 | Yield | Exofork
  | Env_set_status u32 u32 | Env_set_pgfault_upcall u32 u32
  | Page_alloc u32 u32 u32 | Page_map u32 u32 u32 u32 u32 | Page_unmap u32 u32
  | Ipc_try_send u32 u32 u32 u32 u32 | Ipc_recv u32

fun do_call :: "call \<Rightarrow> kstate \<Rightarrow> (jerror + u32, kstate) outcome" where
  "do_call Cgetc s = sys_cgetc s"
| "do_call Getenvid s = sys_getenvid s"
| "do_call (Env_destroy envid) s = sys_env_destroy envid s"
| "do_call Yield s = sys_yield s"
| "do_call Exofork s = sys_exofork s"
| "do_call (Env_set_status envid status) s = sys_env_set_status envid status s"
| "do_call (Env_set_pgfault_upcall envid func) s = sys_env_set_pgfault_upcall envid func s"
| "do_call (Page_alloc envid va perm) s = sys_page_alloc envid va perm s"
| "do_call (Page_map src srcva dst dstva perm) s = sys_page_map src srcva dst dstva perm s"
| "do_call (Page_unmap envid va) s = sys_page_unmap envid va s"
| "do_call (Ipc_try_send pte0 envid v srcva perm) s = sys_ipc_try_send pte0 envid v srcva perm s"
| "do_call (Ipc_recv dstva) s = sys_ipc_recv dstva s"

text \<open>
  The arguments for which the code is safe: permissions that stay below the page number, and a
  mapped page behind the address given to \<open>sys_ipc_try_send\<close>.
\<close>

fun call_ok :: "call \<Rightarrow> kstate \<Rightarrow> bool" where
  "call_ok (Page_alloc envid va perm) s \<longleftrightarrow> PGNUM perm = 0"
| "call_ok (Page_map src srcva dst dstva perm) s \<longleftrightarrow> PGNUM perm = 0"
| "call_ok (Ipc_try_send pte0 envid v srcva perm) s \<longleftrightarrow> PGNUM perm = 0 \<and>
     (srcva < UTOP \<and> srcva = ROUNDDOWN srcva PGSIZE \<longrightarrow>
      (\<forall>c. curenv s = Some c \<longrightarrow> vmap s (env_dir s c) srcva \<noteq> None))"
| "call_ok _ s \<longleftrightarrow> True"




lemma k_small_self: "envid2env 0 True k_small = Ret (Inr (Some 0)) k_small"
  by (simp add: envid2env_def)

lemma k_small_args: "\<not> bad_va 0x800000" "\<not> bad_perm 7" "PGNUM 7 = 0"
  by (simp_all add: bad_va_def bad_perm_def jos_consts ROUNDDOWN_def PGNUM_def)




text \<open>
  C10: \<open>sys_exofork\<close> with a free slot and a free page creates a child that cannot run yet, has
  the caller as its parent, the caller's registers except \<open>%eax = 0\<close>, a fresh identifier (which
  the caller gets) and an empty address space; nothing changes for the other environments.
\<close>

theorem sys_exofork_creates_child:
  assumes "kinv k R (q # fl) s" and "curenv s = Some c" and "env_free_list s = Some e"
  shows "\<exists>t. sys_exofork s = Ret (Inr (env_id (envs t e))) t \<and> kinv k R fl t \<and> \<not> live s e \<and>
     (\<forall>x. live t x \<longleftrightarrow> live s x \<or> x = e) \<and> (\<forall>x. x \<noteq> e \<longrightarrow> envs t x = envs s x) \<and>
     env_status (envs t e) = ENV_NOT_RUNNABLE \<and> env_parent_id (envs t e) = env_id (envs s c) \<and>
     env_tf (envs t e) = (env_tf (envs s c))\<lparr>tf_regs := (tf_regs (env_tf (envs s c)))\<lparr>reg_eax := 0\<rparr>\<rparr> \<and>
     env_id (envs t e) = next_env_id (env_id (envs s e)) e \<and>
     (\<forall>x va. live s x \<longrightarrow> va < UTOP \<longrightarrow> vmap t (env_dir t x) va = vmap s (env_dir s x) va) \<and>
     (\<forall>va. va < UTOP \<longrightarrow> vmap t (env_dir t e) va = None)"
  by (rule sys_exofork_ok [OF assms]) blast

theorem sys_exofork_creates_child_witness:
  "\<exists>t. sys_exofork k_small = Ret (Inr (env_id (envs t 1))) t \<and> env_parent_id (envs t 1) = 0x1000"
proof -
  have "curenv k_small = Some 0" "env_free_list k_small = Some 1" by simp_all
  from sys_exofork_creates_child [OF k_small_kinv this] show ?thesis by (metis k_small_misc(12))
qed

text \<open>
  C9: \<open>env_free\<close> returns every page of the environment's address space: afterwards the invariant
  (which includes that no unreferenced page is missing from the free list) holds for the
  remaining environments, whose mappings are as before.
\<close>

theorem env_free_releases_everything:
  assumes "kinv k R fl s" and "live s e"
  shows "\<exists>t fl'. env_free e s = Ret () t \<and> env_status (envs t e) = ENV_FREE \<and>
     kinv k R fl' (if curenv s = Some e then set_curenv None t else t) \<and>
     (\<forall>x. live t x \<longleftrightarrow> live s x \<and> x \<noteq> e) \<and>
     (\<forall>x va. live s x \<longrightarrow> x \<noteq> e \<longrightarrow> va < UTOP \<longrightarrow> vmap t (env_dir s x) va = vmap s (env_dir s x) va)"
proof -
  obtain t fl' where t: "env_free e s = Ret () t"
    "kinv k R fl' (if curenv s = Some e then set_curenv None t else t)"
    "\<And>x va. live s x \<Longrightarrow> x \<noteq> e \<Longrightarrow> va < UTOP \<Longrightarrow> vmap t (env_dir s x) va = vmap s (env_dir s x) va"
    "\<And>x. live t x \<longleftrightarrow> live s x \<and> x \<noteq> e"
    by (rule env_free_kinv [OF assms]) blast
  moreover have "env_status (envs t e) = ENV_FREE" using t(4) [of e] assms(2) by (simp add: live_def)
  ultimately show ?thesis by blast
qed

theorem env_free_releases_everything_witness:
  "\<exists>t fl'. env_free 0 k_mapped = Ret () t \<and> kinv 1 small_refs fl' (set_curenv None t)"
proof -
  have "live k_mapped 0" by simp
  from env_free_releases_everything [OF k_mapped_kinv this] show ?thesis by auto
qed

text \<open>
  C24: the dispatcher: only five of the thirteen calls are ever executed, and whatever they
  compute, the value a user program gets back is 0 or \<open>-E_INVAL\<close>.
\<close>

theorem syscall_drops_results:
  assumes "syscall no a1 a2 a3 a4 a5 s = Ret r t"
  shows "(r = 0 \<or> r = neg_errno E_INVAL) \<and>
     (no \<notin> {SYS_cgetc, SYS_cputs, SYS_getenvid, SYS_env_destroy, SYS_yield} \<longrightarrow> t = s)"
  using assms by (auto simp: syscall_def split: if_splits)

theorem syscall_drops_results_witness:
  "\<exists>r. syscall SYS_getenvid 0 0 0 0 0 k_small = Ret r k_small \<and> (r = 0 \<or> r = neg_errno E_INVAL)"
proof -
  have "syscall SYS_getenvid 0 0 0 0 0 k_small = Ret 0 k_small"
    by (simp add: syscall_def jos_consts sys_getenvid_def)
  with syscall_drops_results [OF this] show ?thesis by blast
qed

end
