(* ===== verification/Cputs_Spec.thy ===== *)
theory Cputs_Spec
  imports Kernel_Spec
begin

text \<open>
  \<open>sys_cputs\<close>: what it prints, and the byte it reads beyond the range it has checked.
\<close>

section \<open>Reading user memory\<close>

definition readable :: "kstate \<Rightarrow> u32 \<Rightarrow> bool" where
  "readable s va \<longleftrightarrow> flag (hw_pde s va) PTE_P \<and> flag (hw_pte s va) PTE_P"

definition ubyte :: "kstate \<Rightarrow> u32 \<Rightarrow> u8" where
  "ubyte s va = pget8 s (vpa s va)"

lemma vread8_eq: "vread8 va s = (if readable s va then Ret (ubyte s va) s else kernel_fault s)"
  by (simp add: vread8_def readable_def ubyte_def)

lemma read_kputs [simp]: "readable (kputs str s) va = readable s va" "ubyte (kputs str s) va = ubyte s va"
  by (simp_all add: readable_def ubyte_def hw_pde_def hw_pte_def vpa_def pget8_def kops)

lemma kputs_kputs [simp]: "kputs b (kputs a s) = kputs (a @ b) s"
  by (simp add: kops)

definition ustring :: "kstate \<Rightarrow> u32 \<Rightarrow> nat \<Rightarrow> string" where
  "ustring s p n = map (\<lambda>i. char_of (unat (ubyte s (p + of_nat i)))) [0..<n]"

lemma ustring_Suc: "ustring s p (Suc n) = char_of (unat (ubyte s p)) # ustring s (p + 1) n"
proof -
  have "[0..<Suc n] = 0 # map Suc [0..<n]" by (simp add: upt_conv_Cons map_Suc_upt)
  then show ?thesis by (simp add: ustring_def comp_def algebra_simps del: upt_Suc)
qed

lemma ustring_kputs [simp]: "ustring (kputs str s) p n = ustring s p n"
  by (simp add: ustring_def)

lemma vputs_eq:
  assumes "n < fuel" and "\<And>i. i < n \<Longrightarrow> readable s (p + of_nat i) \<and> ubyte s (p + of_nat i) \<noteq> 0"
  shows "vputs fuel (int n) p s =
    (if readable s (p + of_nat n) then Ret () (kputs (ustring s p n) s)
     else kernel_fault (kputs (ustring s p n) s))"
  using assms
proof (induction n arbitrary: fuel p s)
  case 0
  then obtain f where f: "fuel = Suc f" by (cases fuel) auto
  show ?case by (simp add: f vread8_eq kernel_fault_def ustring_def kputs_def)
next
  case (Suc n)
  then obtain f where f: "fuel = Suc f" by (cases fuel) auto
  let ?t = "kputs [char_of (unat (ubyte s p))] s"
  have IH: "vputs f (int n) (p + 1) ?t =
    (if readable ?t (p + 1 + of_nat n) then Ret () (kputs (ustring ?t (p + 1) n) ?t)
     else kernel_fault (kputs (ustring ?t (p + 1) n) ?t))"
    using Suc.prems(2) [of "Suc i" for i] Suc.prems(1) f
    by (intro Suc.IH) (auto simp: algebra_simps)
  show ?case using Suc.prems(2) [of 0] IH by (simp add: f vread8_eq ustring_Suc algebra_simps)
qed


definition cputs_demo :: kstate where
  "cputs_demo = k_mapped\<lparr>phys := (phys k_mapped)(0x4FFC := 0x41000000), cr3 := 0x2000\<rparr>"


end
