(* ===== verification/Printfmt.thy ===== *)
theory Printfmt
  imports Mmu
begin

text \<open>
  The formatted output of \<^verbatim>\<open>lib/printfmt.c\<close>, shared by the kernel and user programs, with its
  three sinks: the kernel's \<open>cprintf\<close> (\<^verbatim>\<open>kern/printf.c\<close>), the buffered \<open>cprintf\<close> of user programs
  (\<^verbatim>\<open>lib/printf.c\<close>) and \<open>vsnprintf\<close>.

  As in the source the functions are parameterised by \<open>putch\<close> and its state.  A format is the
  list of bytes before the terminating NUL.  The variable arguments are a list of typed values;
  the result \<open>None\<close> stands for the undefined behaviour of C when an argument is missing or has
  another type than the conversion asks for.
\<close>

datatype varg =
    VInt u32                  \<comment> \<open>\<open>int\<close>, \<open>unsigned\<close>, \<open>long\<close>, pointers printed by \<open>%p\<close>\<close>
  | VLong u64                 \<comment> \<open>\<open>long long\<close>\<close>
  | VStr "u8 list option"     \<comment> \<open>\<open>char *\<close>: the bytes before the NUL, or \<open>NULL\<close>\<close>

type_synonym 's sink = "u32 \<Rightarrow> 's \<Rightarrow> 's"

definition bytes :: "string \<Rightarrow> u8 list" where
  "bytes str = map (\<lambda>c. of_nat (of_char c)) str"

section \<open>Numbers\<close>

definition digit_char :: "nat \<Rightarrow> u8" where
  "digit_char d = bytes ''0123456789abcdef'' ! d"

text \<open>
  Every caller passes base 8, 10 or 16; the test \<open>2 \<le> base\<close> only makes the recursion
  well-founded for other bases too.  \<open>while (--width > 0)\<close> emits \<open>width - 1\<close> pad characters.
\<close>

function printnum :: "'s sink \<Rightarrow> nat \<Rightarrow> nat \<Rightarrow> int \<Rightarrow> u8 \<Rightarrow> 's \<Rightarrow> 's" where
  "printnum putch num base width padc s =
     (let s = (if base \<le> num \<and> 2 \<le> base then printnum putch (num div base) base (width - 1) padc s
               else (putch (scast padc) ^^ nat (width - 1)) s)
      in putch (ucast (digit_char (num mod base))) s)"
  by pat_completeness auto

termination
  by (relation "measure (\<lambda>(putch, num, base, width, padc, s). num)") auto

declare printnum.simps [simp del]

fun getuint :: "nat \<Rightarrow> varg list \<Rightarrow> (u64 \<times> varg list) option" where
  "getuint lflag (VLong x # ap) = (if 2 \<le> lflag then Some (x, ap) else None)"
| "getuint lflag (VInt x # ap) = (if 2 \<le> lflag then None else Some (ucast x, ap))"
| "getuint lflag ap = None"

fun getint :: "nat \<Rightarrow> varg list \<Rightarrow> (u64 \<times> varg list) option" where
  "getint lflag (VLong x # ap) = (if 2 \<le> lflag then Some (x, ap) else None)"
| "getint lflag (VInt x # ap) = (if 2 \<le> lflag then None else Some (scast x, ap))"
| "getint lflag ap = None"

section \<open>Conversions\<close>

record spec =
  padc :: u8
  width :: int
  precision :: int
  lflag :: nat
  altflag :: bool

definition spec0 :: spec where
  "spec0 = \<lparr>padc = 0x20, width = -1, precision = -1, lflag = 0, altflag = False\<rparr>"

text \<open>The loop that prints a string; it returns the remaining width.\<close>

fun puts_loop :: "'s sink \<Rightarrow> bool \<Rightarrow> int \<Rightarrow> int \<Rightarrow> u8 list \<Rightarrow> 's \<Rightarrow> int \<times> 's" where
  "puts_loop putch alt prec w [] s = (w, s)"
| "puts_loop putch alt prec w (c # cs) s =
     (let ch = (if alt \<and> (sint c < 0x20 \<or> 0x7E < sint c) then 0x3F else scast c) in
      if prec < 0 then puts_loop putch alt prec (w - 1) cs (putch ch s)
      else if 0 \<le> prec - 1 then puts_loop putch alt (prec - 1) (w - 1) cs (putch ch s)
      else (w, s))"

definition put_string :: "'s sink \<Rightarrow> spec \<Rightarrow> u8 list option \<Rightarrow> 's \<Rightarrow> 's" where
  "put_string putch sp p s =
     (let p = (case p of None \<Rightarrow> bytes ''(null)'' | Some p \<Rightarrow> p);
          (w, s) = (if 0 < width sp \<and> padc sp \<noteq> 0x2D then
              let w = width sp - int (if precision sp < 0 then length p else min (nat (precision sp)) (length p))
              in (if 0 < w then 0 else w, (putch (scast (padc sp)) ^^ nat w) s)
            else (width sp, s));
          (w, s) = puts_loop putch (altflag sp) (precision sp) w p s
      in (putch 0x20 ^^ nat w) s)"

definition put_signed :: "'s sink \<Rightarrow> spec \<Rightarrow> u64 \<Rightarrow> 's \<Rightarrow> 's" where
  "put_signed putch sp num s =
     (if sint num < 0 then printnum putch (unat (- num)) 10 (width sp) (padc sp) (putch 0x2D s)
      else printnum putch (unat num) 10 (width sp) (padc sp) s)"

fun error_string :: "nat \<Rightarrow> u8 list option" where
  "error_string n =
     (if n = 1 then Some (bytes ''unspecified error'')
      else if n = 2 then Some (bytes ''bad environment'')
      else if n = 3 then Some (bytes ''invalid parameter'')
      else if n = 4 then Some (bytes ''out of memory'')
      else if n = 5 then Some (bytes ''out of environments'')
      else if n = 6 then Some (bytes ''segmentation fault'')
      else if n = 7 then Some (bytes ''env is not recving'')
      else if n = 8 then Some (bytes ''unexpected end of file'')
      else None)"

text \<open>
  \<open>%e\<close>.  The two nested calls \<open>printfmt("error %d", err)\<close> and \<open>printfmt("%s", p)\<close> are written
  out; theory \<open>Printfmt_Spec\<close> proves that \<open>vprintfmt\<close> does the same on these formats.  The code
  \<open>INT_MIN\<close> stays negative under \<open>-err\<close> and would index before the table.
\<close>

definition put_error :: "'s sink \<Rightarrow> u32 \<Rightarrow> 's \<Rightarrow> 's option" where
  "put_error putch x s =
     (let err = (if sint x < 0 then - x else x) in
      if sint err < 0 then None
      else case (if MAXERROR \<le> unat err then None else error_string (unat err)) of
          None \<Rightarrow> Some (put_signed putch spec0 (scast err) (fold (\<lambda>c. putch (ucast c)) (bytes ''error '') s))
        | Some p \<Rightarrow> Some (put_string putch spec0 (Some p) s))"

section \<open>The format\<close>

text \<open>The \<open>for\<close> loop of the width field; \<open>ch\<close> is the digit already read.\<close>

definition is_digit :: "u8 \<Rightarrow> bool" where
  "is_digit c \<longleftrightarrow> 0x30 \<le> c \<and> c \<le> 0x39"

fun width_loop :: "int \<Rightarrow> u8 \<Rightarrow> u8 list \<Rightarrow> int \<times> u8 list" where
  "width_loop p ch fmt =
     (let p = p * 10 + uint ch - 0x30 in
      case fmt of
        [] \<Rightarrow> (p, fmt)
      | c # fmt' \<Rightarrow> if is_digit c then width_loop p c fmt' else (p, fmt))"

definition process_precision :: "spec \<Rightarrow> spec" where
  "process_precision sp = (if width sp < 0 then sp\<lparr>width := precision sp, precision := -1\<rparr> else sp)"

lemma width_loop_length: "length (snd (width_loop p ch fmt)) \<le> length fmt"
  by (induction p ch fmt rule: width_loop.induct) (auto split: list.splits simp: Let_def le_SucI)

text \<open>
  From \<open>reswitch\<close> to the conversion character: flags, width and precision.  The result is the
  conversion character (\<open>None\<close> for the end of the format), the flags, the rest of the format and
  of the arguments.
\<close>

function reswitch :: "spec \<Rightarrow> u8 list \<Rightarrow> varg list \<Rightarrow> (u8 option \<times> spec \<times> u8 list \<times> varg list) option" where
  "reswitch sp [] ap = Some (None, sp, [], ap)"
| "reswitch sp (ch # fmt) ap =
     (if ch = 0x2D then reswitch (sp\<lparr>padc := 0x2D\<rparr>) fmt ap
      else if ch = 0x30 then reswitch (sp\<lparr>padc := 0x30\<rparr>) fmt ap
      else if is_digit ch then
        reswitch (process_precision (sp\<lparr>precision := fst (width_loop 0 ch fmt)\<rparr>)) (snd (width_loop 0 ch fmt)) ap
      else if ch = 0x2A then
        (case ap of
           VInt x # ap \<Rightarrow> reswitch (process_precision (sp\<lparr>precision := sint x\<rparr>)) fmt ap
         | _ \<Rightarrow> None)
      else if ch = 0x2E then reswitch (if width sp < 0 then sp\<lparr>width := 0\<rparr> else sp) fmt ap
      else if ch = 0x23 then reswitch (sp\<lparr>altflag := True\<rparr>) fmt ap
      else if ch = 0x6C then reswitch (sp\<lparr>lflag := lflag sp + 1\<rparr>) fmt ap
      else Some (Some ch, sp, fmt, ap))"
  by pat_completeness auto

termination
  by (relation "measure (\<lambda>(sp, fmt, ap). length fmt)") (auto simp: le_imp_less_Suc width_loop_length simp del: width_loop.simps)

text \<open>One conversion; \<open>None\<close> as first component: not a conversion character.\<close>

definition convert :: "'s sink \<Rightarrow> u8 \<Rightarrow> spec \<Rightarrow> varg list \<Rightarrow> 's \<Rightarrow> (varg list \<times> 's) option option" where
  "convert putch ch sp ap s =
     (if ch = 0x63 then Some (case ap of VInt x # ap \<Rightarrow> Some (ap, putch x s) | _ \<Rightarrow> None)
      else if ch = 0x65 then Some (case ap of
          VInt x # ap \<Rightarrow> map_option (Pair ap) (put_error putch x s) | _ \<Rightarrow> None)
      else if ch = 0x73 then Some (case ap of VStr p # ap \<Rightarrow> Some (ap, put_string putch sp p s) | _ \<Rightarrow> None)
      else if ch = 0x64 then Some (map_option (\<lambda>(num, ap). (ap, put_signed putch sp num s)) (getint (lflag sp) ap))
      else if ch = 0x75 then
        Some (map_option (\<lambda>(num, ap). (ap, printnum putch (unat num) 10 (width sp) (padc sp) s)) (getuint (lflag sp) ap))
      else if ch = 0x6F then
        Some (map_option (\<lambda>(num, ap). (ap, printnum putch (unat num) 8 (width sp) (padc sp) s)) (getuint (lflag sp) ap))
      else if ch = 0x70 then Some (case ap of
          VInt x # ap \<Rightarrow> Some (ap, printnum putch (unat x) 16 (width sp) (padc sp) (putch 0x78 (putch 0x30 s)))
        | _ \<Rightarrow> None)
      else if ch = 0x78 then
        Some (map_option (\<lambda>(num, ap). (ap, printnum putch (unat num) 16 (width sp) (padc sp) s)) (getuint (lflag sp) ap))
      else if ch = 0x25 then Some (Some (ap, putch 0x25 s))
      else None)"

lemma reswitch_length: "reswitch sp fmt ap = Some (c, sp', rest, ap') \<Longrightarrow> length rest \<le> length fmt"
proof (induction sp fmt ap rule: reswitch.induct)
  case (2 sp ch fmt ap)
  then show ?case
    using width_loop_length [of 0 ch fmt]
    by (auto split: if_splits list.splits varg.splits simp del: width_loop.simps simp: le_SucI intro: order_trans)
qed simp

text \<open>
  \<open>vprintfmt\<close>.  On a character that is not a conversion the source steps back to just after the
  last \<open>%\<close>; since flags, digits and the like are no \<open>%\<close>, that is the position where the escape
  began.
\<close>

function vprintfmt :: "'s sink \<Rightarrow> u8 list \<Rightarrow> varg list \<Rightarrow> 's \<Rightarrow> 's option" where
  "vprintfmt putch [] ap s = Some s"
| "vprintfmt putch (ch # fmt) ap s =
     (if ch \<noteq> 0x25 then vprintfmt putch fmt ap (putch (ucast ch) s)
      else case reswitch spec0 fmt ap of
          None \<Rightarrow> None
        | Some (c, sp, rest, ap') \<Rightarrow>
            (case (case c of None \<Rightarrow> None | Some c \<Rightarrow> convert putch c sp ap' s) of
               None \<Rightarrow> vprintfmt putch fmt ap' (putch 0x25 s)
             | Some None \<Rightarrow> None
             | Some (Some (ap'', s)) \<Rightarrow> vprintfmt putch rest ap'' s))"
  by pat_completeness auto

termination
  by (relation "measure (\<lambda>(putch, fmt, ap, s). length fmt)") (auto simp: le_imp_less_Suc reswitch_length)

section \<open>Sinks\<close>

text \<open>\<open>struct sprintbuf\<close>: the buffer, the positions \<open>buf\<close> and \<open>ebuf\<close> in it, and the count.\<close>

record sprintbuf =
  sb_mem :: "u8 list"
  sb_buf :: nat
  sb_ebuf :: nat
  sb_cnt :: u32

definition sprintputch :: "sprintbuf sink" where
  "sprintputch ch b =
     (let b = b\<lparr>sb_cnt := sb_cnt b + 1\<rparr> in
      if sb_buf b < sb_ebuf b
      then b\<lparr>sb_mem := (sb_mem b)[sb_buf b := ucast ch], sb_buf := sb_buf b + 1\<rparr> else b)"

text \<open>\<open>None\<close> as buffer is \<open>NULL\<close>; a buffer is the list of bytes the caller owns.\<close>

definition vsnprintf :: "u8 list option \<Rightarrow> int \<Rightarrow> u8 list \<Rightarrow> varg list \<Rightarrow> (jerror + u32 \<times> u8 list) option" where
  "vsnprintf buf n fmt ap =
     (case buf of
        None \<Rightarrow> Some (Inl E_INVAL)
      | Some mem \<Rightarrow>
          if n < 1 then Some (Inl E_INVAL)
          else map_option (\<lambda>b. Inr (sb_cnt b, (sb_mem b)[sb_buf b := 0]))
                 (vprintfmt sprintputch fmt ap \<lparr>sb_mem = mem, sb_buf = 0, sb_ebuf = nat n - 1, sb_cnt = 0\<rparr>))"

definition snprintf :: "u8 list option \<Rightarrow> int \<Rightarrow> u8 list \<Rightarrow> varg list \<Rightarrow> (jerror + u32 \<times> u8 list) option" where
  "snprintf buf n fmt ap = vsnprintf buf n fmt ap"

text \<open>\<open>struct printbuf\<close> of \<^verbatim>\<open>lib/printf.c\<close>; \<open>pb_out\<close> are the arguments of the \<open>sys_cputs\<close> calls so far.\<close>

record printbuf =
  pb_idx :: nat
  pb_cnt :: u32
  pb_buf :: "u8 list"
  pb_out :: "u8 list list"

definition user_putch :: "printbuf sink" where
  "user_putch ch b =
     (let b = b\<lparr>pb_buf := (pb_buf b)[pb_idx b := ucast ch], pb_idx := pb_idx b + 1\<rparr>;
          b = (if pb_idx b = 255
               then b\<lparr>pb_out := pb_out b @ [take (pb_idx b) (pb_buf b)], pb_idx := 0\<rparr> else b)
      in b\<lparr>pb_cnt := pb_cnt b + 1\<rparr>)"

text \<open>The result is the count and the strings printed; \<open>buf0\<close> is the uninitialised buffer.\<close>

definition user_vcprintf :: "u8 list \<Rightarrow> u8 list \<Rightarrow> varg list \<Rightarrow> (u32 \<times> u8 list list) option" where
  "user_vcprintf buf0 fmt ap =
     map_option (\<lambda>b. (pb_cnt b, pb_out b @ [take (pb_idx b) (pb_buf b)]))
       (vprintfmt user_putch fmt ap \<lparr>pb_idx = 0, pb_cnt = 0, pb_buf = buf0, pb_out = []\<rparr>)"

definition user_cprintf :: "u8 list \<Rightarrow> u8 list \<Rightarrow> varg list \<Rightarrow> (u32 \<times> u8 list list) option" where
  "user_cprintf buf0 fmt ap = user_vcprintf buf0 fmt ap"

text \<open>
  The kernel's \<open>putch\<close>: \<open>cputchar\<close> is given by the console; \<open>*cnt++\<close> increments the local pointer
  and leaves the counter alone.
\<close>

definition kern_putch :: "'c sink \<Rightarrow> ('c \<times> u32) sink" where
  "kern_putch cputchar ch s = (cputchar ch (fst s), snd s)"

definition kern_vcprintf :: "'c sink \<Rightarrow> u8 list \<Rightarrow> varg list \<Rightarrow> 'c \<Rightarrow> (u32 \<times> 'c) option" where
  "kern_vcprintf cputchar fmt ap c =
     map_option (\<lambda>(c, cnt). (cnt, c)) (vprintfmt (kern_putch cputchar) fmt ap (c, 0))"

definition kern_cprintf :: "'c sink \<Rightarrow> u8 list \<Rightarrow> varg list \<Rightarrow> 'c \<Rightarrow> (u32 \<times> 'c) option" where
  "kern_cprintf cputchar fmt ap c = kern_vcprintf cputchar fmt ap c"

end
