(* ===== verification/String_Lib.thy ===== *)
theory String_Lib
  imports Prelude
begin

text \<open>
  The string and memory routines of \<^verbatim>\<open>lib/string.c\<close> (the \<open>ASM\<close> variants of \<open>memset\<close> and
  \<open>memmove\<close>, which are the ones compiled).  Memory is a function from 32-bit addresses to bytes;
  a loop that runs to a terminating NUL is a \<open>partial_function\<close> whose value \<open>None\<close> is a loop that
  does not end.  \<open>char\<close> is a signed byte, as in the i386 ABI.
\<close>

type_synonym mem = "u32 \<Rightarrow> u8"

section \<open>Lengths and copies\<close>

partial_function (option) strlen_loop :: "mem \<Rightarrow> u32 \<Rightarrow> u32 \<Rightarrow> u32 option" where
  "strlen_loop m s n = (if m s \<noteq> 0 then strlen_loop m (s + 1) (n + 1) else Some n)"

definition strlen :: "mem \<Rightarrow> u32 \<Rightarrow> u32 option" where
  "strlen m s = strlen_loop m s 0"

fun strnlen_loop :: "nat \<Rightarrow> mem \<Rightarrow> u32 \<Rightarrow> u32 \<Rightarrow> u32" where
  "strnlen_loop 0 m s n = n"
| "strnlen_loop (Suc sz) m s n = (if m s \<noteq> 0 then strnlen_loop sz m (s + 1) (n + 1) else n)"

definition strnlen :: "mem \<Rightarrow> u32 \<Rightarrow> u32 \<Rightarrow> u32" where
  "strnlen m s sz = strnlen_loop (unat sz) m s 0"

partial_function (option) strcpy_loop :: "u32 \<Rightarrow> u32 \<Rightarrow> mem \<Rightarrow> mem option" where
  "strcpy_loop dst src m =
     (let c = m src; m = m(dst := c) in
      if c \<noteq> 0 then strcpy_loop (dst + 1) (src + 1) m else Some m)"

definition strcpy :: "u32 \<Rightarrow> u32 \<Rightarrow> mem \<Rightarrow> (u32 \<times> mem) option" where
  "strcpy dst src m = map_option (Pair dst) (strcpy_loop dst src m)"

definition strcat :: "u32 \<Rightarrow> u32 \<Rightarrow> mem \<Rightarrow> (u32 \<times> mem) option" where
  "strcat dst src m =
     Option.bind (strlen m dst) (\<lambda>len. Option.bind (strcpy (dst + len) src m) (\<lambda>(_, m). Some (dst, m)))"

fun strncpy_loop :: "nat \<Rightarrow> u32 \<Rightarrow> u32 \<Rightarrow> mem \<Rightarrow> mem" where
  "strncpy_loop 0 dst src m = m"
| "strncpy_loop (Suc n) dst src m =
     (let m = m(dst := m src) in strncpy_loop n (dst + 1) (if m src \<noteq> 0 then src + 1 else src) m)"

definition strncpy :: "u32 \<Rightarrow> u32 \<Rightarrow> u32 \<Rightarrow> mem \<Rightarrow> u32 \<times> mem" where
  "strncpy dst src sz m = (dst, strncpy_loop (unat sz) dst src m)"

text \<open>The loop is entered with \<open>sz\<close> already decremented; it ends with \<open>*dst = 0\<close>.\<close>

fun strlcpy_loop :: "nat \<Rightarrow> u32 \<Rightarrow> u32 \<Rightarrow> mem \<Rightarrow> u32 \<times> mem" where
  "strlcpy_loop 0 dst src m = (dst, m(dst := 0))"
| "strlcpy_loop (Suc n) dst src m =
     (if m src \<noteq> 0 then strlcpy_loop n (dst + 1) (src + 1) (m(dst := m src)) else (dst, m(dst := 0)))"

definition strlcpy :: "u32 \<Rightarrow> u32 \<Rightarrow> u32 \<Rightarrow> mem \<Rightarrow> u32 \<times> mem" where
  "strlcpy dst src sz m =
     (if sz > 0 then let (d, m) = strlcpy_loop (unat sz - 1) dst src m in (d - dst, m)
      else (0, m))"

section \<open>Comparison and search\<close>

partial_function (option) strcmp :: "mem \<Rightarrow> u32 \<Rightarrow> u32 \<Rightarrow> int option" where
  "strcmp m p q =
     (if m p \<noteq> 0 \<and> m p = m q then strcmp m (p + 1) (q + 1) else Some (uint (m p) - uint (m q)))"

fun strncmp_loop :: "nat \<Rightarrow> mem \<Rightarrow> u32 \<Rightarrow> u32 \<Rightarrow> int" where
  "strncmp_loop 0 m p q = 0"
| "strncmp_loop (Suc n) m p q =
     (if m p \<noteq> 0 \<and> m p = m q then strncmp_loop n m (p + 1) (q + 1) else uint (m p) - uint (m q))"

definition strncmp :: "mem \<Rightarrow> u32 \<Rightarrow> u32 \<Rightarrow> u32 \<Rightarrow> int" where
  "strncmp m p q n = strncmp_loop (unat n) m p q"

text \<open>The null pointer result of \<open>strchr\<close> is 0.\<close>

partial_function (option) strchr :: "mem \<Rightarrow> u32 \<Rightarrow> u8 \<Rightarrow> u32 option" where
  "strchr m s c = (if m s \<noteq> 0 then if m s = c then Some s else strchr m (s + 1) c else Some 0)"

partial_function (option) strfind :: "mem \<Rightarrow> u32 \<Rightarrow> u8 \<Rightarrow> u32 option" where
  "strfind m s c = (if m s \<noteq> 0 then if m s = c then Some s else strfind m (s + 1) c else Some s)"

section \<open>Blocks of memory\<close>

text \<open>
  The x86 string instructions.  \<open>rep stosb\<close>/\<open>rep stosl\<close> store the low byte, or the four bytes, of
  \<open>%eax\<close> \<open>k\<close> times at ascending addresses.  One \<open>movs\<close> of \<open>w\<close> bytes reads all of them before it
  writes; the repetition steps by \<open>w\<close> upwards or, with \<open>DF\<close> set, downwards.
\<close>

fun rep_stosb :: "nat \<Rightarrow> u32 \<Rightarrow> u32 \<Rightarrow> mem \<Rightarrow> mem" where
  "rep_stosb 0 d c m = m"
| "rep_stosb (Suc k) d c m = rep_stosb k (d + 1) c (m(d := ucast c))"

fun rep_stosl :: "nat \<Rightarrow> u32 \<Rightarrow> u32 \<Rightarrow> mem \<Rightarrow> mem" where
  "rep_stosl 0 d c m = m"
| "rep_stosl (Suc k) d c m = rep_stosl k (d + 4) c
     (m(d := ucast c, d + 1 := ucast (drop_bit 8 c), d + 2 := ucast (drop_bit 16 c),
        d + 3 := ucast (drop_bit 24 c)))"

definition movs :: "nat \<Rightarrow> u32 \<Rightarrow> u32 \<Rightarrow> mem \<Rightarrow> mem" where
  "movs w d s m = (\<lambda>a. if unat (a - d) < w then m (s + (a - d)) else m a)"

fun rep_movs :: "bool \<Rightarrow> nat \<Rightarrow> nat \<Rightarrow> u32 \<Rightarrow> u32 \<Rightarrow> mem \<Rightarrow> mem" where
  "rep_movs df w 0 d s m = m"
| "rep_movs df w (Suc k) d s m =
     rep_movs df w k (if df then d - of_nat w else d + of_nat w) (if df then s - of_nat w else s + of_nat w)
       (movs w d s m)"

definition memset :: "u32 \<Rightarrow> u32 \<Rightarrow> u32 \<Rightarrow> mem \<Rightarrow> u32 \<times> mem" where
  "memset v c n m =
     (if n = 0 then (v, m)
      else if v mod 4 = 0 \<and> n mod 4 = 0 then
        let c = c AND 0xFF; c = push_bit 24 c OR push_bit 16 c OR push_bit 8 c OR c
        in (v, rep_stosl (unat (n div 4)) v c m)
      else (v, rep_stosb (unat n) v c m))"

definition memmove :: "u32 \<Rightarrow> u32 \<Rightarrow> u32 \<Rightarrow> mem \<Rightarrow> u32 \<times> mem" where
  "memmove dst src n m =
     (let s = src; d = dst in
      if s < d \<and> d < s + n then
        let s = s + n; d = d + n in
        if s mod 4 = 0 \<and> d mod 4 = 0 \<and> n mod 4 = 0
        then (dst, rep_movs True 4 (unat (n div 4)) (d - 4) (s - 4) m)
        else (dst, rep_movs True 1 (unat n) (d - 1) (s - 1) m)
      else
        if s mod 4 = 0 \<and> d mod 4 = 0 \<and> n mod 4 = 0
        then (dst, rep_movs False 4 (unat (n div 4)) d s m)
        else (dst, rep_movs False 1 (unat n) d s m))"

definition memcpy :: "u32 \<Rightarrow> u32 \<Rightarrow> u32 \<Rightarrow> mem \<Rightarrow> u32 \<times> mem" where
  "memcpy dst src n m = memmove dst src n m"

fun memcmp_loop :: "nat \<Rightarrow> mem \<Rightarrow> u32 \<Rightarrow> u32 \<Rightarrow> int" where
  "memcmp_loop 0 m s1 s2 = 0"
| "memcmp_loop (Suc n) m s1 s2 =
     (if m s1 \<noteq> m s2 then uint (m s1) - uint (m s2) else memcmp_loop n m (s1 + 1) (s2 + 1))"

definition memcmp :: "mem \<Rightarrow> u32 \<Rightarrow> u32 \<Rightarrow> u32 \<Rightarrow> int" where
  "memcmp m v1 v2 n = memcmp_loop (unat n) m v1 v2"

text \<open>\<open>for (; s < ends; s++)\<close>: \<open>s\<close> and \<open>ends\<close> are compared as unsigned addresses.\<close>

function memfind_loop :: "mem \<Rightarrow> u32 \<Rightarrow> u32 \<Rightarrow> u8 \<Rightarrow> u32" where
  "memfind_loop m s ends c =
     (if s < ends then if m s = c then s else memfind_loop m (s + 1) ends c else s)"
  by pat_completeness auto

termination
proof (relation "measure (\<lambda>(m, s, ends, c). unat ends - unat s)")
  fix m :: mem and s ends :: u32 and c :: u8
  assume "s < ends"
  then have lt: "unat s < unat ends" by (simp add: word_less_nat_alt)
  moreover have "unat ends < 2 ^ 32" using unsigned_less [of ends, where ?'a = nat] by simp
  ultimately have "unat (s + 1) = unat s + 1" by (simp add: unat_word_ariths)
  with lt show "((m, s + 1, ends, c), m, s, ends, c) \<in> measure (\<lambda>(m, s, ends, c). unat ends - unat s)"
    by simp
qed simp

definition memfind :: "mem \<Rightarrow> u32 \<Rightarrow> u32 \<Rightarrow> u32 \<Rightarrow> u32" where
  "memfind m s c n = memfind_loop m s (s + n) (ucast c)"

section \<open>Numbers\<close>

partial_function (option) skip_blanks :: "mem \<Rightarrow> u32 \<Rightarrow> u32 option" where
  "skip_blanks m s = (if m s = 0x20 \<or> m s = 0x09 then skip_blanks m (s + 1) else Some s)"

text \<open>
  The value of a digit; the comparisons are on signed characters, and all the bounds are
  positive.
\<close>

definition digit_of :: "u8 \<Rightarrow> int option" where
  "digit_of c =
     (if 0x30 \<le> sint c \<and> sint c \<le> 0x39 then Some (sint c - 0x30)
      else if 0x61 \<le> sint c \<and> sint c \<le> 0x7A then Some (sint c - 0x61 + 10)
      else if 0x41 \<le> sint c \<and> sint c \<le> 0x5A then Some (sint c - 0x41 + 10)
      else None)"

text \<open>\<open>val\<close> is a 32-bit \<open>long\<close>; on overflow it wraps, as the compiled code does.\<close>

partial_function (option) strtol_loop :: "mem \<Rightarrow> u32 \<Rightarrow> int \<Rightarrow> u32 \<Rightarrow> (u32 \<times> u32) option" where
  "strtol_loop m s base val =
     (case digit_of (m s) of
        None \<Rightarrow> Some (s, val)
      | Some dig \<Rightarrow> if base \<le> dig then Some (s, val)
                   else strtol_loop m (s + 1) base (val * of_int base + of_int dig))"

text \<open>The result is the value and the end pointer.\<close>

definition strtol :: "mem \<Rightarrow> u32 \<Rightarrow> int \<Rightarrow> (u32 \<times> u32) option" where
  "strtol m s base =
     Option.bind (skip_blanks m s) (\<lambda>s.
       let (s, neg) = (if m s = 0x2B then (s + 1, False) else if m s = 0x2D then (s + 1, True) else (s, False));
           (s, base) = (if (base = 0 \<or> base = 16) \<and> m s = 0x30 \<and> m (s + 1) = 0x78 then (s + 2, 16)
                        else if base = 0 \<and> m s = 0x30 then (s + 1, 8)
                        else if base = 0 then (s, 10) else (s, base))
       in Option.bind (strtol_loop m s base 0) (\<lambda>(s, val). Some (if neg then - val else val, s)))"

end
