(* ===== verification/String_Spec.thy ===== *)
theory String_Spec
  imports String_Lib
begin

text \<open>
  What the string routines compute.  \<open>cstr m p xs\<close> says that the bytes \<open>xs\<close>, none of them NUL,
  and a terminating NUL stand at address \<open>p\<close>.
\<close>

primrec cstr :: "mem \<Rightarrow> u32 \<Rightarrow> u8 list \<Rightarrow> bool" where
  "cstr m p [] \<longleftrightarrow> m p = 0"
| "cstr m p (x # xs) \<longleftrightarrow> m p = x \<and> x \<noteq> 0 \<and> cstr m (p + 1) xs"

section \<open>Lengths and comparison\<close>

lemma strlen_loop_cstr: "cstr m s xs \<Longrightarrow> strlen_loop m s n = Some (n + of_nat (length xs))"
  by (induction xs arbitrary: s n; subst strlen_loop.simps) (auto simp: algebra_simps)

lemma strlen_cstr: "cstr m s xs \<Longrightarrow> strlen m s = Some (of_nat (length xs))"
  by (simp add: strlen_def strlen_loop_cstr)

lemma strnlen_loop_cstr: "cstr m s xs \<Longrightarrow> strnlen_loop k m s n = n + of_nat (min k (length xs))"
  by (induction k arbitrary: s n xs) (case_tac xs; auto simp: algebra_simps)+

text \<open>Lexicographic order of byte lists: the sign of the first difference, a prefix being smaller.\<close>

fun byte_cmp :: "u8 list \<Rightarrow> u8 list \<Rightarrow> int" where
  "byte_cmp [] [] = 0"
| "byte_cmp [] (y # ys) = - uint y"
| "byte_cmp (x # xs) [] = uint x"
| "byte_cmp (x # xs) (y # ys) = (if x = y then byte_cmp xs ys else uint x - uint y)"

lemma strcmp_cstr: "cstr m p xs \<Longrightarrow> cstr m q ys \<Longrightarrow> strcmp m p q = Some (byte_cmp xs ys)"
  by (induction xs ys arbitrary: p q rule: byte_cmp.induct; subst strcmp.simps) auto

lemma strncmp_loop_cstr:
  "cstr m p xs \<Longrightarrow> cstr m q ys \<Longrightarrow> strncmp_loop n m p q = byte_cmp (take n xs) (take n ys)"
  by (induction n arbitrary: p q xs ys) (case_tac xs; case_tac ys; auto)+

lemma uint8_bounds: "0 \<le> uint (x::u8)" "uint x = 0 \<longleftrightarrow> x = 0"
  by (simp_all add: uint_0_iff)

lemma byte_cmp_0: "0 \<notin> set xs \<Longrightarrow> 0 \<notin> set ys \<Longrightarrow> byte_cmp xs ys = 0 \<longleftrightarrow> xs = ys"
  by (induction xs ys rule: byte_cmp.induct) (auto simp: uint_0_iff word_uint_eq_iff [symmetric])

lemma byte_cmp_anti: "byte_cmp ys xs = - byte_cmp xs ys"
  by (induction xs ys rule: byte_cmp.induct) auto

lemma cstr_nonzero: "cstr m p xs \<Longrightarrow> 0 \<notin> set xs"
  by (induction xs arbitrary: p) auto

section \<open>Block copies\<close>

lemma unat_sub_word: "unat (a - b :: u32) = (if unat b \<le> unat a then unat a - unat b else unat a + 2 ^ 32 - unat b)"
  by (simp add: unat_sub_if')

lemma unat_add_word: "unat (a + b :: u32) = (if unat a + unat b < 2 ^ 32 then unat a + unat b else unat a + unat b - 2 ^ 32)"
  by (simp add: unat_plus_if')

lemma movs_0: "movs 0 d s m = m"
  by (simp add: movs_def)

text \<open>A block copy split at the front and at the back; the second part must not read what the first wrote.\<close>

lemma movs_front:
  assumes "w + n \<le> 2 ^ 32"
    and "\<And>x. w \<le> unat x \<Longrightarrow> unat x < w + n \<Longrightarrow> w \<le> unat (s + x - d)"
  shows "movs n (d + of_nat w) (s + of_nat w) (movs w d s m) = movs (w + n) d s m"
proof (cases "n = 0")
  case True
  then show ?thesis by (simp add: movs_0)
next
  case False
  then have uw: "unat (of_nat w :: u32) = w" using assms(1) by (simp add: unsigned_of_nat take_bit_nat_eq_self)
  show ?thesis
  proof
    fix a
    define x where "x = a - d"
    have e1: "a - (d + of_nat w) = x - of_nat w" by (simp add: x_def)
    have e2: "s + of_nat w + (x - of_nat w) = s + x" by simp
    have ux: "unat (x - of_nat w) = (if w \<le> unat x then unat x - w else unat x + 2 ^ 32 - w)"
      by (simp add: unat_sub_word uw)
    show "movs n (d + of_nat w) (s + of_nat w) (movs w d s m) a = movs (w + n) d s m a"
      using assms(2) [of x] assms(1) False unfolding movs_def e1 e2 ux
      by (auto simp: x_def [symmetric])
  qed
qed

lemma movs_back:
  assumes "w + n \<le> 2 ^ 32"
    and "\<And>x. unat x < n \<Longrightarrow> w \<le> unat (s + x - (d + of_nat n))"
  shows "movs n d s (movs w (d + of_nat n) (s + of_nat n) m) = movs (n + w) d s m"
proof (cases "w = 0")
  case True
  then show ?thesis by (simp add: movs_0)
next
  case False
  then have un: "unat (of_nat n :: u32) = n" using assms(1) by (simp add: unsigned_of_nat take_bit_nat_eq_self)
  show ?thesis
  proof
    fix a
    define x where "x = a - d"
    have e1: "a - (d + of_nat n) = x - of_nat n" by (simp add: x_def)
    have e2: "s + of_nat n + (x - of_nat n) = s + x" by simp
    have ux: "unat (x - of_nat n) = (if n \<le> unat x then unat x - n else unat x + 2 ^ 32 - n)"
      by (simp add: unat_sub_word un)
    show "movs n d s (movs w (d + of_nat n) (s + of_nat n) m) a = movs (n + w) d s m a"
      using assms(2) [of x] assms(1) False unfolding movs_def e1 e2 ux
      by (auto simp: x_def [symmetric])
  qed
qed

lemma rep_movs_up:
  assumes "w * k \<le> 2 ^ 32"
    and "\<And>x. w \<le> unat x \<Longrightarrow> unat x < w * k \<Longrightarrow> w \<le> unat (s + x - d)"
  shows "rep_movs False w k d s m = movs (w * k) d s m"
  using assms
proof (induction k arbitrary: d s m)
  case 0
  then show ?case by (simp add: movs_0)
next
  case (Suc k)
  have "rep_movs False w k (d + of_nat w) (s + of_nat w) (movs w d s m) =
      movs (w * k) (d + of_nat w) (s + of_nat w) (movs w d s m)"
    by (rule Suc.IH) (use Suc.prems in \<open>auto simp: add_diff_eq\<close>)
  also have "\<dots> = movs (w + w * k) d s m" by (rule movs_front) (use Suc.prems in auto)
  finally show ?case by simp
qed

lemma rep_movs_down:
  assumes "w * k \<le> 2 ^ 32"
    and "\<And>x y. unat x < w * y \<Longrightarrow> y < k \<Longrightarrow> w \<le> unat (s + x - (d + of_nat (w * y)))"
  shows "rep_movs True w k (d + of_nat (w * k) - of_nat w) (s + of_nat (w * k) - of_nat w) m = movs (w * k) d s m"
  using assms
proof (induction k arbitrary: m)
  case 0
  then show ?case by (simp add: movs_0)
next
  case (Suc k)
  have e: "z + of_nat (w * Suc k) - of_nat w = z + of_nat (w * k)" for z :: u32 by simp
  have "rep_movs True w k (d + of_nat (w * k) - of_nat w) (s + of_nat (w * k) - of_nat w)
        (movs w (d + of_nat (w * k)) (s + of_nat (w * k)) m) =
      movs (w * k) d s (movs w (d + of_nat (w * k)) (s + of_nat (w * k)) m)"
    by (rule Suc.IH) (use Suc.prems in auto)
  also have "\<dots> = movs (w * k + w) d s m" by (rule movs_back) (use Suc.prems in auto)
  finally show ?case unfolding e by (simp add: add.commute)
qed

lemma mod4_word: "(n::u32) mod 4 = 0 \<Longrightarrow> 4 * unat (n div 4) = unat n"
proof -
  assume "n mod 4 = 0"
  then have "unat (n mod 4) = 0" by simp
  then have "unat n mod 4 = 0" by (simp add: unat_mod_distrib)
  then show ?thesis by (auto simp: unat_div_distrib)
qed

lemma memmove_eq:
  assumes "unat src + unat n < 2 ^ 32" and "unat dst + unat n \<le> 2 ^ 32"
  shows "memmove dst src n m = (dst, movs (unat n) dst src m)"
proof (cases "src < dst \<and> dst < src + n")
  case True
  then have lt: "unat src < unat dst" "unat dst < unat src + unat n"
    using assms(1) by (auto simp: word_less_nat_alt unat_add_word)
  have down: "rep_movs True w k (dst + n - of_nat w) (src + n - of_nat w) m = movs (unat n) dst src m"
    if "w * k = unat n" "0 < w" for w k
  proof -
    have "w \<le> unat (src + x - (dst + of_nat (w * y)))" if x: "unat x < w * y" "y < k" for x y
    proof -
      have y: "w * y + w \<le> unat n" using x(2) \<open>w * k = unat n\<close> by (metis Suc_leI mult_Suc_right mult_le_mono2 add.commute)
      then have "unat (of_nat (w * y) :: u32) = w * y"
        using assms(1) by (simp add: unsigned_of_nat take_bit_nat_eq_self del: of_nat_mult)
      then have "unat (dst + of_nat (w * y)) = unat dst + w * y"
        using y assms(2) \<open>0 < w\<close> by (simp add: unat_add_word del: of_nat_mult)
      moreover have "unat (src + x) = unat src + unat x" using x y assms(1) by (simp add: unat_add_word)
      ultimately show ?thesis
        using x(1) lt y assms(2) by (simp add: unat_sub_word del: of_nat_mult)
    qed
    moreover have "w * k \<le> 2 ^ 32" using assms that by simp
    ultimately show ?thesis using rep_movs_down [of w k src dst m] that(1) by simp
  qed
  then show ?thesis
    using True down [of 4 "unat (n div 4)"] down [of 1 "unat n"]
    by (simp add: memmove_def Let_def mod4_word)
next
  case False
  have up: "rep_movs False w k dst src m = movs (unat n) dst src m" if "w * k = unat n" "0 < w" for w k
  proof -
    have "w \<le> unat (src + x - dst)" if x: "w \<le> unat x" "unat x < w * k" for x
    proof -
      have s: "unat (src + x) = unat src + unat x" using x \<open>w * k = unat n\<close> assms(1) by (simp add: unat_add_word)
      have "unat dst \<le> unat src \<or> unat src + unat n \<le> unat dst"
        using False assms(1) by (auto simp: word_less_nat_alt unat_add_word)
      then show ?thesis using s x \<open>w * k = unat n\<close> assms(2) by (auto simp: unat_sub_word)
    qed
    then show ?thesis using rep_movs_up [of w k src dst m] that assms by simp
  qed
  then show ?thesis
    using False up [of 4 "unat (n div 4)"] up [of 1 "unat n"]
    by (auto simp: memmove_def Let_def mod4_word)
qed

section \<open>Filling\<close>

lemma unat_minus_1: "unat (x - 1 :: u32) = (if x = 0 then 2 ^ 32 - 1 else unat x - 1)"
proof (cases "x = 0")
  case False
  then have "1 \<le> unat x" by (simp add: Suc_le_eq unat_gt_0)
  then show ?thesis using False by (simp add: unat_sub_word)
next
  case True
  then show ?thesis using unat_sub_word [of 0 1] by simp
qed

lemma rep_stosb_eq:
  "k < 2 ^ 32 \<Longrightarrow> rep_stosb k d c m = (\<lambda>a. if unat (a - d) < k then ucast c else m a)"
proof (induction k arbitrary: d m)
  case 0
  then show ?case by simp
next
  case (Suc k)
  have ux: "unat (a - (d + 1)) = (if a = d then 2 ^ 32 - 1 else unat (a - d) - 1)" for a
    using unat_minus_1 [of "a - d"] by (simp add: diff_diff_eq)
  show ?case
  proof
    fix a
    have "rep_stosb (Suc k) d c m a = (if unat (a - (d + 1)) < k then ucast c else (m(d := ucast c)) a)"
      using Suc.prems by (subst rep_stosb.simps, subst Suc.IH) simp_all
    then show "rep_stosb (Suc k) d c m a = (if unat (a - d) < Suc k then ucast c else m a)"
      using ux [of a] Suc.prems unat_gt_0 [of "a - d"] by (cases "a = d") (auto simp: less_Suc_eq_le)
  qed
qed

lemma rep_stosl_eq:
  assumes "c = push_bit 24 b OR push_bit 16 b OR push_bit 8 b OR b" and "b AND 0xFF = b"
  shows "rep_stosl k d c m = rep_stosb (4 * k) d b m"
proof (induction k arbitrary: d m)
  case 0
  then show ?case by simp
next
  case (Suc k)
  have b8: "\<not> bit b i" if "8 \<le> i" for i
  proof -
    have "b = take_bit 8 b" using assms(2) by (simp add: take_bit_eq_mask mask_eq_decr_exp)
    then show ?thesis using that by (metis bit_take_bit_iff not_less)
  qed
  have "(ucast (drop_bit n c) :: u8) = ucast b" if "n \<in> {0, 8, 16, 24}" for n
  proof (rule bit_word_eqI)
    fix i assume "i < LENGTH(8)"
    then have i: "i < 8" by simp
    show "bit (ucast (drop_bit n c) :: u8) i = bit (ucast b :: u8) i"
      using that i b8 [of "8 + i"] b8 [of "16 + i"] b8 [of "24 + i"]
      by (auto simp: assms(1) bit_simps)
  qed
  from this [of 0] this [of 8] this [of 16] this [of 24]
  have bytes: "(ucast c :: u8) = ucast b" "(ucast (drop_bit 8 c) :: u8) = ucast b"
    "(ucast (drop_bit 16 c) :: u8) = ucast b" "(ucast (drop_bit 24 c) :: u8) = ucast b" by simp_all
  have four: "4 * Suc k = Suc (Suc (Suc (Suc (4 * k))))" by simp
  show ?case unfolding four using Suc by (simp add: bytes add.assoc fun_upd_def)
qed

lemma memset_eq: "memset v c n m = (v, \<lambda>a. if unat (a - v) < unat n then ucast c else m a)"
proof (cases "v mod 4 = 0 \<and> n mod 4 = 0 \<and> n \<noteq> 0")
  case True
  let ?b = "c AND 0xFF"
  have b: "?b = take_bit 8 c" by (simp add: take_bit_eq_mask mask_eq_decr_exp)
  have "memset v c n m = (v, rep_stosl (unat (n div 4)) v (push_bit 24 ?b OR push_bit 16 ?b OR push_bit 8 ?b OR ?b) m)"
    using True by (simp only: memset_def Let_def if_False if_True simp_thms)
  also have "rep_stosl (unat (n div 4)) v (push_bit 24 ?b OR push_bit 16 ?b OR push_bit 8 ?b OR ?b) m =
      rep_stosb (4 * unat (n div 4)) v ?b m"
    by (rule rep_stosl_eq [OF refl]) (simp add: and.assoc)
  also have "\<dots> = (\<lambda>a. if unat (a - v) < unat n then ucast ?b else m a)"
    using mod4_word [of n] True rep_stosb_eq [of "unat n" v ?b m] unsigned_less [of n, where ?'a = nat] by simp
  also have "(ucast ?b :: u8) = ucast c" unfolding b by (rule bit_word_eqI) (simp add: bit_simps)
  finally show ?thesis .
next
  case False
  then show ?thesis
    using rep_stosb_eq [of "unat n" v c m] unsigned_less [of n, where ?'a = nat] by (auto simp: memset_def fun_eq_iff)
qed

section \<open>Bounded copies\<close>

lemma strlcpy_loop_bounds:
  assumes "k < 2 ^ 32 - 1"
  shows "case strlcpy_loop k dst src m of (d, t) \<Rightarrow>
    unat (d - dst) \<le> k \<and> t d = 0 \<and> (\<forall>a. k < unat (a - dst) \<longrightarrow> t a = m a)"
  using assms
proof (induction k arbitrary: dst src m)
  case 0
  then show ?case by auto
next
  case (Suc k)
  have step: "unat (x - dst) \<le> Suc k" if "unat (x - (dst + 1)) \<le> k" for x
  proof -
    define y where "y = x - (dst + 1)"
    have "x - dst = y + 1" "unat y \<le> k" using that by (simp_all add: y_def)
    then show ?thesis using Suc.prems unat_add_word [of y 1] by simp
  qed
  obtain d t where r: "strlcpy_loop k (dst + 1) (src + 1) (m(dst := m src)) = (d, t)" by fastforce
  have "case strlcpy_loop k (dst + 1) (src + 1) (m(dst := m src)) of (d, t) \<Rightarrow>
      unat (d - (dst + 1)) \<le> k \<and> t d = 0 \<and> (\<forall>a. k < unat (a - (dst + 1)) \<longrightarrow> t a = (m(dst := m src)) a)"
    by (rule Suc.IH) (use Suc.prems in simp)
  then have IH: "unat (d - (dst + 1)) \<le> k" "t d = 0"
    "\<And>a. k < unat (a - (dst + 1)) \<Longrightarrow> t a = (m(dst := m src)) a" unfolding r by blast+
  have "t a = m a" if "Suc k < unat (a - dst)" for a
  proof -
    have "k < unat (a - (dst + 1))" using step [of a] that by (metis not_le)
    moreover have "a \<noteq> dst" using that by auto
    ultimately show ?thesis using IH(3) [of a] by simp
  qed
  then show ?case using IH(1,2) step [of d] r by auto
qed

section \<open>Properties\<close>

text \<open>
  C25: \<open>memmove\<close> copies the \<open>n\<close> bytes as if all were read before any is written, whatever the
  overlap, the direction and the unit (bytes or words) it chooses, and changes nothing outside
  the destination, for every source that ends below the top of the address space.
\<close>

theorem memmove_copies_at_once:
  assumes "unat src + unat n < 2 ^ 32" and "unat dst + unat n \<le> 2 ^ 32"
  shows "memmove dst src n m =
    (dst, \<lambda>a. if unat (a - dst) < unat n then m (src + (a - dst)) else m a)"
  using memmove_eq [OF assms] by (simp add: movs_def)

theorem memmove_copies_at_once_witness:
  "snd (memmove 0x1004 0x1000 8 (\<lambda>a. ucast a)) 0x1008 = 4"
  using memmove_copies_at_once [where src = "0x1000" and n = "8" and dst = "0x1004"] by simp

text \<open>
  C26: \<open>strlcpy\<close> with any source, terminated or not, writes only inside the \<open>sz\<close> bytes of the
  destination, leaves it terminated at the offset it returns, and returns less than \<open>sz\<close>.
\<close>

theorem strlcpy_stays_in_bounds:
  assumes "0 < sz"
  shows "unat (fst (strlcpy dst src sz m)) < unat sz \<and>
     snd (strlcpy dst src sz m) (dst + fst (strlcpy dst src sz m)) = 0 \<and>
     (\<forall>a. unat sz \<le> unat (a - dst) \<longrightarrow> snd (strlcpy dst src sz m) a = m a)"
proof -
  have sz: "0 < unat sz" "unat sz < 2 ^ 32"
    using assms unsigned_less [of sz, where ?'a = nat] by (simp_all add: word_less_nat_alt)
  obtain d t where r: "strlcpy_loop (unat sz - 1) dst src m = (d, t)" by fastforce
  have "unat sz - 1 < 2 ^ 32 - 1" using sz by simp
  from strlcpy_loop_bounds [OF this, where dst = dst and src = src and m = m]
  have "unat (d - dst) \<le> unat sz - 1" "t d = 0" "\<And>a. unat sz - 1 < unat (a - dst) \<Longrightarrow> t a = m a"
    unfolding r by blast+
  then show ?thesis using sz assms r by (auto simp: strlcpy_def)
qed

theorem strlcpy_stays_in_bounds_witness:
  "fst (strlcpy 0x2000 0x1000 4 (\<lambda>_. 0x61)) = 3 \<and> snd (strlcpy 0x2000 0x1000 4 (\<lambda>_. 0x61)) 0x2004 = 0x61"
proof -
  have "fst (strlcpy 0x2000 0x1000 4 (\<lambda>_. 0x61)) = 3" by (simp add: strlcpy_def numeral_3_eq_3)
  moreover have "snd (strlcpy 0x2000 0x1000 4 (\<lambda>_. 0x61)) 0x2004 = 0x61"
    using strlcpy_stays_in_bounds [where sz = "4" and dst = "0x2000"] by simp
  ultimately show ?thesis by simp
qed

text \<open>
  C26: on terminated strings \<open>strcmp\<close> ends; its result is 0 exactly for equal strings, and
  swapping the arguments negates it.
\<close>

theorem strcmp_orders_strings:
  assumes "cstr m p xs" and "cstr m q ys"
  shows "\<exists>r. strcmp m p q = Some r \<and> (r = 0 \<longleftrightarrow> xs = ys) \<and> strcmp m q p = Some (- r)"
  using strcmp_cstr [OF assms] strcmp_cstr [OF assms(2,1)] cstr_nonzero [OF assms(1)] cstr_nonzero [OF assms(2)]
  by (auto simp: byte_cmp_0 byte_cmp_anti [of ys xs])

theorem strcmp_orders_strings_witness:
  "\<exists>r. strcmp ((\<lambda>_. 0)(0x10 := 0x61, 0x20 := 0x62)) 0x10 0x20 = Some r \<and> r \<noteq> 0"
proof -
  let ?m = "(\<lambda>_. 0)(0x10 := 0x61, 0x20 := 0x62) :: mem"
  have "cstr ?m 0x10 [0x61]" "cstr ?m 0x20 [0x62]" by simp_all
  from strcmp_orders_strings [OF this] show ?thesis by auto
qed

end
