(* ===== verification/Printfmt_Spec.thy ===== *)
theory Printfmt_Spec
  imports Printfmt String_Spec Kstate
begin

text \<open>
  What the formatted output prints, independently of the sink: the routines use \<open>putch\<close>
  uniformly, so each sink sees the same sequence of characters, the one that the list sink
  \<open>emit\<close> collects.
\<close>

section \<open>Uniformity in the sink\<close>

locale sink_hom =
  fixes f :: "'a sink" and g :: "'b sink" and h :: "'a \<Rightarrow> 'b"
  assumes hom: "h (f c s) = g c (h s)"
begin

lemma hom_pow: "h ((f c ^^ n) s) = (g c ^^ n) (h s)"
  by (induction n) (simp_all add: hom)

lemma hom_fold: "h (fold (\<lambda>c. f (k c)) cs s) = fold (\<lambda>c. g (k c)) cs (h s)"
  by (induction cs arbitrary: s) (simp_all add: hom)

lemma hom_printnum: "h (printnum f num base w p s) = printnum g num base w p (h s)"
  by (induction num arbitrary: w s rule: less_induct)
    (subst (1 2) printnum.simps, auto simp: Let_def hom hom_pow)

lemma hom_puts_loop:
  "map_prod id h (puts_loop f alt prec w cs s) = puts_loop g alt prec w cs (h s)"
  by (induction cs arbitrary: prec w s) (auto simp: Let_def hom)

lemma hom_put_string: "h (put_string f sp p s) = put_string g sp p (h s)"
  using hom_puts_loop by (auto simp: put_string_def Let_def hom_pow split_beta map_prod_def
      split: prod.splits) (metis fst_map_prod snd_map_prod fst_conv snd_conv id_apply hom_pow)+

lemma hom_put_signed: "h (put_signed f sp num s) = put_signed g sp num (h s)"
  by (simp add: put_signed_def hom_printnum hom)

lemma hom_put_error: "map_option h (put_error f x s) = put_error g x (h s)"
  by (simp add: put_error_def Let_def hom_put_signed hom_put_string hom_fold split: option.split)

lemma hom_convert:
  "map_option (map_option (map_prod id h)) (convert f ch sp ap s) = convert g ch sp ap (h s)"
  by (auto simp: convert_def hom hom_put_string hom_put_signed hom_printnum option.map_comp comp_def
      hom_put_error [symmetric] split: list.split varg.split)

lemma hom_vprintfmt: "map_option h (vprintfmt f fmt ap s) = vprintfmt g fmt ap (h s)"
proof (induction "length fmt" arbitrary: fmt ap s rule: less_induct)
  case less
  show ?case
  proof (cases fmt)
    case (Cons ch rest)
    show ?thesis
    proof (cases "ch = 0x25")
      case True
      show ?thesis
      proof (cases "reswitch spec0 rest ap")
        case (Some r)
        obtain c sp fmt' ap' where r: "r = (c, sp, fmt', ap')" by (cases r)
        have len: "length fmt' < length fmt"
          using reswitch_length Some r by (fastforce simp: Cons le_imp_less_Suc)
        have again: "map_option h (vprintfmt f rest ap' (f 0x25 s)) = vprintfmt g rest ap' (g 0x25 (h s))"
          using less [of rest] by (simp add: Cons hom)
        show ?thesis
        proof (cases c)
          case None
          then show ?thesis using again Some r by (simp add: Cons True)
        next
          case (Some d)
          note hc = hom_convert [of d sp ap' s]
          have go: "map_option h (vprintfmt f fmt' x t) = vprintfmt g fmt' x (h t)" for x t
            by (rule less [OF len])
          show ?thesis
            using again hc go \<open>reswitch spec0 rest ap = Some r\<close> r Some
            by (cases "convert f d sp ap' s"; cases "convert g d sp ap' (h s)")
              (auto simp: Cons True split: option.split prod.split)
        qed
      qed (simp add: Cons True)
    qed (use less [of rest] in \<open>simp add: Cons hom\<close>)
  qed simp
qed

end

definition emit :: "u32 list sink" where
  "emit c out = out @ [c]"

text \<open>What any sink gets to see is what the list sink collects.\<close>

interpretation any_sink: sink_hom emit putch "\<lambda>out. fold putch out s"
  for putch :: "'s sink" and s
  by unfold_locales (simp add: emit_def)

interpretation kern_sink: sink_hom "kern_putch cput" cput fst
  for cput :: "'c sink"
  by unfold_locales (simp add: kern_putch_def)

lemma vprintfmt_fold:
  "vprintfmt putch fmt ap s = map_option (\<lambda>out. fold putch out s) (vprintfmt emit fmt ap [])"
  using any_sink.hom_vprintfmt [of putch s fmt ap "[]"] by simp

section \<open>Numbers\<close>

function digits :: "nat \<Rightarrow> nat \<Rightarrow> nat list" where
  "digits base n = (if base \<le> n \<and> 2 \<le> base then digits base (n div base) else []) @ [n mod base]"
  by pat_completeness auto

termination
  by (relation "measure (\<lambda>(base, n). n)") auto

declare digits.simps [simp del]

lemma emit_pow: "(emit c ^^ n) out = out @ replicate n c"
  by (induction n) (simp_all add: emit_def replicate_append_same)

lemma printnum_digits:
  "printnum emit n base w p out =
     out @ replicate (nat (w - int (length (digits base n)))) (scast p) @
     map (\<lambda>d. ucast (digit_char d)) (digits base n)"
proof (induction n arbitrary: w out rule: less_induct)
  case (less n)
  have d: "digits base n = (if base \<le> n \<and> 2 \<le> base then digits base (n div base) else []) @ [n mod base]"
    by (rule digits.simps)
  show ?case
  proof (cases "base \<le> n \<and> 2 \<le> base")
    case True
    then have lt: "n div base < n" by auto
    have "printnum emit n base w p out =
        emit (ucast (digit_char (n mod base))) (printnum emit (n div base) base (w - 1) p out)"
      using True by (subst printnum.simps) (simp only: Let_def if_True simp_thms)
    then show ?thesis unfolding less [OF lt] emit_def using d True by (simp add: algebra_simps)
  next
    case False
    then show ?thesis using d by (subst printnum.simps) (auto simp: Let_def emit_def emit_pow)
  qed
qed

definition horner :: "nat \<Rightarrow> nat list \<Rightarrow> nat" where
  "horner base ds = foldl (\<lambda>a d. a * base + d) 0 ds"

lemma horner_digits: "2 \<le> base \<Longrightarrow> horner base (digits base n) = n"
proof (induction n rule: less_induct)
  case (less n)
  then show ?case
    by (subst digits.simps) (auto simp: horner_def)
qed

lemma digits_less: "2 \<le> base \<Longrightarrow> d \<in> set (digits base n) \<Longrightarrow> d < base"
proof (induction n rule: less_induct)
  case (less n)
  show ?case
    using less.prems less.IH [of "n div base"] digits.simps [of base n] by (auto split: if_splits)
qed

lemma digits_nonempty: "digits base n \<noteq> []"
  by (subst digits.simps) simp

section \<open>Reading numbers back\<close>

lemma digit_of_char: "d < 16 \<Longrightarrow> digit_of (digit_char d) = Some (int d) \<and> digit_char d \<notin> {0, 0x20, 0x09, 0x2B, 0x2D, 0x78}"
proof -
  have "list_all (\<lambda>d. digit_of (digit_char d) = Some (int d) \<and> digit_char d \<notin> {0, 0x20, 0x09, 0x2B, 0x2D, 0x78}) [0..<16]"
    by code_simp
  then show "d < 16 \<Longrightarrow> ?thesis" by (simp add: list_all_iff del: upt_rec_numeral)
qed

lemma strtol_loop_digits:
  assumes "\<And>d. d \<in> set ds \<Longrightarrow> d < base" and "base \<le> 16" and "cstr m s (map digit_char ds)"
  shows "strtol_loop m s (int base) v =
    Some (s + of_nat (length ds), foldl (\<lambda>a d. a * of_nat base + of_nat d) v ds)"
  using assms(1,3)
proof (induction ds arbitrary: s v)
  case Nil
  have "digit_of 0 = None" by code_simp
  then show ?case using Nil by (subst strtol_loop.simps) simp
next
  case (Cons d ds)
  have d: "d < base" using Cons.prems(1) [of d] by simp
  moreover have "digit_of (m s) = Some (int d)"
    using Cons.prems(2) digit_of_char [of d] d assms(2) by auto
  moreover have "strtol_loop m (s + 1) (int base) (v * of_nat base + of_nat d) =
      Some (s + 1 + of_nat (length ds), foldl (\<lambda>a d. a * of_nat base + of_nat d) (v * of_nat base + of_nat d) ds)"
    using Cons.prems by (intro Cons.IH) auto
  ultimately show ?case by (subst strtol_loop.simps) (simp add: algebra_simps)
qed

lemma foldl_of_nat:
  "foldl (\<lambda>a d. a * of_nat base + of_nat d) (of_nat v :: u32) ds = of_nat (foldl (\<lambda>a d. a * base + d) v ds)"
proof (induction ds arbitrary: v)
  case (Cons d ds)
  have "foldl (\<lambda>a d. a * of_nat base + of_nat d) (of_nat (v * base + d) :: u32) ds =
      of_nat (foldl (\<lambda>a d. a * base + d) (v * base + d) ds)" by (rule Cons.IH)
  then show ?case by simp
qed simp

lemma strtol_unsigned:
  assumes "2 \<le> base" and "base \<le> 16" and "cstr m s (map digit_char (digits base n))"
  shows "strtol_loop m s (int base) 0 = Some (s + of_nat (length (digits base n)), of_nat n)"
  using strtol_loop_digits [OF digits_less [OF assms(1)] assms(2,3), where v = 0] foldl_of_nat [where base = base and v = 0 and ds = "digits base n"]
    horner_digits [OF assms(1), of n] by (simp add: horner_def)

lemma first_digit:
  assumes "2 \<le> base" and "base \<le> 16" and "cstr m s (map digit_char (digits base n))"
  shows "m s \<notin> {0, 0x20, 0x09, 0x2B, 0x2D, 0x78}"
proof -
  obtain d ds where d: "digits base n = d # ds" using digits_nonempty [of base n] by (cases "digits base n") auto
  then have "d < 16" using digits_less [OF assms(1), of d n] assms(2) by simp
  then show ?thesis using assms(3) d digit_of_char [of d] by auto
qed

lemma skip_blanks_none: "m s \<noteq> 0x20 \<Longrightarrow> m s \<noteq> 0x09 \<Longrightarrow> skip_blanks m s = Some s"
  by (subst skip_blanks.simps) simp

lemma strtol_decimal:
  assumes "cstr m s (map digit_char (digits 10 n))"
  shows "strtol m s 10 = Some (of_nat n, s + of_nat (length (digits 10 n)))"
    and "m t = 0x2D \<Longrightarrow> s = t + 1 \<Longrightarrow> strtol m t 10 = Some (- of_nat n, s + of_nat (length (digits 10 n)))"
  using first_digit [OF _ _ assms] strtol_unsigned [OF _ _ assms]
  by (simp_all add: strtol_def skip_blanks_none)

lemma fmt_d: "bytes ''%d'' = [0x25, 0x64]"
  by (simp add: bytes_def)

lemma vprintfmt_d: "vprintfmt emit (bytes ''%d'') [VInt x] [] = Some (put_signed emit spec0 (scast x) [])"
  by (simp add: fmt_d convert_def spec0_def is_digit_def)

lemma ucast_uminus: "ucast (- (y :: u64)) = (- ucast y :: u32)"
proof -
  have "take_bit 32 (- take_bit 64 k) = take_bit 32 (- k)" for k :: int
  proof -
    have "take_bit 32 (- take_bit 64 k) = take_bit 32 (take_bit 64 (- take_bit 64 k))" by (simp add: take_bit_take_bit)
    also have "\<dots> = take_bit 32 (take_bit 64 (- k))" by (simp only: take_bit_minus)
    finally show ?thesis by (simp add: take_bit_take_bit)
  qed
  then show ?thesis by transfer (simp add: take_bit_minus)
qed
lemma scast_word: "sint (scast (x::u32) :: u64) = sint x" "(ucast (- (scast x :: u64)) :: u32) = - x"
  "(ucast (scast x :: u64) :: u32) = x"
proof -
  show x: "(ucast (scast x :: u64) :: u32) = x" by (rule bit_word_eqI) (auto simp: bit_simps)
  show "sint (scast (x::u32) :: u64) = sint x"
    by (rule bit_eqI) (auto simp: bit_simps min_def)
  show "(ucast (- (scast x :: u64)) :: u32) = - x"
    by (simp only: ucast_uminus x)
qed

lemma of_nat_unat64: "(of_nat (unat (y::u64)) :: u32) = ucast y"
  by (simp add: word_unat_eq_iff unsigned_of_nat unsigned_ucast_eq)

lemma put_signed_digits:
  "put_signed emit spec0 (scast (x::u32)) [] =
     map ucast ((if sint x < 0 then [0x2D] else []) @
       map digit_char (digits 10 (unat (if sint x < 0 then - scast x else scast x :: u64))))"
  by (simp add: put_signed_def scast_word printnum_digits spec0_def emit_def comp_def)

lemma ucast_ucast8 [simp]: "ucast (ucast (x::u8) :: u32) = x"
  by (rule bit_word_eqI) (simp add: bit_simps)

lemma ucast_ucast8_comp [simp]: "(ucast :: u32 \<Rightarrow> u8) \<circ> (ucast \<circ> f) = f"
  by (simp add: fun_eq_iff)

text \<open>
  C27: \<open>strtol\<close> in base 10 reads back what \<open>%d\<close> prints, for every 32-bit integer, the smallest one
  included, and stops exactly behind it.
\<close>

theorem strtol_reads_printf:
  "\<exists>out. vprintfmt emit (bytes ''%d'') [VInt x] [] = Some out \<and>
     (cstr m p (map ucast out) \<longrightarrow> strtol m p 10 = Some (x, p + of_nat (length out)))"
proof -
  let ?n = "unat (if sint x < 0 then - scast x else scast x :: u64)"
  let ?out = "put_signed emit spec0 (scast x) []"
  have n: "(if sint x < 0 then - of_nat ?n else of_nat ?n) = x"
    by (auto simp: of_nat_unat64 scast_word)
  have "strtol m p 10 = Some (x, p + of_nat (length ?out))" if "cstr m p (map ucast ?out)"
  proof (cases "sint x < 0")
    case True
    then have "m p = 0x2D" "cstr m (p + 1) (map digit_char (digits 10 ?n))"
      using that by (simp_all add: put_signed_digits)
    note run = strtol_decimal(2) [OF this(2,1) refl]
    have "length ?out = Suc (length (digits 10 ?n))" using True by (simp add: put_signed_digits)
    then have len: "p + 1 + of_nat (length (digits 10 ?n)) = p + of_nat (length ?out)" by simp
    have "- of_nat ?n = x" using n True by metis
    then show ?thesis using run by (simp only: len)
  next
    case False
    then have "cstr m p (map digit_char (digits 10 ?n))" using that by (simp add: put_signed_digits)
    note run = strtol_decimal(1) [OF this]
    have len: "length (digits 10 ?n) = length ?out" using False by (simp add: put_signed_digits)
    have "of_nat ?n = x" using n False by metis
    then show ?thesis using run by (simp only: len)
  qed
  then show ?thesis using vprintfmt_d [of x] by blast
qed

theorem strtol_reads_printf_witness:
  "strtol ((\<lambda>_. 0)(0x10 := 0x2D, 0x11 := 0x37)) 0x10 10 = Some (- 7, 0x12)"
proof -
  let ?m = "(\<lambda>_. 0)(0x10 := 0x2D, 0x11 := 0x37) :: mem"
  have out: "vprintfmt emit (bytes ''%d'') [VInt (- 7)] [] = Some [0x2D, 0x37]" by code_simp
  have "cstr ?m 0x10 (map ucast [0x2D, 0x37 :: u32])" by simp
  with strtol_reads_printf [where x = "- 7" and m = ?m and p = "0x10"] out show ?thesis by simp
qed

section \<open>Bounded buffers\<close>

lemma sprint_fold:
  assumes "sb_buf b \<le> sb_ebuf b" and "sb_ebuf b < length (sb_mem b)"
  defines "k \<equiv> \<lambda>out. min (length out) (sb_ebuf b - sb_buf b)"
  shows "fold sprintputch out b = b\<lparr>sb_cnt := sb_cnt b + of_nat (length out), sb_buf := sb_buf b + k out,
     sb_mem := take (sb_buf b) (sb_mem b) @ map ucast (take (k out) out) @ drop (sb_buf b + k out) (sb_mem b)\<rparr>"
  using assms(1,2) unfolding k_def
proof (induction out arbitrary: b)
  case Nil
  then show ?case by simp
next
  case (Cons c out)
  show ?case
  proof (cases "sb_buf b < sb_ebuf b")
    case True
    let ?b = "sprintputch c b"
    have f: "?b = b\<lparr>sb_cnt := sb_cnt b + 1, sb_mem := (sb_mem b)[sb_buf b := ucast c], sb_buf := Suc (sb_buf b)\<rparr>"
      using True by (simp add: sprintputch_def Let_def)
    have m: "min (length (c # out)) (sb_ebuf b - sb_buf b) = Suc (min (length out) (sb_ebuf b - Suc (sb_buf b)))"
      using True by auto
    have IH: "fold sprintputch out ?b = ?b\<lparr>sb_cnt := sb_cnt ?b + of_nat (length out),
        sb_buf := sb_buf ?b + min (length out) (sb_ebuf ?b - sb_buf ?b),
        sb_mem := take (sb_buf ?b) (sb_mem ?b) @ map ucast (take (min (length out) (sb_ebuf ?b - sb_buf ?b)) out) @
          drop (sb_buf ?b + min (length out) (sb_ebuf ?b - sb_buf ?b)) (sb_mem ?b)\<rparr>"
      by (rule Cons.IH) (use True Cons.prems f in auto)
    have t: "take (Suc (sb_buf b)) ((sb_mem b)[sb_buf b := ucast c]) = take (sb_buf b) (sb_mem b) @ [ucast c]"
      using True Cons.prems by (simp add: take_Suc_conv_app_nth)
    show ?thesis
      unfolding m using IH True by (simp add: f t algebra_simps)
  next
    case False
    then have z: "sb_ebuf b = sb_buf b" using Cons.prems by simp
    let ?b = "sprintputch c b"
    have f: "?b = b\<lparr>sb_cnt := sb_cnt b + 1\<rparr>" using False by (simp add: sprintputch_def Let_def)
    have "fold sprintputch out ?b = ?b\<lparr>sb_cnt := sb_cnt ?b + of_nat (length out),
        sb_buf := sb_buf ?b + min (length out) (sb_ebuf ?b - sb_buf ?b),
        sb_mem := take (sb_buf ?b) (sb_mem ?b) @ map ucast (take (min (length out) (sb_ebuf ?b - sb_buf ?b)) out) @
          drop (sb_buf ?b + min (length out) (sb_ebuf ?b - sb_buf ?b)) (sb_mem ?b)\<rparr>"
      by (rule Cons.IH) (use Cons.prems f in auto)
    then show ?thesis by (simp add: f z algebra_simps)
  qed
qed

text \<open>
  C28: \<open>vsnprintf\<close> into a buffer of at least \<open>n\<close> bytes stores the first \<open>n - 1\<close> characters of the
  output and a NUL, touches nothing behind the \<open>n\<close> bytes, and returns the length of the whole
  output, truncated or not.
\<close>

theorem vsnprintf_truncates:
  assumes "1 \<le> n" and "n \<le> int (length mem)" and "vprintfmt emit fmt ap [] = Some out"
  shows "vsnprintf (Some mem) n fmt ap = Some (Inr (of_nat (length out),
     map ucast (take (nat n - 1) out) @ [0] @ drop (Suc (min (length out) (nat n - 1))) mem))"
proof -
  let ?b = "\<lparr>sb_mem = mem, sb_buf = 0, sb_ebuf = nat n - 1, sb_cnt = 0\<rparr>"
  let ?k = "min (length out) (nat n - 1)"
  have "?k < length mem" using assms by auto
  then have "(map ucast (take ?k out) @ drop ?k mem)[?k := 0] =
      map ucast (take ?k out) @ [0] @ drop (Suc ?k) mem"
    by (simp add: list_update_append Cons_nth_drop_Suc [symmetric])
  moreover have "take ?k out = take (nat n - 1) out" by (simp add: min_def)
  ultimately show ?thesis
    using assms sprint_fold [where b = ?b and out = out]
    by (simp add: vsnprintf_def vprintfmt_fold [of sprintputch])
qed

theorem vsnprintf_truncates_witness:
  "vsnprintf (Some [1, 2, 3, 4]) 3 (bytes ''abc'') [] = Some (Inr (3, [0x61, 0x62, 0, 4]))"
proof -
  have "vprintfmt emit (bytes ''abc'') [] [] = Some [0x61, 0x62, 0x63]" by code_simp
  from vsnprintf_truncates [OF _ _ this, of 3 "[1, 2, 3, 4]"] show ?thesis by simp
qed

lemma user_fold:
  fixes out :: "u32 list" and b :: printbuf
  assumes "pb_idx b < 255" and "length (pb_buf b) = 256"
  defines "r \<equiv> fold user_putch out b"
  shows "concat (pb_out r) @ take (pb_idx r) (pb_buf r) =
      concat (pb_out b) @ take (pb_idx b) (pb_buf b) @ map ucast out"
    and "pb_idx r < 255" and "length (pb_buf r) = 256" and "pb_cnt r = pb_cnt b + of_nat (length out)"
    and "(\<forall>x \<in> set (pb_out b). length x \<le> 255) \<Longrightarrow> \<forall>x \<in> set (pb_out r). length x \<le> 255"
proof -
  have "concat (pb_out r) @ take (pb_idx r) (pb_buf r) =
      concat (pb_out b) @ take (pb_idx b) (pb_buf b) @ map ucast out \<and>
    pb_idx r < 255 \<and> length (pb_buf r) = 256 \<and> pb_cnt r = pb_cnt b + of_nat (length out) \<and>
    ((\<forall>x \<in> set (pb_out b). length x \<le> 255) \<longrightarrow> (\<forall>x \<in> set (pb_out r). length x \<le> 255))"
    using assms(1,2) unfolding r_def
  proof (induction out arbitrary: b)
    case (Cons c out)
    let ?b = "user_putch c b"
    have buf: "take (Suc (pb_idx b)) ((pb_buf b)[pb_idx b := ucast c]) = take (pb_idx b) (pb_buf b) @ [ucast c]"
      using Cons.prems by (simp add: take_Suc_conv_app_nth)
    have "concat (pb_out ?b) @ take (pb_idx ?b) (pb_buf ?b) =
        concat (pb_out b) @ take (pb_idx b) (pb_buf b) @ [ucast c]"
      and "pb_idx ?b < 255" "length (pb_buf ?b) = 256" "pb_cnt ?b = pb_cnt b + 1"
      and "(\<forall>x \<in> set (pb_out b). length x \<le> 255) \<Longrightarrow> \<forall>x \<in> set (pb_out ?b). length x \<le> 255"
      using Cons.prems buf by (auto simp: user_putch_def Let_def)
    then show ?case using Cons.IH [of ?b] by (simp add: algebra_simps)
  qed simp
  then show "concat (pb_out r) @ take (pb_idx r) (pb_buf r) =
      concat (pb_out b) @ take (pb_idx b) (pb_buf b) @ map ucast out"
    and "pb_idx r < 255" and "length (pb_buf r) = 256" and "pb_cnt r = pb_cnt b + of_nat (length out)"
    and "(\<forall>x \<in> set (pb_out b). length x \<le> 255) \<Longrightarrow> \<forall>x \<in> set (pb_out r). length x \<le> 255"
    by blast+
qed

text \<open>
  C29: the \<open>cprintf\<close> of user programs hands the whole output, in order and nothing else, to
  \<open>sys_cputs\<close> in pieces of at most 255 bytes, whatever the uninitialised buffer held, and returns
  its length.
\<close>

theorem user_cprintf_prints_everything:
  assumes "length buf0 = 256" and "vprintfmt emit fmt ap [] = Some out"
  shows "\<exists>calls. user_cprintf buf0 fmt ap = Some (of_nat (length out), calls) \<and>
     concat calls = map ucast out \<and> (\<forall>x \<in> set calls. length x \<le> 255)"
proof -
  let ?b = "\<lparr>pb_idx = 0, pb_cnt = 0, pb_buf = buf0, pb_out = []\<rparr>"
  let ?r = "fold user_putch out ?b"
  have "user_cprintf buf0 fmt ap = Some (pb_cnt ?r, pb_out ?r @ [take (pb_idx ?r) (pb_buf ?r)])"
    using assms(2) by (simp add: user_cprintf_def user_vcprintf_def vprintfmt_fold [of user_putch])
  then show ?thesis using user_fold [where b = ?b and out = out] assms(1) by auto
qed

theorem user_cprintf_prints_everything_witness:
  "\<exists>calls. user_cprintf (replicate 256 0) (bytes ''hi'') [] = Some (2, calls) \<and> concat calls = [0x68, 0x69]"
proof -
  have "vprintfmt emit (bytes ''hi'') [] [] = Some [0x68, 0x69]" by code_simp
  from user_cprintf_prints_everything [OF _ this, of "replicate 256 0"] show ?thesis by auto
qed

text \<open>The kernel's \<open>cprintf\<close> prints the same characters but always returns 0.\<close>

lemma kern_cprintf_count:
  "kern_cprintf cput fmt ap c = map_option (\<lambda>out. (0, fold cput out c)) (vprintfmt emit fmt ap [])"
proof -
  have "fold (kern_putch cput) out (c, n) = (fold cput out c, n)" for out n
    by (induction out arbitrary: c) (simp_all add: kern_putch_def)
  then show ?thesis
    by (simp add: kern_cprintf_def kern_vcprintf_def vprintfmt_fold [of "kern_putch cput"] option.map_comp comp_def)
qed

text \<open>The nested calls of \<open>%e\<close>.\<close>

lemma put_error_printfmt:
  "vprintfmt putch (bytes ''error %d'') [VInt err] s =
     Some (put_signed putch spec0 (scast err) (fold (\<lambda>c. putch (ucast c)) (bytes ''error '') s))"
  "vprintfmt putch (bytes ''%s'') [VStr p] s = Some (put_string putch spec0 p s)"
  by (simp_all add: bytes_def convert_def spec0_def is_digit_def)

section \<open>Hexadecimal fields\<close>

lemma rev_upt_Suc: "map f (rev [0..<Suc k]) = map (\<lambda>i. f (Suc i)) (rev [0..<k]) @ [f 0]"
proof -
  have "[0..<Suc k] = 0 # map Suc [0..<k]" by (simp add: upt_conv_Cons map_Suc_upt)
  then show ?thesis by (simp add: rev_map comp_def del: upt_Suc)
qed

lemma digits_padded:
  assumes "2 \<le> base" and "n < base ^ Suc k"
  shows "length (digits base n) \<le> Suc k"
    and "replicate (Suc k - length (digits base n)) 0 @ digits base n =
      map (\<lambda>i. n div base ^ i mod base) (rev [0..<Suc k])"
proof -
  have "length (digits base n) \<le> Suc k \<and> replicate (Suc k - length (digits base n)) 0 @ digits base n =
      map (\<lambda>i. n div base ^ i mod base) (rev [0..<Suc k])"
    using assms(2)
  proof (induction k arbitrary: n)
    case 0
    then show ?case by (simp add: digits.simps [of base n])
  next
    case (Suc k)
    have shift: "n div base ^ Suc i mod base = (n div base) div base ^ i mod base" for i
      by (simp add: div_mult2_eq)
    show ?case
    proof (cases "base \<le> n")
      case True
      then have d: "digits base n = digits base (n div base) @ [n mod base]"
        using assms(1) by (subst digits.simps) simp
      have "n div base < base ^ Suc k"
        using Suc.prems by (simp add: less_mult_imp_div_less mult.commute)
      from Suc.IH [OF this] show ?thesis
        unfolding rev_upt_Suc [of _ "Suc k"] shift by (simp add: d)
    next
      case False
      then have "digits base n = [n]" by (subst digits.simps) simp
      moreover have "n div base = 0" using False by simp
      ultimately show ?thesis unfolding rev_upt_Suc [of _ "Suc k"] shift using False
        by (simp add: map_replicate_const)
    qed
  qed
  then show "length (digits base n) \<le> Suc k"
    and "replicate (Suc k - length (digits base n)) 0 @ digits base n =
      map (\<lambda>i. n div base ^ i mod base) (rev [0..<Suc k])" by blast+
qed

lemma hexdigit_char: "d < 16 \<Longrightarrow> of_nat (of_char (hexdigit d)) = digit_char d"
  unfolding digit_char_def hexdigit_def bytes_def by (subst nth_map) simp_all

lemma nibble: "unat (drop_bit (4 * i) (x::u32) AND 0xF) = unat x div 16 ^ i mod 16"
proof -
  have "drop_bit (4 * i) x AND 0xF = take_bit 4 (drop_bit (4 * i) x)"
    by (simp add: take_bit_eq_mask mask_eq_decr_exp)
  moreover have "unat x < 4294967296" using unsigned_less [of x, where ?'a = nat] by simp
  ultimately show ?thesis
    by (simp only: unsigned_take_bit_eq unsigned_drop_bit_eq) (simp add: take_bit_eq_mod drop_bit_eq_div power_mult)
qed

lemma hex8_printf:
  "vprintfmt emit (bytes ''%08x'') [VInt x] [] = Some (map (\<lambda>c. ucast (of_nat (of_char c) :: u8)) (hex8 x))"
proof -
  have "unat x < 16 ^ Suc 7" using unsigned_less [of x, where ?'a = nat] by simp
  note pad = digits_padded [OF _ this, simplified]
  have z: "(ucast (digit_char 0) :: u32) = 0x30" by code_simp
  have x64: "unat (ucast x :: u64) = unat x"
    using unsigned_less [of x, where ?'a = nat] by (simp add: unsigned_ucast_eq take_bit_nat_eq_self)
  have "vprintfmt emit (bytes ''%08x'') [VInt x] [] = Some (printnum emit (unat x) 16 8 0x30 [])"
    by (simp add: bytes_def convert_def spec0_def is_digit_def process_precision_def x64)
  also have "printnum emit (unat x) 16 8 0x30 [] =
      map (\<lambda>d. ucast (digit_char d)) (replicate (8 - length (digits 16 (unat x))) 0 @ digits 16 (unat x))"
    using pad(1) by (simp add: printnum_digits z nat_diff_distrib')
  also have "\<dots> = map (\<lambda>c. ucast (of_nat (of_char c) :: u8)) (hex8 x)"
    unfolding pad(2) hex8_def by (simp add: nibble hexdigit_char upt_rec)
  finally show ?thesis .
qed

end
