(* ===== verification/Kprintf.thy ===== *)
theory Kprintf
  imports Env_Ops Printfmt_Spec
begin

text \<open>
  The kernel's \<open>cprintf\<close> on the state of the kernel: the formatted output of theory \<open>Printfmt\<close>
  goes to the character stream \<open>conout\<close>.
\<close>

definition fmt_string :: "string \<Rightarrow> varg list \<Rightarrow> string" where
  "fmt_string fmt ap =
     (case vprintfmt emit (bytes fmt) ap [] of
        None \<Rightarrow> []
      | Some out \<Rightarrow> map (\<lambda>c. char_of (unat (ucast c :: u8))) out)"

definition kprintf :: "string \<Rightarrow> varg list \<Rightarrow> kstate \<Rightarrow> kstate" where
  "kprintf fmt ap s = kputs (fmt_string fmt ap) s"

definition VString :: "string \<Rightarrow> varg" where
  "VString str = VStr (Some (bytes str))"

lemma kprintf_fields [simp]:
  "phys (kprintf f a s) = phys s" "pages (kprintf f a s) = pages s" "envs (kprintf f a s) = envs s"
  "page_free_list (kprintf f a s) = page_free_list s" "npages (kprintf f a s) = npages s"
  "curenv (kprintf f a s) = curenv s" "kernel_lock (kprintf f a s) = kernel_lock s"
  "cpunum (kprintf f a s) = cpunum s" "cpus (kprintf f a s) = cpus s" "cr2 (kprintf f a s) = cr2 s"
  "cr3 (kprintf f a s) = cr3 s" "cons (kprintf f a s) = cons s" "panicstr (kprintf f a s) = panicstr s"
  "ports (kprintf f a s) = ports s" "didinit (kprintf f a s) = didinit s"
  by (simp_all add: kprintf_def kops curenv_def)

text \<open>The identifiers that \<open>hex8\<close> prints elsewhere in the model are the output of \<open>%08x\<close>.\<close>

lemma fmt_hex8: "fmt_string ''%08x'' [VInt x] = hex8 x"
proof -
  have "unat (of_nat (of_char c) :: u8) = of_char c" for c :: char
    by (simp add: unsigned_of_nat take_bit_nat_eq_self of_char_of)
  then show ?thesis by (simp add: fmt_string_def hex8_printf comp_def)
qed

end
