(* ===== verification/Lapic.thy ===== *)
theory Lapic
  imports Kprintf
begin

text \<open>
  The local APIC (\<^verbatim>\<open>kern/lapic.c\<close>), the 8259A controllers (\<^verbatim>\<open>kern/picirq.c\<close>) and the clock's
  NVRAM ports (\<^verbatim>\<open>kern/kclock.c\<close>) as the sequences of register and port writes they perform.
  The waiting loops on \<open>DELIVS\<close> only end when the hardware has delivered the interrupt; they
  write nothing.
\<close>

section \<open>Local APIC\<close>

definition TPR :: u32 where [jos_consts]: "TPR = 0x80 div 4"
definition EOI :: u32 where [jos_consts]: "EOI = 0xB0 div 4"
definition SVR :: u32 where [jos_consts]: "SVR = 0xF0 div 4"
definition ENABLE :: u32 where [jos_consts]: "ENABLE = 0x100"
definition ESR :: u32 where [jos_consts]: "ESR = 0x280 div 4"
definition ICRLO :: u32 where [jos_consts]: "ICRLO = 0x300 div 4"
definition INIT :: u32 where [jos_consts]: "INIT = 0x500"
definition STARTUP :: u32 where [jos_consts]: "STARTUP = 0x600"
definition ASSERT :: u32 where [jos_consts]: "ASSERT = 0x4000"
definition LEVEL :: u32 where [jos_consts]: "LEVEL = 0x8000"
definition BCAST :: u32 where [jos_consts]: "BCAST = 0x80000"
definition OTHERS :: u32 where [jos_consts]: "OTHERS = 0xC0000"
definition FIXED :: u32 where [jos_consts]: "FIXED = 0"
definition ICRHI :: u32 where [jos_consts]: "ICRHI = 0x310 div 4"
definition TIMER :: u32 where [jos_consts]: "TIMER = 0x320 div 4"
definition X1 :: u32 where [jos_consts]: "X1 = 0xB"
definition PERIODIC :: u32 where [jos_consts]: "PERIODIC = 0x20000"
definition PCINT :: u32 where [jos_consts]: "PCINT = 0x340 div 4"
definition LINT0 :: u32 where [jos_consts]: "LINT0 = 0x350 div 4"
definition LINT1 :: u32 where [jos_consts]: "LINT1 = 0x360 div 4"
definition ERROR :: u32 where [jos_consts]: "ERROR = 0x370 div 4"
definition MASKED :: u32 where [jos_consts]: "MASKED = 0x10000"
definition TICR :: u32 where [jos_consts]: "TICR = 0x380 div 4"
definition TDCR :: u32 where [jos_consts]: "TDCR = 0x3E0 div 4"

definition IRQ_OFFSET :: u32 where [jos_consts]: "IRQ_OFFSET = 32"
definition IRQ_TIMER :: u32 where [jos_consts]: "IRQ_TIMER = 0"
definition IRQ_SPURIOUS :: u32 where [jos_consts]: "IRQ_SPURIOUS = 7"
definition IRQ_ERROR :: u32 where [jos_consts]: "IRQ_ERROR = 19"
definition IRQ_SLAVE :: nat where [jos_consts]: "IRQ_SLAVE = 2"

definition lapicw :: "u32 \<Rightarrow> u32 \<Rightarrow> kstate \<Rightarrow> kstate" where
  "lapicw index val s = s\<lparr>lapic_log := lapic_log s @ [(index, val)]\<rparr>"

text \<open>\<open>ver\<close> is what the device returns for \<open>lapic[VER]\<close>.\<close>

definition lapic_init :: "u32 \<Rightarrow> kstate \<Rightarrow> (unit, kstate) outcome" where
  "lapic_init ver s =
     (if lapicaddr s = 0 then Ret () s
      else kbind (mmio_map_region (lapicaddr s) 4096 s) (\<lambda>a s.
        let s = s\<lparr>lapic := a\<rparr>;
            s = lapicw SVR (ENABLE OR (IRQ_OFFSET + IRQ_SPURIOUS)) s;
            s = lapicw TDCR X1 s;
            s = lapicw TIMER (PERIODIC OR (IRQ_OFFSET + IRQ_TIMER)) s;
            s = lapicw TICR 10000000 s;
            s = (if cpunum s \<noteq> bootcpu s then lapicw LINT0 MASKED s else s);
            s = lapicw LINT1 MASKED s;
            s = (if 4 \<le> drop_bit 16 ver AND 0xFF then lapicw PCINT MASKED s else s);
            s = lapicw ERROR (IRQ_OFFSET + IRQ_ERROR) s;
            s = lapicw ESR 0 s;
            s = lapicw ESR 0 s;
            s = lapicw EOI 0 s;
            s = lapicw ICRHI 0 s;
            s = lapicw ICRLO (BCAST OR INIT OR LEVEL) s
        in Ret () (lapicw TPR 0 s)))"

definition lapic_eoi :: "kstate \<Rightarrow> kstate" where
  "lapic_eoi s = (if lapic s \<noteq> 0 then lapicw EOI 0 s else s)"

text \<open>\<open>outb\<close> to a port outside the console.\<close>

definition koutb :: "u16 \<Rightarrow> u8 \<Rightarrow> kstate \<Rightarrow> kstate" where
  "koutb port data s = s\<lparr>ports := ports s @ [(port, data)]\<rparr>"

definition IO_RTC :: u16 where [jos_consts]: "IO_RTC = 0x70"

text \<open>The warm reset vector at 40:67 is written as two 16-bit words, byte by byte.\<close>

definition lapic_startap :: "u8 \<Rightarrow> u32 \<Rightarrow> kstate \<Rightarrow> (unit, kstate) outcome" where
  "lapic_startap apicid addr s =
     (let s = koutb IO_RTC 0xF s; s = koutb (IO_RTC + 1) 0x0A s in
      kbind (KADDR (push_bit 4 0x40 OR 0x67) s) (\<lambda>wrv s.
        let pa = wrv - KERNBASE; v = drop_bit 4 addr;
            s = pput8 (pa + 1) 0 (pput8 pa 0 s);
            s = pput8 (pa + 3) (ucast (drop_bit 8 v)) (pput8 (pa + 2) (ucast v) s);
            s = lapicw ICRHI (push_bit 24 (ucast apicid)) s;
            s = lapicw ICRLO (INIT OR LEVEL OR ASSERT) s;
            s = lapicw ICRLO (INIT OR LEVEL) s;
            startup = (\<lambda>s. lapicw ICRLO (STARTUP OR drop_bit 12 addr) (lapicw ICRHI (push_bit 24 (ucast apicid)) s))
        in Ret () (startup (startup s))))"

definition lapic_ipi :: "u32 \<Rightarrow> kstate \<Rightarrow> kstate" where
  "lapic_ipi vector s = lapicw ICRLO (OTHERS OR FIXED OR vector) s"

section \<open>Clock and interrupt controllers\<close>

text \<open>\<open>datum\<close> is what the device returns for the register.\<close>

definition mc146818_read :: "u8 \<Rightarrow> u8 \<Rightarrow> kstate \<Rightarrow> u32 \<times> kstate" where
  "mc146818_read datum reg s = (ucast datum, koutb IO_RTC reg s)"

definition mc146818_write :: "u8 \<Rightarrow> u8 \<Rightarrow> kstate \<Rightarrow> kstate" where
  "mc146818_write reg datum s = koutb (IO_RTC + 1) datum (koutb IO_RTC reg s)"

definition IO_PIC1 :: u16 where [jos_consts]: "IO_PIC1 = 0x20"
definition IO_PIC2 :: u16 where [jos_consts]: "IO_PIC2 = 0xA0"

definition irq_setmask_8259A :: "u16 \<Rightarrow> kstate \<Rightarrow> kstate" where
  "irq_setmask_8259A msk s =
     (let s = s\<lparr>irq_mask_8259A := msk\<rparr> in
      if \<not> didinit s then s
      else
        let s = koutb (IO_PIC1 + 1) (ucast msk) s;
            s = koutb (IO_PIC2 + 1) (ucast (drop_bit 8 msk)) s;
            s = kprintf ''enabled interrupts:'' [] s;
            s = fold (\<lambda>i s. if flag (NOT msk) (push_bit i 1) then kprintf '' %d'' [VInt (of_nat i)] s else s) [0..<16] s
        in kputs newline s)"

definition pic_init :: "kstate \<Rightarrow> kstate" where
  "pic_init s =
     (let s = s\<lparr>didinit := True\<rparr>;
          s = koutb (IO_PIC1 + 1) 0xFF s;
          s = koutb (IO_PIC2 + 1) 0xFF s;
          s = koutb IO_PIC1 0x11 s;
          s = koutb (IO_PIC1 + 1) (ucast IRQ_OFFSET) s;
          s = koutb (IO_PIC1 + 1) (push_bit IRQ_SLAVE 1) s;
          s = koutb (IO_PIC1 + 1) 0x3 s;
          s = koutb IO_PIC2 0x11 s;
          s = koutb (IO_PIC2 + 1) (ucast IRQ_OFFSET + 8) s;
          s = koutb (IO_PIC2 + 1) (of_nat IRQ_SLAVE) s;
          s = koutb (IO_PIC2 + 1) 0x01 s;
          s = koutb IO_PIC1 0x68 s;
          s = koutb IO_PIC1 0x0A s;
          s = koutb IO_PIC2 0x68 s;
          s = koutb IO_PIC2 0x0A s
      in if irq_mask_8259A s \<noteq> 0xFFFF then irq_setmask_8259A (irq_mask_8259A s) s else s)"

text \<open>Port writes and APIC writes do not touch what the rest of the kernel relies on.\<close>

lemma lapic_eoi_fields [simp]:
  "phys (lapic_eoi s) = phys s" "pages (lapic_eoi s) = pages s" "envs (lapic_eoi s) = envs s"
  "page_free_list (lapic_eoi s) = page_free_list s" "npages (lapic_eoi s) = npages s"
  "curenv (lapic_eoi s) = curenv s" "kernel_lock (lapic_eoi s) = kernel_lock s"
  "cpunum (lapic_eoi s) = cpunum s" "cons (lapic_eoi s) = cons s"
  by (simp_all add: lapic_eoi_def lapicw_def curenv_def)

text \<open>
  After \<open>pic_init\<close> the masks in the two controllers are the bytes of \<open>irq_mask_8259A\<close>: the last
  writes to their msk registers.
\<close>

definition last_write :: "u16 \<Rightarrow> kstate \<Rightarrow> u8 option" where
  "last_write port s = map_of (rev (ports s)) port"

lemma koutb_fields [simp]:
  "ports (koutb p x s) = ports s @ [(p, x)]" "didinit (koutb p x s) = didinit s"
  "irq_mask_8259A (koutb p x s) = irq_mask_8259A s"
  by (simp_all add: koutb_def)

lemma ports_kprintf_loop:
  "ports (fold (\<lambda>i s. if P i then kprintf (f i) (g i) s else s) is s) = ports s"
  by (induction "is" arbitrary: s) auto

lemma irq_setmask_ports:
  "didinit s \<Longrightarrow> ports (irq_setmask_8259A msk s) =
     ports s @ [(IO_PIC1 + 1, ucast msk), (IO_PIC2 + 1, ucast (drop_bit 8 msk))]"
  unfolding irq_setmask_8259A_def Let_def kputs_def
  by (simp del: upt_rec_numeral add: ports_kprintf_loop [where f = "\<lambda>_. '' %d''" and g = "\<lambda>i. [VInt (of_nat i)]"])

lemma pic_init_masks:
  assumes "irq_mask_8259A s \<noteq> 0xFFFF"
  shows "last_write (IO_PIC1 + 1) (pic_init s) = Some (ucast (irq_mask_8259A s))"
    and "last_write (IO_PIC2 + 1) (pic_init s) = Some (ucast (drop_bit 8 (irq_mask_8259A s)))"
  using assms by (simp_all add: last_write_def pic_init_def Let_def irq_setmask_ports IO_PIC1_def IO_PIC2_def)

end
