(* ===== verification/Descriptors.thy ===== *)
theory Descriptors
  imports Lapic
begin

text \<open>
  Segment and gate descriptors (\<^verbatim>\<open>inc/mmu.h\<close>) with their bit fields at their widths, the global
  descriptor table of \<^verbatim>\<open>kern/env.c\<close>, and the set-up of the interrupt descriptor table and the task
  state segment in \<^verbatim>\<open>kern/trap.c\<close>.  The addresses the linker gives to the trap handlers and to the
  tables are parameters.
\<close>

section \<open>Segment descriptors\<close>

record Segdesc =
  sd_lim_15_0 :: u16
  sd_base_15_0 :: u16
  sd_base_23_16 :: u8
  sd_type :: "4 word"
  sd_s :: "1 word"
  sd_dpl :: "2 word"
  sd_p :: "1 word"
  sd_lim_19_16 :: "4 word"
  sd_avl :: "1 word"
  sd_rsv1 :: "1 word"
  sd_db :: "1 word"
  sd_g :: "1 word"
  sd_base_31_24 :: u8

definition SEG_NULL :: Segdesc where
  "SEG_NULL = \<lparr>sd_lim_15_0 = 0, sd_base_15_0 = 0, sd_base_23_16 = 0, sd_type = 0, sd_s = 0, sd_dpl = 0,
     sd_p = 0, sd_lim_19_16 = 0, sd_avl = 0, sd_rsv1 = 0, sd_db = 0, sd_g = 0, sd_base_31_24 = 0\<rparr>"

definition SEG_FAULT :: Segdesc where
  "SEG_FAULT = \<lparr>sd_lim_15_0 = 0, sd_base_15_0 = 0, sd_base_23_16 = 0, sd_type = 0, sd_s = 1, sd_dpl = 0,
     sd_p = 1, sd_lim_19_16 = 0, sd_avl = 0, sd_rsv1 = 0, sd_db = 1, sd_g = 0, sd_base_31_24 = 0\<rparr>"

definition SEG :: "4 word \<Rightarrow> u32 \<Rightarrow> u32 \<Rightarrow> 2 word \<Rightarrow> Segdesc" where
  "SEG type base lim dpl =
     \<lparr>sd_lim_15_0 = ucast (drop_bit 12 lim AND 0xFFFF), sd_base_15_0 = ucast (base AND 0xFFFF),
      sd_base_23_16 = ucast (drop_bit 16 base AND 0xFF), sd_type = type, sd_s = 1, sd_dpl = dpl, sd_p = 1,
      sd_lim_19_16 = ucast (drop_bit 28 lim), sd_avl = 0, sd_rsv1 = 0, sd_db = 1, sd_g = 1,
      sd_base_31_24 = ucast (drop_bit 24 base)\<rparr>"

definition SEG16 :: "4 word \<Rightarrow> u32 \<Rightarrow> u32 \<Rightarrow> 2 word \<Rightarrow> Segdesc" where
  "SEG16 type base lim dpl =
     \<lparr>sd_lim_15_0 = ucast (lim AND 0xFFFF), sd_base_15_0 = ucast (base AND 0xFFFF),
      sd_base_23_16 = ucast (drop_bit 16 base AND 0xFF), sd_type = type, sd_s = 1, sd_dpl = dpl, sd_p = 1,
      sd_lim_19_16 = ucast (drop_bit 16 lim), sd_avl = 0, sd_rsv1 = 0, sd_db = 1, sd_g = 0,
      sd_base_31_24 = ucast (drop_bit 24 base)\<rparr>"

definition STA_X :: "4 word" where [jos_consts]: "STA_X = 0x8"
definition STA_W :: "4 word" where [jos_consts]: "STA_W = 0x2"
definition STA_R :: "4 word" where [jos_consts]: "STA_R = 0x2"
definition STS_T32A :: "4 word" where [jos_consts]: "STS_T32A = 0x9"
definition STS_CG32 :: "4 word" where [jos_consts]: "STS_CG32 = 0xC"
definition STS_IG32 :: "4 word" where [jos_consts]: "STS_IG32 = 0xE"
definition STS_TG32 :: "4 word" where [jos_consts]: "STS_TG32 = 0xF"

section \<open>Gate descriptors\<close>

record Gatedesc =
  gd_off_15_0 :: u16
  gd_sel :: u16
  gd_args :: "5 word"
  gd_rsv1 :: "3 word"
  gd_type :: "4 word"
  gd_s :: "1 word"
  gd_dpl :: "2 word"
  gd_p :: "1 word"
  gd_off_31_16 :: u16

definition SETGATE :: "bool \<Rightarrow> u16 \<Rightarrow> u32 \<Rightarrow> 2 word \<Rightarrow> Gatedesc" where
  "SETGATE istrap sel off dpl =
     \<lparr>gd_off_15_0 = ucast (off AND 0xFFFF), gd_sel = sel, gd_args = 0, gd_rsv1 = 0,
      gd_type = (if istrap then STS_TG32 else STS_IG32), gd_s = 0, gd_dpl = dpl, gd_p = 1,
      gd_off_31_16 = ucast (drop_bit 16 off)\<rparr>"

definition SETCALLGATE :: "u16 \<Rightarrow> u32 \<Rightarrow> 2 word \<Rightarrow> Gatedesc" where
  "SETCALLGATE sel off dpl =
     \<lparr>gd_off_15_0 = ucast (off AND 0xFFFF), gd_sel = sel, gd_args = 0, gd_rsv1 = 0,
      gd_type = STS_CG32, gd_s = 0, gd_dpl = dpl, gd_p = 1, gd_off_31_16 = ucast (drop_bit 16 off)\<rparr>"

record Pseudodesc =
  pd_lim :: u16
  pd_base :: u32

section \<open>The tables\<close>

definition gdt_init :: "Segdesc list" where
  "gdt_init =
     (replicate (NCPU + 5) SEG_NULL)
       [unat (drop_bit 3 GD_KT) := SEG (STA_X OR STA_R) 0 0xFFFFFFFF 0,
        unat (drop_bit 3 GD_KD) := SEG STA_W 0 0xFFFFFFFF 0,
        unat (drop_bit 3 GD_UT) := SEG (STA_X OR STA_R) 0 0xFFFFFFFF 3,
        unat (drop_bit 3 GD_UD) := SEG STA_W 0 0xFFFFFFFF 3,
        unat (drop_bit 3 GD_TSS0) := SEG_NULL]"

definition zero_gate :: Gatedesc where
  "zero_gate = \<lparr>gd_off_15_0 = 0, gd_sel = 0, gd_args = 0, gd_rsv1 = 0, gd_type = 0, gd_s = 0, gd_dpl = 0,
     gd_p = 0, gd_off_31_16 = 0\<rparr>"

text \<open>The two tables, shared by all processors, and the registers of this one.\<close>

record dtables =
  idt :: "Gatedesc list"
  gdt :: "Segdesc list"
  gdtr :: Pseudodesc
  idtr :: Pseudodesc
  tr :: u16

definition idt_init :: "Gatedesc list" where
  "idt_init = replicate 256 zero_gate"

definition gdt_pd :: "u32 \<Rightarrow> Pseudodesc" where
  "gdt_pd gdt_at = \<lparr>pd_lim = of_nat (8 * (NCPU + 5)) - 1, pd_base = gdt_at\<rparr>"

definition idt_pd :: "u32 \<Rightarrow> Pseudodesc" where
  "idt_pd idt_at = \<lparr>pd_lim = 8 * 256 - 1, pd_base = idt_at\<rparr>"

text \<open>
  \<open>cpus_at\<close> is the address of \<open>cpus\<close>, whose elements have 116 bytes; \<open>cpu_ts\<close> is at offset 12 and
  has 104 bytes.  \<open>None\<close> is the write behind the end of \<open>gdt\<close>.
\<close>

definition sizeof_Taskstate :: u32 where [jos_consts]: "sizeof_Taskstate = 104"

definition cpu_ts_at :: "u32 \<Rightarrow> nat \<Rightarrow> u32" where
  "cpu_ts_at cpus_at i = cpus_at + 116 * of_nat i + 12"

definition trap_init_percpu :: "u32 \<Rightarrow> u32 \<Rightarrow> dtables \<Rightarrow> kstate \<Rightarrow> (dtables \<times> kstate) option" where
  "trap_init_percpu cpus_at idt_at d s =
     (let c = cpunum s; cid = unat (cpu_id (cpus s c)) in
      let s = s\<lparr>cpus := (cpus s)(c := (cpus s c)\<lparr>cpu_ts := (cpu_ts (cpus s c))
                \<lparr>ts_esp0 := KSTACKTOP - of_nat cid * (KSTKSIZE + KSTKGAP)\<rparr>\<rparr>)\<rparr>;
          s = s\<lparr>cpus := (cpus s)(c := (cpus s c)\<lparr>cpu_ts := (cpu_ts (cpus s c))\<lparr>ts_ss0 := GD_KD\<rparr>\<rparr>)\<rparr>;
          i = unat (drop_bit 3 GD_TSS0) + cid
      in if length (gdt d) \<le> i then None
         else
           let d = d\<lparr>gdt := (gdt d)[i := SEG16 STS_T32A (cpu_ts_at cpus_at c) sizeof_Taskstate 0]\<rparr>;
               d = d\<lparr>gdt := (gdt d)[i := (gdt d ! i)\<lparr>sd_s := 0\<rparr>]\<rparr>;
               d = d\<lparr>tr := GD_TSS0 + 8 * of_nat cid\<rparr>
           in Some (d\<lparr>idtr := idt_pd idt_at\<rparr>, s))"

definition T_BRKPT :: u32 where [jos_consts]: "T_BRKPT = 3"
definition T_PGFLT :: u32 where [jos_consts]: "T_PGFLT = 14"
definition T_SYSCALL :: u32 where [jos_consts]: "T_SYSCALL = 48"

text \<open>\<open>th n\<close> is the address of the handler \<open>th\<close>\<^emph>\<open>n\<close>, \<open>th_syscall\<close> that of the system call handler.\<close>

definition set_gates :: "(nat \<Rightarrow> u32) \<Rightarrow> (nat \<times> 2 word) list \<Rightarrow> Gatedesc list \<Rightarrow> Gatedesc list" where
  "set_gates th gs t = fold (\<lambda>(n, dpl) t. t[n := SETGATE False GD_KT (th n) dpl]) gs t"

definition trap_init ::
  "(nat \<Rightarrow> u32) \<Rightarrow> u32 \<Rightarrow> u32 \<Rightarrow> u32 \<Rightarrow> dtables \<Rightarrow> kstate \<Rightarrow> (dtables \<times> kstate) option" where
  "trap_init th th_syscall cpus_at idt_at d s =
     (let d = d\<lparr>idt := set_gates th
            [(0, 0), (1, 0), (3, 3), (4, 0), (5, 0), (6, 0), (7, 0), (8, 0), (9, 0), (10, 0), (11, 0), (12, 0),
             (13, 0), (14, 0), (16, 0)] (idt d)\<rparr>;
          d = d\<lparr>idt := set_gates th (map (\<lambda>i. (unat IRQ_OFFSET + i, 0)) [0..<16]) (idt d)\<rparr>;
          d = d\<lparr>idt := (idt d)[unat T_SYSCALL := SETGATE False GD_KT th_syscall 3]\<rparr>
      in trap_init_percpu cpus_at idt_at d s)"

section \<open>What the processor reads\<close>

definition gate_offset :: "Gatedesc \<Rightarrow> u32" where
  "gate_offset g = ucast (gd_off_15_0 g) OR push_bit 16 (ucast (gd_off_31_16 g))"

definition seg_base :: "Segdesc \<Rightarrow> u32" where
  "seg_base d = ucast (sd_base_15_0 d) OR push_bit 16 (ucast (sd_base_23_16 d)) OR push_bit 24 (ucast (sd_base_31_24 d))"

definition seg_limit :: "Segdesc \<Rightarrow> u32" where
  "seg_limit d =
     (let l = ucast (sd_lim_15_0 d) OR push_bit 16 (ucast (sd_lim_19_16 d))
      in if sd_g d = 1 then push_bit 12 l OR 0xFFF else l)"

lemma ones_masks: "(0xFFFF :: u32) = mask 16" "(0xFF :: u32) = mask 8" "(0xFFF :: u32) = mask 12"
  by (simp_all add: mask_eq_decr_exp)

lemma SETGATE_offset [simp]: "gate_offset (SETGATE istrap sel off dpl) = off"
  unfolding gate_offset_def SETGATE_def ones_masks
  by (intro bit_word_eqI) (auto simp: bit_simps)

lemma SEG_base [simp]: "seg_base (SEG type base lim dpl) = base" "seg_base (SEG16 type base lim dpl) = base"
proof -
  have "ucast (ucast (base AND mask 16) :: u16) OR push_bit 16 (ucast (ucast (drop_bit 16 base AND mask 8) :: u8)) OR
      push_bit 24 (ucast (ucast (drop_bit 24 base) :: u8)) = base" (is "?w = _")
  proof (rule bit_word_eqI)
    fix n :: nat
    assume "n < LENGTH(32)"
    then consider "n < 16" | "16 \<le> n" "n < 24" | "24 \<le> n" "n < 32" by fastforce
    then show "bit ?w n = bit base n" by cases (auto simp: bit_simps)
  qed
  then show "seg_base (SEG type base lim dpl) = base" "seg_base (SEG16 type base lim dpl) = base"
    by (simp_all add: seg_base_def SEG_def SEG16_def ones_masks)
qed

lemma SEG_limit [simp]: "seg_limit (SEG type base lim dpl) = lim OR 0xFFF"
proof -
  have "push_bit 12 (ucast (ucast (drop_bit 12 lim AND mask 16) :: u16) OR
      push_bit 16 (ucast (ucast (drop_bit 28 lim) :: 4 word))) OR mask 12 = lim OR mask 12" (is "?w = _")
  proof (rule bit_word_eqI)
    fix n :: nat
    assume "n < LENGTH(32)"
    then consider "n < 12" | "12 \<le> n" "n < 28" | "28 \<le> n" "n < 32" by fastforce
    then show "bit ?w n = bit (lim OR mask 12) n" by cases (auto simp: bit_simps)
  qed
  then show ?thesis by (simp add: seg_limit_def SEG_def ones_masks)
qed

lemma SEG16_limit [simp]: "unat lim < 0x10000 \<Longrightarrow> seg_limit (SEG16 type base lim dpl) = lim"
proof -
  assume "unat lim < 0x10000"
  then have z: "drop_bit 16 lim = 0" by (simp add: word_unat_eq_iff unat_drop_bit_eq) (simp add: drop_bit_eq_div)
  have "\<not> bit lim n" if "16 \<le> n" for n
    using that arg_cong [OF z, of "\<lambda>w. bit w (n - 16)"] by (simp add: bit_simps)
  then have "ucast (ucast (lim AND mask 16) :: u16) = lim"
    by (intro bit_word_eqI) (auto simp: bit_simps intro: ccontr)
  with z show ?thesis by (simp add: seg_limit_def SEG16_def ones_masks)
qed

lemma SETGATE_fields [simp]:
  "gd_sel (SETGATE istrap sel off dpl) = sel" "gd_dpl (SETGATE istrap sel off dpl) = dpl"
  "gd_p (SETGATE istrap sel off dpl) = 1"
  "gd_type (SETGATE istrap sel off dpl) = (if istrap then STS_TG32 else STS_IG32)"
  by (simp_all add: SETGATE_def)

lemma SEG16_type [simp]: "sd_type (SEG16 type base lim dpl) = type"
  by (simp add: SEG16_def)

lemma seg_system [simp]:
  "seg_base (d\<lparr>sd_s := b\<rparr>) = seg_base d" "seg_limit (d\<lparr>sd_s := b\<rparr>) = seg_limit d"
  by (simp_all add: seg_base_def seg_limit_def)

section \<open>The vectors\<close>

lemma set_gates_length [simp]: "length (set_gates th gs t) = length t"
  unfolding set_gates_def by (induction gs arbitrary: t) auto

lemma set_gates_nth:
  assumes "distinct (map fst gs)" and "v < length t"
  shows "set_gates th gs t ! v =
    (case map_of gs v of None \<Rightarrow> t ! v | Some dpl \<Rightarrow> SETGATE False GD_KT (th v) dpl)"
  using assms
proof (induction gs arbitrary: t)
  case Nil
  then show ?case by (simp add: set_gates_def)
next
  case (Cons g gs)
  obtain n dpl where g: "g = (n, dpl)" by (cases g)
  have "set_gates th (g # gs) t = set_gates th gs (t[n := SETGATE False GD_KT (th n) dpl])"
    by (simp add: set_gates_def g)
  then show ?case
    using Cons.IH [of "t[n := SETGATE False GD_KT (th n) dpl]"] Cons.prems
    by (force simp: g nth_list_update dest: map_of_SomeD split: option.split)
qed

definition trap_vectors :: "nat set" where
  "trap_vectors = {0, 1} \<union> {3..14} \<union> {16} \<union> {32..48}"

text \<open>The vectors the table has before the system call gate is set, with their privilege levels.\<close>

lemma exception_gates:
  "map_of [(0, 0), (1, 0), (3, 3), (4, 0), (5, 0), (6, 0), (7, 0), (8, 0), (9, 0), (10, 0), (11, 0), (12, 0),
     (13, 0), (14, 0), (16, 0)] v =
   (if v \<in> {0, 1} \<union> {3..14} \<union> {16::nat} then Some (if v = 3 then 3 else 0 :: 2 word) else None)"
  by (auto simp: atLeastAtMost_iff) presburger

lemma irq_gates:
  "map_of (map (\<lambda>i. (unat IRQ_OFFSET + i, 0 :: 2 word)) [0..<16]) v =
   (if v \<in> {32..<48} then Some 0 else None)"
proof -
  have "map (\<lambda>i. (unat IRQ_OFFSET + i, 0 :: 2 word)) [0..<16] = map (\<lambda>v. (v, 0)) [32..<48]"
    by (simp add: jos_consts upt_rec)
  then show ?thesis by (simp del: upt_rec_numeral add: map_of_map_restrict restrict_map_def)
qed

text \<open>
  C30: after \<open>trap_init\<close> on a processor with a valid number, every vector the kernel handles has a
  present interrupt gate (so that interrupts are off on entry) into the kernel code segment at the
  address of its handler; user programs can raise only the breakpoint and the system call
  vector; the other entries are untouched.  The task register selects a descriptor whose base and
  limit are those of this processor's task state, with this processor's kernel stack.
\<close>

theorem trap_init_gates:
  assumes "length (idt d) = 256" and "length (gdt d) = NCPU + 5" and "unat (cpu_id (cpus s (cpunum s))) < NCPU"
  shows "\<exists>d' s'. trap_init th th_syscall cpus_at idt_at d s = Some (d', s') \<and>
    (\<forall>v < 256. if v \<in> trap_vectors
       then gate_offset (idt d' ! v) = (if v = 48 then th_syscall else th v) \<and> gd_sel (idt d' ! v) = GD_KT \<and>
         gd_p (idt d' ! v) = 1 \<and> gd_type (idt d' ! v) = STS_IG32 \<and>
         gd_dpl (idt d' ! v) = (if v = 3 \<or> v = 48 then 3 else 0)
       else idt d' ! v = idt d ! v) \<and>
    (let sd = gdt d' ! unat (drop_bit 3 (tr d')) in
       seg_base sd = cpu_ts_at cpus_at (cpunum s) \<and> seg_limit sd = sizeof_Taskstate \<and> sd_s sd = 0 \<and> sd_type sd = STS_T32A) \<and>
    ts_esp0 (cpu_ts (cpus s' (cpunum s))) = KSTACKTOP - ucast (cpu_id (cpus s (cpunum s))) * (KSTKSIZE + KSTKGAP)"
proof -
  let ?g1 = "set_gates th [(0, 0), (1, 0), (3, 3), (4, 0), (5, 0), (6, 0), (7, 0), (8, 0), (9, 0), (10, 0), (11, 0),
    (12, 0), (13, 0), (14, 0), (16, 0)] (idt d)"
  let ?g2 = "set_gates th (map (\<lambda>i. (unat IRQ_OFFSET + i, 0)) [0..<16]) ?g1"
  let ?g3 = "?g2[48 := SETGATE False GD_KT th_syscall 3]"
  let ?cid = "unat (cpu_id (cpus s (cpunum s)))"
  obtain d' s' where r: "trap_init th th_syscall cpus_at idt_at d s = Some (d', s')" and i: "idt d' = ?g3"
    and tr: "tr d' = GD_TSS0 + 8 * of_nat ?cid"
    and sd: "gdt d' ! (5 + ?cid) = (SEG16 STS_T32A (cpu_ts_at cpus_at (cpunum s)) sizeof_Taskstate 0)\<lparr>sd_s := 0\<rparr>"
    and ts: "ts_esp0 (cpu_ts (cpus s' (cpunum s))) = KSTACKTOP - of_nat ?cid * (KSTKSIZE + KSTKGAP)"
    using assms by (auto simp: trap_init_def trap_init_percpu_def Let_def jos_consts simp del: upt_rec_numeral)
  have "distinct (map fst (map (\<lambda>i. (unat IRQ_OFFSET + i, 0 :: 2 word)) [0..<16]))"
    by (simp add: comp_def distinct_map)
  then have "?g2 ! v = (if v \<in> {32..<48} then SETGATE False GD_KT (th v) 0
      else if v \<in> {0, 1} \<union> {3..14} \<union> {16} then SETGATE False GD_KT (th v) (if v = 3 then 3 else 0)
      else idt d ! v)" if "v < 256" for v
    using that assms(1) by (simp add: set_gates_nth irq_gates exception_gates del: map_of.simps upt_rec_numeral One_nat_def)
  then have "idt d' ! v = (if v = 48 then SETGATE False GD_KT th_syscall 3 else if v \<in> trap_vectors
      then SETGATE False GD_KT (th v) (if v = 3 then 3 else 0) else idt d ! v)" if "v < 256" for v
    using that assms(1) by (auto simp: i nth_list_update trap_vectors_def)
  moreover have "seg_limit (SEG16 STS_T32A b sizeof_Taskstate 0) = sizeof_Taskstate" for b
    by (rule SEG16_limit) (simp add: sizeof_Taskstate_def)
  moreover have "unat (drop_bit 3 (GD_TSS0 + 8 * of_nat ?cid)) = 5 + ?cid"
  proof -
    have "unat (GD_TSS0 + 8 * of_nat n :: u16) = 40 + 8 * n" if "n < NCPU" for n
      using that by (simp add: unat_word_ariths jos_consts unsigned_of_nat take_bit_nat_eq_self)
    from this [OF assms(3)] show ?thesis by (simp only: unat_drop_bit_eq) (simp add: drop_bit_eq_div)
  qed
  ultimately show ?thesis
    using r ts sd
    by (intro exI [of _ d'] exI [of _ s'])
      (auto simp: tr Let_def trap_vectors_def)
qed

theorem trap_init_gates_witness:
  "\<exists>d' s'. trap_init (\<lambda>v. of_nat v) 0x480 0x1000 0x2000
     \<lparr>idt = idt_init, gdt = gdt_init, gdtr = gdt_pd 0, idtr = idt_pd 0, tr = 0\<rparr> bss_state = Some (d', s') \<and>
     gate_offset (idt d' ! 14) = 14 \<and> gate_offset (idt d' ! 48) = 0x480"
proof -
  have "length idt_init = 256" "length gdt_init = NCPU + 5"
    by (simp_all add: idt_init_def gdt_init_def)
  moreover have "unat (cpu_id (cpus bss_state (cpunum bss_state))) < NCPU"
    by (simp add: bss_state_def zero_cpu_def jos_consts)
  ultimately obtain d' s' where "trap_init (\<lambda>v. of_nat v) 0x480 0x1000 0x2000
     \<lparr>idt = idt_init, gdt = gdt_init, gdtr = gdt_pd 0, idtr = idt_pd 0, tr = 0\<rparr> bss_state = Some (d', s')"
    and "\<forall>v < 256. v \<in> trap_vectors \<longrightarrow> gate_offset (idt d' ! v) = (if v = 48 then 0x480 else of_nat v)"
    using trap_init_gates [where d = "\<lparr>idt = idt_init, gdt = gdt_init, gdtr = gdt_pd 0, idtr = idt_pd 0, tr = 0\<rparr>"
      and s = bss_state and th = "\<lambda>v. of_nat v" and th_syscall = "0x480" and cpus_at = "0x1000" and idt_at = "0x2000"] by auto
  then show ?thesis by (auto simp: trap_vectors_def)
qed

end
