(* ===== verification/Readline.thy ===== *)
theory Readline
  imports Lapic Kernel_Spec
begin

text \<open>
  Line input for the kernel monitor: \<open>getchar\<close> (\<^verbatim>\<open>kern/console.c\<close>) and \<open>readline\<close>
  (\<^verbatim>\<open>lib/readline.c\<close>), and what remains to be read.
\<close>

section \<open>Remaining input\<close>

definition input_left :: "console \<Rightarrow> nat" where
  "input_left c = length (ser_in c) + length (kbd_in c) + length (waiting c)"

lemma waiting_bound: "buf_ok c \<Longrightarrow> length (waiting c) < 512"
  unfolding buf_ok_def waiting_def by (auto simp: length_ring)

lemma cons_store_left:
  assumes "buf_ok c" and "cons_store ch c = Some d"
  shows "buf_ok d" and "length (ser_in d) = length (ser_in c)" and "length (kbd_in d) = length (kbd_in c)"
    and "length (waiting d) \<le> Suc (length (waiting c))"
proof -
  obtain e where e: "cons_store ch c = Some e" "buf_ok e" "e = c\<lparr>cons_buf := cons_buf e, wpos := wpos e\<rparr>"
    "length (waiting c) < 511 \<longrightarrow> waiting e = waiting c @ [word_of_int ch]"
    by (rule cons_store_ok [OF assms(1), of ch]) blast
  have d: "d = e" using assms(2) e(1) by simp
  show "buf_ok d" using e(2) d by simp
  show "length (ser_in d) = length (ser_in c)" "length (kbd_in d) = length (kbd_in c)"
    unfolding d by (subst e(3), simp)+
  show "length (waiting d) \<le> Suc (length (waiting c))"
    using e(4) waiting_bound [OF e(2)] d by (cases "length (waiting c) < 511") auto
qed

lemma cons_intr_left:
  assumes "\<And>c ch d. proc c = (ch, d) \<Longrightarrow> waiting d = waiting c \<and> buf_ok d = buf_ok c \<and>
      (if ch = -1 then input_left d \<le> input_left c else input_left d < input_left c)"
  shows "cons_intr n proc c = Some d \<Longrightarrow> buf_ok c \<Longrightarrow> buf_ok d \<and> input_left d \<le> input_left c"
proof (induction n arbitrary: c)
  case (Suc n)
  obtain ch e where pr: "proc c = (ch, e)" by fastforce
  have e: "buf_ok e" "if ch = -1 then input_left e \<le> input_left c else input_left e < input_left c"
    using assms [OF pr] Suc.prems(2) by simp_all
  show ?case
  proof (cases "ch = -1 \<or> ch = 0")
    case True
    then show ?thesis using Suc.IH [of e] Suc.prems pr e by fastforce
  next
    case False
    then obtain f where f: "cons_store ch e = Some f" "cons_intr n proc f = Some d"
      using Suc.prems(1) pr by (auto split: Option.bind_splits)
    have "input_left f \<le> Suc (input_left e)"
      using cons_store_left(2-4) [OF e(1) f(1)] by (simp add: input_left_def)
    then show ?thesis using Suc.IH [OF f(2) cons_store_left(1) [OF e(1) f(1)]] e(2) False by auto
  qed
qed simp

lemma serial_left:
  assumes "serial_proc_data c = (ch, d)"
  shows "waiting d = waiting c \<and> buf_ok d = buf_ok c \<and>
    (if ch = -1 then input_left d \<le> input_left c else input_left d < input_left c)"
  using assms by (cases "ser_in c") (auto simp: serial_proc_data_simps waiting_def buf_ok_def input_left_def)

lemma kbd_left:
  assumes "kbd_proc_data c = (ch, d)"
  shows "waiting d = waiting c \<and> buf_ok d = buf_ok c \<and>
    (if ch = -1 then input_left d \<le> input_left c else input_left d < input_left c)"
proof -
  note k = kbd_proc_data_cases [OF assms]
  have "ser_in d = ser_in c" "length (kbd_in d) \<le> length (kbd_in c)"
    using assms by (auto simp: kbd_proc_data_def Let_def outb_def
      split: list.splits kbd_byte.splits if_splits prod.splits)
  then show ?thesis using k by (auto simp: waiting_def buf_ok_def input_left_def)
qed

text \<open>Every character that \<open>cons_getc\<close> returns is one less to come.\<close>

lemma cons_getc_left:
  assumes "buf_ok c" and "cons_getc c = Some (ch, d)"
  shows "buf_ok d" and "ch \<noteq> 0 \<Longrightarrow> input_left d < input_left c"
proof -
  obtain c1 where c1: "serial_intr c = Some c1" using assms(2) by (auto simp: cons_getc_def split: Option.bind_splits)
  then obtain c2 where c2: "kbd_intr c1 = Some c2" using assms(2) by (auto simp: cons_getc_def split: Option.bind_splits)
  have 1: "buf_ok c1 \<and> input_left c1 \<le> input_left c"
    using c1 cons_intr_left [OF serial_left] assms(1) by (auto simp: serial_intr_def simp del: cons_intr.simps split: if_splits)
  then have 2: "buf_ok c2" "input_left c2 \<le> input_left c"
    using c2 cons_intr_left [OF kbd_left] by (fastforce simp: kbd_intr_def simp del: cons_intr.simps)+
  have b: "length (cons_buf c2) = 512" "unat (rpos c2) < 512" "unat (wpos c2) < 512"
    using 2(1) by (simp_all add: buf_ok_def)
  note adv = advance_mod [OF b(2)]
  let ?e = "c2\<lparr>rpos := (if rpos c2 + 1 = CONSBUFSIZE then 0 else rpos c2 + 1)\<rparr>"
  have d: "rpos c2 = wpos c2 \<and> ch = 0 \<and> d = c2 \<or> rpos c2 \<noteq> wpos c2 \<and> d = ?e"
    using assms(2) c1 c2 b by (auto simp: cons_getc_def Let_def split: if_splits)
  have "rpos c2 \<noteq> wpos c2 \<Longrightarrow> length (waiting c2) = Suc (length (waiting ?e))"
    using ring_pop [of "unat (rpos c2)" "cons_buf c2" "unat (wpos c2)"] b adv
    by (simp add: waiting_def word_unat_eq_iff)
  then show "buf_ok d" "ch \<noteq> 0 \<Longrightarrow> input_left d < input_left c"
    using d 2 b adv by (auto simp: buf_ok_def input_left_def)
qed

section \<open>getchar and readline\<close>

text \<open>
  \<open>cons_getc\<close> polls the devices; when it returns 0 there is no input, and \<open>getchar\<close> waits in its
  loop for the next key.
\<close>

definition getchar :: "kstate \<Rightarrow> (u32, kstate) outcome" where
  "getchar s =
     (case cons_getc (cons s) of
        None \<Rightarrow> kernel_fault s
      | Some (ch, c) \<Rightarrow>
          let s = s\<lparr>cons := c\<rparr> in
          if ch = 0 then Leave InMonitor s else Ret (ucast ch) s)"

definition iscons :: "u32 \<Rightarrow> bool" where
  "iscons fdnum = True"

definition BUFLEN :: nat where [jos_consts]: "BUFLEN = 1024"

definition kcputchar :: "u32 \<Rightarrow> kstate \<Rightarrow> kstate" where
  "kcputchar ch s = kputs [char_of (unat (ucast ch :: u8))] s"

text \<open>
  \<open>line\<close> is \<open>buf[0..i-1]\<close>.  The first argument bounds the characters read; \<open>input_left\<close> and one more are
  enough (lemma \<open>readline_total\<close>).
\<close>

fun readline_loop :: "nat \<Rightarrow> bool \<Rightarrow> u8 list \<Rightarrow> kstate \<Rightarrow> (u8 list option, kstate) outcome" where
  "readline_loop 0 echoing line s = Leave Spinning s"
| "readline_loop (Suc n) echoing line s =
     kbind (getchar s) (\<lambda>c s.
       if sint c < 0 then Ret None (kprintf (''read error: %e'' @ newline) [VInt c] s)
       else if (c = 0x08 \<or> c = 0x7F) \<and> 0 < length line then
         readline_loop n echoing (butlast line) (if echoing then kcputchar 0x08 s else s)
       else if 0x20 \<le> sint c \<and> length line < BUFLEN - 1 then
         readline_loop n echoing (line @ [ucast c]) (if echoing then kcputchar c s else s)
       else if c = 0x0A \<or> c = 0x0D then
         Ret (Some line) (if echoing then kcputchar 0x0A s else s)
       else readline_loop n echoing line s)"

definition readline :: "string \<Rightarrow> kstate \<Rightarrow> (u8 list option, kstate) outcome" where
  "readline prompt s =
     (let s = kprintf ''%s'' [VString prompt] s
      in readline_loop (Suc (input_left (cons s))) (iscons 0) [] s)"

text \<open>Console output and input change \<open>conout\<close> and \<open>cons\<close> only.\<close>

definition console_only :: "kstate \<Rightarrow> kstate \<Rightarrow> bool" where
  "console_only s t \<longleftrightarrow> (\<exists>out c. t = s\<lparr>conout := out, cons := c\<rparr> \<and> buf_ok c)"

lemma console_only_refl: "buf_ok (cons s) \<Longrightarrow> console_only s s"
  unfolding console_only_def by (intro exI [of _ "conout s"] exI [of _ "cons s"]) simp

lemma console_onlyI:
  "console_only s t \<Longrightarrow> buf_ok c \<Longrightarrow> console_only s (t\<lparr>cons := c\<rparr>)"
  "console_only s t \<Longrightarrow> console_only s (t\<lparr>conout := out\<rparr>)"
proof -
  assume "console_only s t"
  then obtain out' c' where t: "t = s\<lparr>conout := out', cons := c'\<rparr>" "buf_ok c'" by (auto simp: console_only_def)
  have "t\<lparr>cons := c\<rparr> = s\<lparr>conout := out', cons := c\<rparr>" "t\<lparr>conout := out\<rparr> = s\<lparr>conout := out, cons := c'\<rparr>"
    by (simp_all add: t(1))
  then show "buf_ok c \<Longrightarrow> console_only s (t\<lparr>cons := c\<rparr>)" "console_only s (t\<lparr>conout := out\<rparr>)"
    using t(2) unfolding console_only_def by blast+
qed

lemma console_only_kputs: "console_only s t \<Longrightarrow> console_only s (kputs str t)"
  by (simp add: kops console_onlyI)

lemma console_only_kprintf: "console_only s t \<Longrightarrow> console_only s (kprintf f a t)"
  by (simp add: kprintf_def console_only_kputs)

lemma console_only_kcputchar: "console_only s t \<Longrightarrow> console_only s (kcputchar ch t)"
  by (simp add: kcputchar_def console_only_kputs)

lemma kcputchar_cons [simp]: "cons (kcputchar ch s) = cons s"
  by (simp add: kcputchar_def kops)

lemma console_only_buf: "console_only s t \<Longrightarrow> buf_ok (cons t)"
  by (auto simp: console_only_def)

lemmas console_only_intros = console_only_kputs console_only_kprintf console_only_kcputchar

lemma getchar_cases:
  assumes "console_only s t"
  obtains (wait) u where "getchar t = Leave InMonitor u" and "console_only s u"
  | (char) ch u where "getchar t = Ret (ucast (ch :: u8)) u" and "ch \<noteq> 0" and "console_only s u"
      and "input_left (cons u) < input_left (cons t)"
proof -
  note ok = console_only_buf [OF assms]
  obtain ch c where g: "cons_getc (cons t) = Some (ch, c)" by (rule cons_getc_ok [OF ok]) blast
  have "console_only s (t\<lparr>cons := c\<rparr>)"
    using assms cons_getc_left(1) [OF ok g] by (simp add: console_onlyI)
  then show thesis using that g cons_getc_left(2) [OF ok g] by (cases "ch = 0") (auto simp: getchar_def Let_def)
qed

lemma sint_byte: "sint (ucast (ch :: u8) :: u32) = uint ch"
proof -
  have "unat (ucast ch :: u32) = unat ch" using unsigned_less [of ch, where ?'a = nat] by (simp add: unsigned_ucast_eq take_bit_nat_eq_self_iff)
  moreover have "unat ch < 2 ^ 31" using unsigned_less [of ch, where ?'a = nat] by simp
  ultimately show ?thesis using sint_unat_small [of "ucast ch :: u32"] by simp
qed

text \<open>
  Either the line is complete, with fewer than 1024 bytes and at least one character consumed,
  or the monitor waits for more input.
\<close>

lemma readline_total:
  assumes "input_left (cons t) < n" and "console_only s t" and "length line < BUFLEN"
  shows "(\<exists>u. readline_loop n echoing line t = Leave InMonitor u \<and> console_only s u) \<or>
    (\<exists>r u. readline_loop n echoing line t = Ret (Some r) u \<and> console_only s u \<and> length r < BUFLEN \<and>
       input_left (cons u) < input_left (cons t))"
  using assms
proof (induction n arbitrary: t line)
  case (Suc n)
  from Suc.prems(2) show ?case
  proof (cases rule: getchar_cases)
    case wait
    then show ?thesis by simp
  next
    case (char ch u)
    have pos: "\<not> sint (ucast ch :: u32) < 0" by (simp add: sint_byte)
    have less: "input_left (cons u) < n" using char(4) Suc.prems(1) by simp
    have step: "(\<exists>v. readline_loop n echoing l u' = Leave InMonitor v \<and> console_only s v) \<or>
      (\<exists>r v. readline_loop n echoing l u' = Ret (Some r) v \<and> console_only s v \<and> length r < BUFLEN \<and>
         input_left (cons v) < input_left (cons t))"
      if "cons u' = cons u" "console_only s u'" "length l < BUFLEN" for l u'
      using Suc.IH [of u' l] that less char(4) by fastforce
    show ?thesis
      using char Suc.prems(3) pos step [of u line] step [of u "butlast line"] step [of "kcputchar 0x08 u" "butlast line"]
        step [of u "line @ [ucast (ucast ch :: u32)]"] step [of "kcputchar (ucast ch) u" "line @ [ucast (ucast ch :: u32)]"]
      by (auto simp: console_only_kcputchar)
  qed
qed simp

section \<open>The line editor\<close>

text \<open>After polling, the devices have nothing more to deliver.\<close>

lemma cons_intr_end: "cons_intr n proc c = Some d \<Longrightarrow> \<exists>e. proc e = (-1, d)"
proof (induction n arbitrary: c)
  case (Suc n)
  obtain ch e where pr: "proc c = (ch, e)" by fastforce
  then show ?case using Suc by (cases "ch = -1"; cases "ch = 0") (auto split: Option.bind_splits)
qed simp

lemma uint32_not_minus1 [simp]: "uint (w::u32) \<noteq> -1"
  using uint_ge_0 [of w] by linarith

lemma kbd_proc_end: "kbd_proc_data e = (-1, d) \<Longrightarrow> d = e"
  by (auto simp: kbd_proc_data_def Let_def split: list.splits kbd_byte.splits if_splits prod.splits)

lemma cons_intr_kbd_ser: "cons_intr n kbd_proc_data c = Some d \<Longrightarrow> ser_in d = ser_in c \<and> serial_exists d = serial_exists c"
proof (induction n arbitrary: c)
  case (Suc n)
  obtain ch e where pr: "kbd_proc_data c = (ch, e)" by fastforce
  then have e: "ser_in e = ser_in c" "serial_exists e = serial_exists c"
    by (auto simp: kbd_proc_data_def Let_def outb_def split: list.splits kbd_byte.splits if_splits prod.splits)
  show ?case
  proof (cases "ch = -1 \<or> ch = 0")
    case True
    then show ?thesis using Suc.IH [of e] Suc.prems pr e by auto
  next
    case False
    then obtain f where f: "cons_store ch e = Some f" "cons_intr n kbd_proc_data f = Some d"
      using Suc.prems(1) pr by (auto split: Option.bind_splits)
    then show ?thesis using Suc.IH [OF f(2)] e by (auto simp: cons_store_def Let_def split: if_splits)
  qed
qed simp

lemma cons_getc_all:
  assumes "buf_ok c" and "length (all_input c) < 512"
  obtains ch d where "cons_getc c = Some (ch, d)" and "buf_ok d"
    and "ch = (case all_input c of [] \<Rightarrow> 0 | x # xs \<Rightarrow> x)" and "all_input d = tl (all_input c)"
proof -
  obtain ch d where g: "cons_getc c = Some (ch, d)" "buf_ok d"
    "ch = (case all_input c of [] \<Rightarrow> 0 | x # xs \<Rightarrow> x)" "waiting d = tl (all_input c)"
    by (rule cons_getc_ok [OF assms(1)]) (use assms(2) in blast)
  obtain c1 where c1: "serial_intr c = Some c1" using g(1) by (auto simp: cons_getc_def split: Option.bind_splits)
  then obtain c2 where c2: "kbd_intr c1 = Some c2" using g(1) by (auto simp: cons_getc_def split: Option.bind_splits)
  have d: "ser_in d = ser_in c2" "kbd_in d = kbd_in c2" "serial_exists d = serial_exists c2" "shift d = shift c2"
    using g(1) c1 c2 by (auto simp: cons_getc_def Let_def split: if_splits)
  have "ser_in c1 = []" if ex: "serial_exists c1"
  proof -
    have "cons_intr (Suc (length (ser_in c))) serial_proc_data c = Some c1 \<or> c1 = c \<and> \<not> serial_exists c"
      using c1 by (auto simp: serial_intr_def simp del: cons_intr.simps split: if_splits)
    then obtain e where "serial_proc_data e = (-1, c1)" using ex cons_intr_end by blast
    then show ?thesis by (auto simp: serial_proc_data_def split: list.splits)
  qed
  moreover have "ser_in c2 = ser_in c1" "serial_exists c2 = serial_exists c1"
    using c2 cons_intr_kbd_ser by (auto simp: kbd_intr_def simp del: cons_intr.simps)
  ultimately have ser: "serial_exists d \<Longrightarrow> ser_in d = []" using d by simp
  have "kbd_proc_data c2 = (-1, c2)"
    using c2 cons_intr_end [of _ kbd_proc_data c1 c2] kbd_proc_end by (auto simp: kbd_intr_def simp del: cons_intr.simps)
  then have "kbd_in c2 = [] \<or> (\<exists>ks. kbd_in c2 = MouseByte # ks)"
    by (auto simp: kbd_proc_data_def Let_def split: list.splits kbd_byte.splits if_splits prod.splits)
  then have "kbd_proc_data d = (-1, d)" using d(2) by (auto simp: kbd_proc_data_def)
  then have "delivered (Suc (length (kbd_in d))) kbd_proc_data d = []" by simp
  then have "all_input d = tl (all_input c)" using ser g(4) by (simp add: all_input_def)
  then show thesis using that g by blast
qed

lemma kbd_delivered_length: "length (kbd_in c) < n \<Longrightarrow> length (delivered n kbd_proc_data c) \<le> length (kbd_in c)"
proof (induction n arbitrary: c)
  case (Suc n)
  obtain ch d where pr: "kbd_proc_data c = (ch, d)" by fastforce
  show ?case
  proof (cases "ch = -1")
    case False
    with kbd_proc_data_cases(4) [OF pr] have less: "length (kbd_in d) < length (kbd_in c)" by blast
    then have "length (delivered n kbd_proc_data d) \<le> length (kbd_in d)" by (intro Suc.IH) (use Suc.prems in simp)
    then show ?thesis using pr False less by simp
  qed (use pr in simp)
qed simp

lemma all_input_left: "length (all_input c) \<le> input_left c"
  using kbd_delivered_length [of c "Suc (length (kbd_in c))"] length_filter_le [of "\<lambda>b. b \<noteq> 0" "ser_in c"]
  by (simp add: all_input_def input_left_def del: delivered.simps length_filter_le)

text \<open>
  What \<open>readline\<close> promises: the line that results from the typed characters and the characters
  after it, or nothing as long as no end of line was typed.  Backspace and delete remove the
  last character, but delete on an empty line is an ordinary character.
\<close>

fun edit :: "u8 list \<Rightarrow> u8 list \<Rightarrow> (u8 list \<times> u8 list) option" where
  "edit line [] = None"
| "edit line (c # cs) =
     (if (c = 0x08 \<or> c = 0x7F) \<and> line \<noteq> [] then edit (butlast line) cs
      else if 0x20 \<le> c \<and> length line < 1023 then edit (line @ [c]) cs
      else if c = 0x0A \<or> c = 0x0D then Some (line, cs)
      else edit line cs)"

lemma byte_conv:
  fixes ch :: u8
  shows "(ucast ch :: u32) = 0x08 \<longleftrightarrow> ch = 0x08" "(ucast ch :: u32) = 0x7F \<longleftrightarrow> ch = 0x7F"
    "(ucast ch :: u32) = 0x0A \<longleftrightarrow> ch = 0x0A" "(ucast ch :: u32) = 0x0D \<longleftrightarrow> ch = 0x0D"
    "32 \<le> sint (ucast ch :: u32) \<longleftrightarrow> 0x20 \<le> ch" "(ucast (ucast ch :: u32) :: u8) = ch"
proof -
  have u: "unat (ucast ch :: u32) = unat ch"
    using unsigned_less [of ch, where ?'a = nat] by (simp add: unsigned_ucast_eq take_bit_nat_eq_self_iff)
  show "(ucast ch :: u32) = 0x08 \<longleftrightarrow> ch = 0x08" "(ucast ch :: u32) = 0x7F \<longleftrightarrow> ch = 0x7F"
    "(ucast ch :: u32) = 0x0A \<longleftrightarrow> ch = 0x0A" "(ucast ch :: u32) = 0x0D \<longleftrightarrow> ch = 0x0D"
    using u by (simp_all add: word_unat_eq_iff)
  show "32 \<le> sint (ucast ch :: u32) \<longleftrightarrow> 0x20 \<le> ch" by (simp add: sint_byte word_le_def)
  show "(ucast (ucast ch :: u32) :: u8) = ch" using u by (simp add: word_unat_eq_iff unsigned_ucast_eq take_bit_nat_eq_self_iff)
qed

lemma readline_loop_edit:
  assumes "all_input (cons t) = cs" and "length cs < n" and "length cs < 512" and "buf_ok (cons t)"
    and "0 \<notin> set cs"
  shows "case edit line cs of
      None \<Rightarrow> \<exists>u. readline_loop n echoing line t = Leave InMonitor u
    | Some (r, rest) \<Rightarrow> \<exists>u. readline_loop n echoing line t = Ret (Some r) u \<and> all_input (cons u) = rest"
  using assms
proof (induction n arbitrary: t line cs)
  case (Suc n)
  obtain ch d where g: "cons_getc (cons t) = Some (ch, d)" "buf_ok d"
    "ch = (case cs of [] \<Rightarrow> 0 | x # xs \<Rightarrow> x)" "all_input d = tl cs"
    by (rule cons_getc_all [OF Suc.prems(4)]) (use Suc.prems in auto)
  show ?case
  proof (cases cs)
    case Nil
    then show ?thesis using g by (simp add: getchar_def Let_def)
  next
    case (Cons x xs)
    have "x \<noteq> 0" using Suc.prems(5) Cons by auto
    then have get: "getchar t = Ret (ucast x) (t\<lparr>cons := d\<rparr>)" using g Cons by (simp add: getchar_def Let_def)
    have step: "case edit l xs of
        None \<Rightarrow> \<exists>u. readline_loop n echoing l u' = Leave InMonitor u
      | Some (r, rest) \<Rightarrow> \<exists>u. readline_loop n echoing l u' = Ret (Some r) u \<and> all_input (cons u) = rest"
      if "cons u' = d" for l u'
      by (rule Suc.IH) (use that g Cons Suc.prems in auto)
    have echo: "cons (if echoing then kcputchar k (t\<lparr>cons := d\<rparr>) else t\<lparr>cons := d\<rparr>) = d" for k by simp
    have "\<not> sint (ucast x :: u32) < 0" by (simp add: sint_byte)
    note eq = this get byte_conv Cons jos_consts
    consider "(x = 0x08 \<or> x = 0x7F) \<and> line \<noteq> []" | "\<not> ((x = 0x08 \<or> x = 0x7F) \<and> line \<noteq> [])" "0x20 \<le> x \<and> length line < 1023"
      | "\<not> ((x = 0x08 \<or> x = 0x7F) \<and> line \<noteq> [])" "\<not> (0x20 \<le> x \<and> length line < 1023)" "x = 0x0A \<or> x = 0x0D"
      | "\<not> ((x = 0x08 \<or> x = 0x7F) \<and> line \<noteq> [])" "\<not> (0x20 \<le> x \<and> length line < 1023)" "\<not> (x = 0x0A \<or> x = 0x0D)"
      by blast
    then show ?thesis
    proof cases
      case 1
      then have rl: "readline_loop (Suc n) echoing line t =
          readline_loop n echoing (butlast line) (if echoing then kcputchar 0x08 (t\<lparr>cons := d\<rparr>) else t\<lparr>cons := d\<rparr>)"
        by (simp add: eq)
      from 1 have "edit line cs = edit (butlast line) xs" by (simp add: Cons)
      then show ?thesis unfolding rl using step [OF echo, of "butlast line" "0x08"] by simp
    next
      case 2
      then have rl: "readline_loop (Suc n) echoing line t =
          readline_loop n echoing (line @ [x]) (if echoing then kcputchar (ucast x) (t\<lparr>cons := d\<rparr>) else t\<lparr>cons := d\<rparr>)"
        by (auto simp: eq)
      from 2 have "edit line cs = edit (line @ [x]) xs" by (auto simp: Cons)
      then show ?thesis unfolding rl using step [OF echo, of "line @ [x]" "ucast x"] by simp
    next
      case 3
      then show ?thesis using g(4) by (auto simp: eq)
    next
      case 4
      then have rl: "readline_loop (Suc n) echoing line t = readline_loop n echoing line (t\<lparr>cons := d\<rparr>)"
        by (auto simp: eq)
      from 4 have "edit line cs = edit line xs" by (auto simp: Cons)
      then show ?thesis unfolding rl using step [of "t\<lparr>cons := d\<rparr>" line] by simp
    qed
  qed
qed simp

text \<open>
  C31: \<open>readline\<close> implements the line editor.  With fewer than 512 characters typed so far it
  returns exactly the edited line, leaving what was typed after the end of the line for the
  next call, and it waits for more input if and only if no end of line was typed.
\<close>

theorem readline_implements_editor:
  assumes "buf_ok (cons s)" and "length (all_input (cons s)) < 512" and "0 \<notin> set (all_input (cons s))"
  shows "case edit [] (all_input (cons s)) of
      None \<Rightarrow> \<exists>t. readline prompt s = Leave InMonitor t
    | Some (line, rest) \<Rightarrow>
        \<exists>t. readline prompt s = Ret (Some line) t \<and> all_input (cons t) = rest \<and> length line < BUFLEN"
proof -
  let ?s = "kprintf ''%s'' [VString prompt] s"
  have l: "length (all_input (cons s)) < Suc (input_left (cons s))"
    using all_input_left [of "cons s"] by simp
  have "case edit [] (all_input (cons ?s)) of
      None \<Rightarrow> \<exists>t. readline prompt s = Leave InMonitor t
    | Some (line, rest) \<Rightarrow> \<exists>t. readline prompt s = Ret (Some line) t \<and> all_input (cons t) = rest"
    unfolding readline_def Let_def
    by (rule readline_loop_edit) (use assms l in \<open>auto simp del: readline_loop.simps\<close>)
  moreover have "length line < BUFLEN" if "readline prompt s = Ret (Some line) t" for line t
    using readline_total [of ?s "Suc (input_left (cons ?s))" s "[]" "iscons 0"] that assms(1)
    by (auto simp: readline_def Let_def console_only_kprintf console_only_refl jos_consts simp del: readline_loop.simps)
  ultimately show ?thesis by (auto split: option.splits)
qed

theorem readline_implements_editor_witness:
  "\<exists>t. readline ''K> '' (k_small\<lparr>cons := cons_demo\<lparr>ser_in := [0x68, 0x78, 0x08, 0x69, 0x0D, 0x6A], kbd_in := []\<rparr>\<rparr>) =
     Ret (Some [0x68, 0x69]) t \<and> all_input (cons t) = [0x6A]"
proof -
  let ?c = "cons_demo\<lparr>ser_in := [0x68, 0x78, 0x08, 0x69, 0x0D, 0x6A], kbd_in := []\<rparr>"
  have "all_input ?c = [0x68, 0x78, 0x08, 0x69, 0x0D, 0x6A]"
    by (simp add: all_input_def waiting_def cons_demo_def kbd_proc_data_def)
  moreover have "buf_ok ?c" by (simp add: buf_ok_def cons_demo_def)
  moreover have "edit [] [0x68, 0x78, 0x08, 0x69, 0x0D, 0x6A] = Some ([0x68, 0x69], [0x6A])" by simp
  ultimately show ?thesis
    using readline_implements_editor [of "k_small\<lparr>cons := ?c\<rparr>" "''K> ''"] by auto
qed

end
