(* ===== verification/Monitor.thy ===== *)
theory Monitor
  imports Readline
begin

text \<open>
  Printing of trap frames (\<^verbatim>\<open>kern/trap.c\<close>) and the kernel monitor (\<^verbatim>\<open>kern/monitor.c\<close>): splitting a
  command line into arguments, the table of commands, and the endless loop.
\<close>

section \<open>Trap frames on the console\<close>

definition excnames :: "string list" where
  "excnames =
     [''Divide error'', ''Debug'', ''Non-Maskable Interrupt'', ''Breakpoint'', ''Overflow'',
      ''BOUND Range Exceeded'', ''Invalid Opcode'', ''Device Not Available'', ''Double Fault'',
      ''Coprocessor Segment Overrun'', ''Invalid TSS'', ''Segment Not Present'', ''Stack Fault'',
      ''General Protection'', ''Page Fault'', ''(unknown trap)'', ''x87 FPU Floating-Point Error'',
      ''Alignment Check'', ''Machine-Check'', ''SIMD Floating-Point Exception'']"

text \<open>The first comparison is unsigned (with a \<open>sizeof\<close>), the last two are signed.\<close>

definition trapname :: "u32 \<Rightarrow> string" where
  "trapname trapno =
     (if unat trapno < length excnames then excnames ! unat trapno
      else if trapno = 48 then ''System call''
      else if 32 \<le> sint trapno \<and> sint trapno < 32 + 16 then ''Hardware Interrupt''
      else ''(unknown trap)'')"

definition print_regs :: "PushRegs \<Rightarrow> kstate \<Rightarrow> kstate" where
  "print_regs regs s =
     (let s = kprintf (''  edi  0x%08x'' @ newline) [VInt (reg_edi regs)] s;
          s = kprintf (''  esi  0x%08x'' @ newline) [VInt (reg_esi regs)] s;
          s = kprintf (''  ebp  0x%08x'' @ newline) [VInt (reg_ebp regs)] s;
          s = kprintf (''  oesp 0x%08x'' @ newline) [VInt (reg_oesp regs)] s;
          s = kprintf (''  ebx  0x%08x'' @ newline) [VInt (reg_ebx regs)] s;
          s = kprintf (''  edx  0x%08x'' @ newline) [VInt (reg_edx regs)] s;
          s = kprintf (''  ecx  0x%08x'' @ newline) [VInt (reg_ecx regs)] s
      in kprintf (''  eax  0x%08x'' @ newline) [VInt (reg_eax regs)] s)"

text \<open>\<open>addr\<close> is the pointer \<open>tf\<close>; \<open>cur\<close> tells whether it is \<open>last_tf\<close>.\<close>

definition print_trapframe :: "u32 \<Rightarrow> bool \<Rightarrow> Trapframe \<Rightarrow> kstate \<Rightarrow> kstate" where
  "print_trapframe addr cur tf s =
     (let s = kprintf (''TRAP frame at %p from CPU %d'' @ newline) [VInt addr, VInt (of_nat (cpunum s))] s;
          s = print_regs (tf_regs tf) s;
          s = kprintf (''  es   0x----%04x'' @ newline) [VInt (ucast (tf_es tf))] s;
          s = kprintf (''  ds   0x----%04x'' @ newline) [VInt (ucast (tf_ds tf))] s;
          s = kprintf (''  trap 0x%08x %s'' @ newline) [VInt (tf_trapno tf), VString (trapname (tf_trapno tf))] s;
          s = (if cur \<and> tf_trapno tf = 14 then kprintf (''  cr2  0x%08x'' @ newline) [VInt (cr2 s)] s else s);
          s = kprintf ''  err  0x%08x'' [VInt (tf_err tf)] s;
          s = (if tf_trapno tf = 14
               then kprintf ('' [%s, %s, %s]'' @ newline)
                 [VString (if flag (tf_err tf) 4 then ''user'' else ''kernel''),
                  VString (if flag (tf_err tf) 2 then ''write'' else ''read''),
                  VString (if flag (tf_err tf) 1 then ''protection'' else ''not-present'')] s
               else kprintf newline [] s);
          s = kprintf (''  eip  0x%08x'' @ newline) [VInt (tf_eip tf)] s;
          s = kprintf (''  cs   0x----%04x'' @ newline) [VInt (ucast (tf_cs tf))] s;
          s = kprintf (''  flag 0x%08x'' @ newline) [VInt (tf_eflags tf)] s
      in if tf_cs tf AND 3 \<noteq> 0
         then kprintf (''  ss   0x----%04x'' @ newline) [VInt (ucast (tf_ss tf))]
                (kprintf (''  esp  0x%08x'' @ newline) [VInt (tf_esp tf)] s)
         else s)"

section \<open>Commands\<close>

text \<open>The symbols of the linker script that \<open>mon_kerninfo\<close> prints.\<close>

record ksyms =
  sym_start :: u32
  sym_entry :: u32
  sym_etext :: u32
  sym_edata :: u32
  sym_end :: u32

datatype command = Help | Kerninfo

definition commands :: "(string \<times> string \<times> command) list" where
  "commands = [(''help'', ''Display this list of commands'', Help),
               (''kerninfo'', ''Display information about the kernel'', Kerninfo)]"

definition mon_help :: "kstate \<Rightarrow> int \<times> kstate" where
  "mon_help s =
     (0, fold (\<lambda>(name, desc, _) s. kprintf (''%s - %s'' @ newline) [VString name, VString desc] s) commands s)"

definition mon_kerninfo :: "ksyms \<Rightarrow> kstate \<Rightarrow> int \<times> kstate" where
  "mon_kerninfo sy s =
     (let s = kprintf (''Special kernel symbols:'' @ newline) [] s;
          s = kprintf (''  _start                  %08x (phys)'' @ newline) [VInt (sym_start sy)] s;
          s = kprintf (''  entry  %08x (virt)  %08x (phys)'' @ newline) [VInt (sym_entry sy), VInt (sym_entry sy - KERNBASE)] s;
          s = kprintf (''  etext  %08x (virt)  %08x (phys)'' @ newline) [VInt (sym_etext sy), VInt (sym_etext sy - KERNBASE)] s;
          s = kprintf (''  edata  %08x (virt)  %08x (phys)'' @ newline) [VInt (sym_edata sy), VInt (sym_edata sy - KERNBASE)] s;
          s = kprintf (''  end    %08x (virt)  %08x (phys)'' @ newline) [VInt (sym_end sy), VInt (sym_end sy - KERNBASE)] s
      in (0, kprintf (''Kernel executable memory footprint: %dKB'' @ newline)
               [VInt (ROUNDUP (sym_end sy - sym_entry sy) 1024 div 1024)] s))"

fun run_command :: "ksyms \<Rightarrow> command \<Rightarrow> kstate \<Rightarrow> int \<times> kstate" where
  "run_command sy Help s = mon_help s"
| "run_command sy Kerninfo s = mon_kerninfo sy s"

section \<open>Command lines\<close>

definition WHITESPACE :: "u8 list" where
  "WHITESPACE = [0x09, 0x0D, 0x0A, 0x20]"

definition MAXARGS :: nat where [jos_consts]: "MAXARGS = 16"

text \<open>
  The parsing loop of \<open>runcmd\<close> on the bytes before the NUL: an argument ends where the next
  blank is overwritten with NUL.  \<open>None\<close> is the case of too many arguments.
\<close>

function parse_args :: "u8 list list \<Rightarrow> u8 list \<Rightarrow> u8 list list option" where
  "parse_args argv buf =
     (let buf = dropWhile (\<lambda>b. b \<in> set WHITESPACE) buf in
      if buf = [] then Some argv
      else if length argv = MAXARGS - 1 then None
      else parse_args (argv @ [takeWhile (\<lambda>b. b \<notin> set WHITESPACE) buf])
             (dropWhile (\<lambda>b. b \<notin> set WHITESPACE) buf))"
  by pat_completeness auto

lemma drop_arg_shorter:
  assumes "dropWhile P buf \<noteq> []"
  shows "length (dropWhile (\<lambda>b. \<not> P b) (dropWhile P buf)) < length buf"
proof -
  from assms obtain b bs where b: "dropWhile P buf = b # bs" by (cases "dropWhile P buf") auto
  then have "\<not> P b" by (metis hd_dropWhile list.distinct(1) list.sel(1))
  moreover have "length (dropWhile (\<lambda>b. \<not> P b) bs) \<le> length bs" by (rule length_dropWhile_le)
  moreover have "length (b # bs) \<le> length buf" by (metis b length_dropWhile_le)
  ultimately show ?thesis by (simp add: b)
qed

termination parse_args
  by (relation "measure (\<lambda>(argv, buf). length buf)")
    (auto simp: drop_arg_shorter [of "\<lambda>b. b \<in> set WHITESPACE"])

declare parse_args.simps [simp del]

definition runcmd :: "ksyms \<Rightarrow> u8 list \<Rightarrow> kstate \<Rightarrow> int \<times> kstate" where
  "runcmd sy buf s =
     (case parse_args [] buf of
        None \<Rightarrow> (0, kprintf (''Too many arguments (max %d)'' @ newline) [VInt (of_nat MAXARGS)] s)
      | Some [] \<Rightarrow> (0, s)
      | Some (arg0 # args) \<Rightarrow>
          (case find (\<lambda>(name, _). arg0 = map (of_nat \<circ> of_char) name) commands of
             Some (name, desc, f) \<Rightarrow> run_command sy f s
           | None \<Rightarrow> (0, kprintf (''Unknown command '' @ [CHR 0x27] @ ''%s'' @ [CHR 0x27] @ newline) [VStr (Some arg0)] s)))"

text \<open>
  The first argument bounds the number of lines; a line takes at least one character, so that
  \<open>input_left\<close> and one more are enough (lemma \<open>monitor_loop_waits\<close>).
\<close>

fun monitor_loop :: "nat \<Rightarrow> ksyms \<Rightarrow> kstate \<Rightarrow> (unit, kstate) outcome" where
  "monitor_loop 0 sy s = Leave Spinning s"
| "monitor_loop (Suc n) sy s =
     kbind (readline ''K> '' s) (\<lambda>buf s.
       case buf of
         None \<Rightarrow> monitor_loop n sy s
       | Some buf \<Rightarrow>
           let (r, s) = runcmd sy buf s in
           if r < 0 then Ret () s else monitor_loop n sy s)"

text \<open>\<open>tf\<close> is the address and the contents of the trap frame, and whether it is \<open>last_tf\<close>.\<close>

definition monitor :: "ksyms \<Rightarrow> (u32 \<times> bool \<times> Trapframe) option \<Rightarrow> kstate \<Rightarrow> (unit, kstate) outcome" where
  "monitor sy tf s =
     (let s = kprintf (''Welcome to the JOS kernel monitor!'' @ newline) [] s;
          s = kprintf (''Type '' @ [CHR 0x27] @ ''help'' @ [CHR 0x27] @ '' for a list of commands.'' @ newline) [] s;
          s = (case tf of None \<Rightarrow> s | Some (addr, cur, tf) \<Rightarrow> print_trapframe addr cur tf s)
      in monitor_loop (Suc (input_left (cons s))) sy s)"

section \<open>The monitor only talks to the console\<close>

lemma print_trapframe_only: "console_only s t \<Longrightarrow> console_only s (print_trapframe addr cur tf t)"
  by (auto simp: print_trapframe_def print_regs_def Let_def intro!: console_only_kprintf)

lemma print_trapframe_cons [simp]: "cons (print_trapframe addr cur tf s) = cons s"
  by (simp add: print_trapframe_def print_regs_def Let_def)

lemma runcmd_only:
  assumes "console_only s t"
  obtains u where "runcmd sy buf t = (0, u)" and "console_only s u" and "cons u = cons t"
proof -
  have "\<exists>u. run_command sy f t = (0, u) \<and> console_only s u \<and> cons u = cons t" for f
    using assms by (cases f) (simp_all add: mon_help_def mon_kerninfo_def commands_def Let_def console_only_kprintf)
  then have "\<exists>u. runcmd sy buf t = (0, u) \<and> console_only s u \<and> cons u = cons t"
    using assms unfolding runcmd_def
    by (auto simp: console_only_kprintf split: option.split list.split)
  then show thesis using that by blast
qed

lemma readline_cases:
  assumes "console_only s t"
  obtains (wait) u where "readline p t = Leave InMonitor u" and "console_only s u"
  | (line) r u where "readline p t = Ret (Some r) u" and "console_only s u" and "input_left (cons u) < input_left (cons t)"
proof -
  let ?t = "kprintf ''%s'' [VString p] t"
  have "(\<exists>u. readline p t = Leave InMonitor u \<and> console_only s u) \<or>
    (\<exists>r u. readline p t = Ret (Some r) u \<and> console_only s u \<and> length r < BUFLEN \<and> input_left (cons u) < input_left (cons ?t))"
    unfolding readline_def Let_def
    by (rule readline_total) (use assms in \<open>simp_all add: console_only_kprintf jos_consts\<close>)
  then show thesis using that by auto
qed

lemma monitor_loop_waits:
  assumes "input_left (cons t) < n" and "console_only s t"
  shows "\<exists>u. monitor_loop n sy t = Leave InMonitor u \<and> console_only s u"
  using assms
proof (induction n arbitrary: t)
  case (Suc n)
  from Suc.prems(2) show ?case
  proof (cases rule: readline_cases [where p = "''K> ''"])
    case wait
    then show ?thesis by simp
  next
    case (line r u)
    obtain v where v: "runcmd sy r u = (0, v)" "console_only s v" "cons v = cons u"
      by (rule runcmd_only [OF line(2)]) blast
    then have "\<exists>w. monitor_loop n sy v = Leave InMonitor w \<and> console_only s w"
      by (intro Suc.IH) (use line(3) Suc.prems(1) in simp_all)
    then show ?thesis using line(1) v(1) by simp
  qed
qed simp

lemma monitor_waits:
  assumes "buf_ok (cons s)"
  obtains t where "monitor sy tf s = Leave InMonitor t" and "console_only s t"
proof -
  have "\<exists>t. monitor sy tf s = Leave InMonitor t \<and> console_only s t"
    unfolding monitor_def Let_def
    by (rule monitor_loop_waits)
      (auto split: option.split intro!: print_trapframe_only console_only_kprintf console_only_refl assms)
  then show thesis using that by blast
qed

lemma kinv_console_only: "kinv k R fl s \<Longrightarrow> console_only s t \<Longrightarrow> kinv k R fl t"
proof -
  assume k: "kinv k R fl s" and "console_only s t"
  then obtain out c where t: "t = s\<lparr>conout := out\<rparr>\<lparr>cons := c\<rparr>" "buf_ok c" by (auto simp: console_only_def)
  have "kinv k R fl (s\<lparr>conout := out\<rparr>)"
    by (rule kinv_env_fields [OF k]) (auto simp: curenv_def dest: kinvD(7) [OF k, unfolded curenv_def])
  then show ?thesis using kinv_cons t by simp
qed

section \<open>Arguments of a command line\<close>

text \<open>The specification: cut the line at every blank and keep the pieces that are not empty.\<close>

fun cut_at :: "('a \<Rightarrow> bool) \<Rightarrow> 'a list \<Rightarrow> 'a list list" where
  "cut_at P [] = [[]]"
| "cut_at P (x # xs) = (if P x then [] # cut_at P xs else (x # hd (cut_at P xs)) # tl (cut_at P xs))"

definition line_words :: "u8 list \<Rightarrow> u8 list list" where
  "line_words buf = filter (\<lambda>w. w \<noteq> []) (cut_at (\<lambda>b. b \<in> set WHITESPACE) buf)"

lemma cut_dropWhile: "filter (\<lambda>w. w \<noteq> []) (cut_at P (dropWhile P xs)) = filter (\<lambda>w. w \<noteq> []) (cut_at P xs)"
  by (induction xs) simp_all

lemma cut_first:
  "cut_at P xs = takeWhile (\<lambda>x. \<not> P x) xs #
     (case dropWhile (\<lambda>x. \<not> P x) xs of [] \<Rightarrow> [] | _ # ys \<Rightarrow> cut_at P ys)"
  by (induction xs) simp_all

lemma cut_rest:
  assumes "xs \<noteq> []" and "\<not> P (hd xs)"
  shows "filter (\<lambda>w. w \<noteq> []) (cut_at P xs) =
    takeWhile (\<lambda>x. \<not> P x) xs # filter (\<lambda>w. w \<noteq> []) (cut_at P (dropWhile (\<lambda>x. \<not> P x) xs))"
proof -
  have "takeWhile (\<lambda>x. \<not> P x) xs \<noteq> []" using assms by (cases xs) auto
  moreover have "P y" if "dropWhile (\<lambda>x. \<not> P x) xs = y # ys" for y ys
    using that hd_dropWhile [of "\<lambda>x. \<not> P x" xs] by (metis list.distinct(1) list.sel(1))
  ultimately show ?thesis
    unfolding cut_first [of P xs] by (cases "dropWhile (\<lambda>x. \<not> P x) xs") (simp_all del: dropWhile_eq_Nil_conv)
qed

lemma parse_args_words:
  "length argv \<le> 15 \<Longrightarrow> parse_args argv buf =
     (if length argv + length (line_words buf) \<le> 15 then Some (argv @ line_words buf) else None)"
proof (induction argv buf rule: parse_args.induct)
  case (1 argv buf)
  let ?P = "\<lambda>b. b \<in> set WHITESPACE"
  let ?d = "dropWhile ?P buf"
  have lw: "line_words buf = line_words ?d" by (simp only: line_words_def cut_dropWhile)
  show ?case
  proof (cases "?d = []")
    case True
    have "line_words buf = []" unfolding lw True by (simp add: line_words_def)
    with True show ?thesis using 1(2) by (subst parse_args.simps) (simp add: Let_def)
  next
    case False
    have "\<not> ?P (hd ?d)" using False hd_dropWhile by blast
    then have w: "line_words buf = takeWhile (\<lambda>b. \<not> ?P b) ?d # line_words (dropWhile (\<lambda>b. \<not> ?P b) ?d)"
      unfolding lw unfolding line_words_def by (rule cut_rest [OF False])
    show ?thesis
    proof (cases "length argv = 15")
      case True
      then show ?thesis using False w by (subst parse_args.simps) (simp add: Let_def jos_consts)
    next
      case neq: False
      have "parse_args argv buf = parse_args (argv @ [takeWhile (\<lambda>b. \<not> ?P b) ?d]) (dropWhile (\<lambda>b. \<not> ?P b) ?d)"
        unfolding parse_args.simps [of argv buf] Let_def if_not_P [OF False] using neq
        by (simp only: MAXARGS_def) simp
      also have "\<dots> = (if length argv + length (line_words buf) \<le> 15 then Some (argv @ line_words buf) else None)"
      proof -
        have a: "length argv \<noteq> MAXARGS - 1" "length (argv @ [takeWhile (\<lambda>b. \<not> ?P b) ?d]) \<le> 15"
          using 1(2) neq by (simp_all add: MAXARGS_def)
        show ?thesis unfolding 1(1) [OF refl False a] w by simp
      qed
      finally show ?thesis .
    qed
  qed
qed

text \<open>
  C33: the argument loop of \<open>runcmd\<close> computes the words of the line, and reports too many
  arguments exactly when there are more than fifteen.
\<close>

theorem runcmd_splits_words:
  "parse_args [] buf = (if length (line_words buf) < MAXARGS then Some (line_words buf) else None)"
  using parse_args_words [of "[]" buf] by (auto simp: jos_consts)

text \<open>
  C32: the monitor never returns to its caller: whatever is typed, it ends up waiting for more
  input, and it has changed nothing but the console.
\<close>

theorem monitor_never_returns:
  assumes "buf_ok (cons s)"
  shows "\<exists>t. monitor sy tf s = Leave InMonitor t \<and> (\<exists>out c. t = s\<lparr>conout := out, cons := c\<rparr> \<and> buf_ok c)"
  using monitor_waits [OF assms] unfolding console_only_def by metis

theorem monitor_never_returns_witness:
  "\<exists>t. monitor \<lparr>sym_start = 0x10000C, sym_entry = 0xF010000C, sym_etext = 0, sym_edata = 0, sym_end = 0xF0200000\<rparr>
     None k_small = Leave InMonitor t"
  using monitor_never_returns [OF kinvD(6) [OF k_small_kinv]] by blast

end
