(* ===== verification/Trap.thy ===== *)
theory Trap
  imports Descriptors Monitor
begin

text \<open>
  Trap handling (\<^verbatim>\<open>kern/trap.c\<close>): entry from user or kernel mode, dispatch, and the page fault
  upcall.  A trap frame is either the one the entry code pushed on the kernel stack or the copy
  in an environment's \<open>env_tf\<close>.
\<close>

datatype tf_ptr =
    StackTf u32 Trapframe    \<comment> \<open>its address and contents; it is not used after the dispatch\<close>
  | EnvTf nat                \<comment> \<open>\<open>&envs[i].env_tf\<close>\<close>

fun tf_at :: "kstate \<Rightarrow> tf_ptr \<Rightarrow> Trapframe" where
  "tf_at s (StackTf addr tf) = tf"
| "tf_at s (EnvTf e) = env_tf (envs s e)"

text \<open>\<open>envs_at\<close> is the address of \<open>envs\<close>, whose elements have 124 bytes and start with \<open>env_tf\<close>.\<close>

fun tf_addr :: "u32 \<Rightarrow> tf_ptr \<Rightarrow> u32" where
  "tf_addr envs_at (StackTf addr tf) = addr"
| "tf_addr envs_at (EnvTf e) = envs_at + 124 * of_nat e"

fun set_eax :: "u32 \<Rightarrow> tf_ptr \<Rightarrow> kstate \<Rightarrow> kstate" where
  "set_eax r (StackTf addr tf) s = s"
| "set_eax r (EnvTf e) s =
     upd_env e (\<lambda>v. v\<lparr>env_tf := (env_tf v)\<lparr>tf_regs := (tf_regs (env_tf v))\<lparr>reg_eax := r\<rparr>\<rparr>\<rparr>) s"

section \<open>Page faults\<close>

record UTrapframe =
  utf_fault_va :: u32
  utf_err :: u32
  utf_regs :: PushRegs
  utf_eip :: u32
  utf_eflags :: u32
  utf_esp :: u32

text \<open>The words of the structure in memory order.\<close>

definition utf_words :: "UTrapframe \<Rightarrow> u32 list" where
  "utf_words u =
     (let r = utf_regs u in
      [utf_fault_va u, utf_err u, reg_edi r, reg_esi r, reg_ebp r, reg_oesp r, reg_ebx r, reg_edx r,
       reg_ecx r, reg_eax r, utf_eip u, utf_eflags u, utf_esp u])"

definition sizeof_UTrapframe :: u32 where [jos_consts]: "sizeof_UTrapframe = 52"

definition vwrite_words :: "u32 \<Rightarrow> u32 list \<Rightarrow> kstate \<Rightarrow> (unit, kstate) outcome" where
  "vwrite_words va ws s = kfor (\<lambda>(i, w). vwrite32 (va + 4 * of_nat i) w) (enumerate 0 ws) s"

definition fault_stack :: "Trapframe \<Rightarrow> u32" where
  "fault_stack tf = (if UXSTACKTOP - PGSIZE < tf_esp tf \<and> tf_esp tf < UXSTACKTOP then tf_esp tf else UXSTACKTOP)"

definition fault_upcall :: "nat \<Rightarrow> u32 \<Rightarrow> tf_ptr \<Rightarrow> kstate \<Rightarrow> (unit, kstate) outcome" where
  "fault_upcall c fault_va tf s =
     (let stacktop = fault_stack (tf_at s tf); size = sizeof_UTrapframe + 4 in
      kbind (user_mem_assert c (stacktop - size) size (PTE_U OR PTE_W) s) (\<lambda>_ s.
      let utr = stacktop - size; f = tf_at s tf in
      kbind (vwrite_words utr (utf_words \<lparr>utf_fault_va = fault_va, utf_err = tf_err f, utf_regs = tf_regs f,
               utf_eip = tf_eip f, utf_eflags = tf_eflags f, utf_esp = tf_esp f\<rparr>) s) (\<lambda>_ s.
      let s = upd_env c (\<lambda>v. v\<lparr>env_tf := (env_tf v)\<lparr>tf_eip := env_pgfault_upcall v\<rparr>\<rparr>) s;
          s = upd_env c (\<lambda>v. v\<lparr>env_tf := (env_tf v)\<lparr>tf_esp := utr\<rparr>\<rparr>) s
      in env_run c s)))"

definition page_fault_handler :: "u32 \<Rightarrow> tf_ptr \<Rightarrow> kstate \<Rightarrow> (unit, kstate) outcome" where
  "page_fault_handler envs_at tf s =
     (let fault_va = cr2 s in
      if tf_cs (tf_at s tf) AND 3 = 0 then kernel_fault s
      else with_env (curenv s) (\<lambda>c s.
        kbind (if env_pgfault_upcall (envs s c) \<noteq> 0 then fault_upcall c fault_va tf s else Ret () s) (\<lambda>_ s.
          let s = kprintf (''[%08x] user fault va %08x ip %08x'' @ newline)
                    [VInt (env_id (envs s c)), VInt fault_va, VInt (tf_eip (tf_at s tf))] s;
              s = print_trapframe (tf_addr envs_at tf) True (tf_at s tf) s
          in env_destroy c s)) s)"

section \<open>Dispatch\<close>

definition trap_dispatch :: "ksyms \<Rightarrow> u32 \<Rightarrow> tf_ptr \<Rightarrow> kstate \<Rightarrow> (unit, kstate) outcome" where
  "trap_dispatch sy envs_at tf s =
     (let f = tf_at s tf; r = tf_regs f in
      if tf_trapno f = T_PGFLT then page_fault_handler envs_at tf s
      else if tf_trapno f = T_BRKPT then monitor sy (Some (tf_addr envs_at tf, True, f)) s
      else if tf_trapno f = T_SYSCALL then
        kbind (syscall (reg_eax r) (reg_edx r) (reg_ecx r) (reg_ebx r) (reg_edi r) (reg_esi r) s)
          (\<lambda>v s. Ret () (set_eax v tf s))
      else if tf_trapno f = IRQ_OFFSET + IRQ_SPURIOUS then
        Ret () (print_trapframe (tf_addr envs_at tf) True f
          (kprintf (''Spurious interrupt on irq 7'' @ newline) [] s))
      else if tf_trapno f = IRQ_OFFSET + IRQ_TIMER then sched_yield (lapic_eoi s)
      else
        let s = print_trapframe (tf_addr envs_at tf) True f s in
        if tf_cs f = GD_KT then Panic ''unhandled trap in kernel'' s
        else with_env (curenv s) env_destroy s)"

text \<open>The part of \<open>trap\<close> for a trap from user mode, and what follows the dispatch.\<close>

definition trap_from_user :: "Trapframe \<Rightarrow> kstate \<Rightarrow> (tf_ptr, kstate) outcome" where
  "trap_from_user tf s =
     (case curenv s of
        None \<Rightarrow> Panic ''assertion failed: curenv'' s
      | Some c \<Rightarrow>
          kbind (lock_kernel s) (\<lambda>_ s.
          kbind (if env_status (envs s c) = ENV_DYING then
              kbind (env_free c s) (\<lambda>_ s. sched_yield (set_curenv None s))
            else Ret () s) (\<lambda>_ s.
          with_env (curenv s) (\<lambda>c s. Ret (EnvTf c) (upd_env c (\<lambda>v. v\<lparr>env_tf := tf\<rparr>) s)) s)))"

definition trap_exit :: "kstate \<Rightarrow> (unit, kstate) outcome" where
  "trap_exit s =
     (case curenv s of
        Some c \<Rightarrow> if env_status (envs s c) = ENV_RUNNING then env_run c s else sched_yield s
      | None \<Rightarrow> sched_yield s)"

text \<open>
  \<open>eflags\<close> is what \<open>read_eflags\<close> returns.  With \<open>panicstr\<close> set the processor stops at the \<open>hlt\<close>.
\<close>

definition trap :: "ksyms \<Rightarrow> u32 \<Rightarrow> u32 \<Rightarrow> u32 \<Rightarrow> Trapframe \<Rightarrow> kstate \<Rightarrow> (unit, kstate) outcome" where
  "trap sy envs_at eflags addr tf s =
     (if panicstr s \<noteq> None then Leave Halted s
      else
        let status = cpu_status (cpus s (cpunum s));
            s = s\<lparr>cpus := (cpus s)(cpunum s := (cpus s (cpunum s))\<lparr>cpu_status := CPU_STARTED\<rparr>)\<rparr> in
        kbind (if status = CPU_HALTED then lock_kernel s else Ret () s) (\<lambda>_ s.
        if flag eflags FL_IF then Panic ''assertion failed: !(read_eflags() & FL_IF)'' s
        else
          let s = kprintf (''Incoming TRAP frame at %p'' @ newline) [VInt addr] s in
          kbind (if tf_cs tf AND 3 = 3 then trap_from_user tf s else Ret (StackTf addr tf) s) (\<lambda>tf s.
          kbind (trap_dispatch sy envs_at tf s) (\<lambda>_ s. trap_exit s))))"

end
