(* ===== verification/Trap_Spec.thy ===== *)
theory Trap_Spec
  imports Trap
begin

text \<open>
  Traps keep the kernel's invariant and end by running an environment, halting, or entering the
  monitor; they never return to the assembly entry code.
\<close>

section \<open>Calls that never return\<close>

definition no_ret :: "('a, 's) outcome \<Rightarrow> bool" where
  "no_ret m \<longleftrightarrow> (\<forall>x t. m \<noteq> Ret x t)"

lemma no_ret_simps [simp]: "no_ret (Panic p s)" "no_ret (Leave l s)" "\<not> no_ret (Ret x s)"
  by (simp_all add: no_ret_def)

lemma no_ret_kbind: "no_ret m \<or> (\<forall>x s. no_ret (f x s)) \<Longrightarrow> no_ret (kbind m f)"
  by (cases m) (auto simp: no_ret_def)

lemma env_run_no_ret: "no_ret (env_run e s)"
proof -
  have "no_ret (env_pop_tf s)" for s by (simp add: env_pop_tf_def with_env_def kernel_fault_def split: option.split)
  then show ?thesis unfolding env_run_def Let_def by (intro no_ret_kbind disjI2 allI) simp
qed

lemma sched_yield_no_ret: "no_ret (sched_yield s)"
proof -
  have "no_ret (sched_halt s)"
    unfolding sched_halt_def Let_def
    by (cases "\<forall>i \<in> set [0..<NENV]. env_status (envs s i) \<notin> {ENV_RUNNABLE, ENV_RUNNING, ENV_DYING}")
      (simp, simp only: if_False, intro no_ret_kbind disjI2 allI, simp)
  then show ?thesis using env_run_no_ret by (auto simp: sched_yield_def split: option.split)
qed

section \<open>Outcomes that keep the lock\<close>

text \<open>A step inside the kernel is safe, and if it returns the processor still holds the lock.\<close>

definition lock_safe :: "u32 \<Rightarrow> (u32 \<Rightarrow> nat) \<Rightarrow> ('a, kstate) outcome \<Rightarrow> bool" where
  "lock_safe k R m \<longleftrightarrow> safe k R m \<and> (\<forall>x t. m = Ret x t \<longrightarrow> holding (kernel_lock t) (cpunum t))"

lemma lock_safe_Ret: "kinv k R fl t \<Longrightarrow> holding (kernel_lock t) (cpunum t) \<Longrightarrow> lock_safe k R (Ret x t)"
  by (auto simp: lock_safe_def)

lemma lock_safe_no_ret: "safe k R m \<Longrightarrow> no_ret m \<Longrightarrow> lock_safe k R m"
  by (auto simp: lock_safe_def)

lemma lock_safe_kbind:
  assumes "lock_safe k R m"
    and "\<And>x t fl. m = Ret x t \<Longrightarrow> kinv k R fl t \<Longrightarrow> holding (kernel_lock t) (cpunum t) \<Longrightarrow> lock_safe k R (f x t)"
  shows "lock_safe k R (kbind m f)"
  using assms by (cases m) (auto simp: lock_safe_def)

lemma env_destroy_lock_safe:
  assumes "kinv k R fl s" and "live s e" and "holding (kernel_lock s) (cpunum s)"
  shows "lock_safe k R (env_destroy e s)"
proof -
  obtain t where t: "env_free e s = Ret () t" "kernel_lock t = kernel_lock s" "cpunum t = cpunum s"
    by (rule env_free_kinv [OF assms(1,2)]) blast
  have "holding (kernel_lock u) (cpunum u)" if "env_destroy e s = Ret x u" for x u
    using that t assms(3) sched_yield_no_ret [unfolded no_ret_def]
    by (auto simp: env_destroy_def kops split: if_splits)
  then show ?thesis using env_destroy_safe [OF assms] by (simp add: lock_safe_def)
qed

lemma syscall_lock_safe:
  assumes "kinv k R fl s" and "curenv s = Some c" and "holding (kernel_lock s) (cpunum s)" and "no \<noteq> SYS_cputs"
  shows "lock_safe k R (syscall no a1 a2 a3 a4 a5 s)"
proof -
  have "lock_safe k R (sys_cgetc s)"
    using sys_cgetc_safe [OF assms(1)] assms(3) by (auto simp: lock_safe_def sys_cgetc_def kernel_fault_def split: option.splits)
  moreover have "lock_safe k R (sys_getenvid s)" using assms by (auto simp: sys_getenvid_def intro: lock_safe_Ret)
  moreover have "lock_safe k R (sys_yield s)"
    unfolding sys_yield_def
    by (rule lock_safe_kbind [OF lock_safe_no_ret [OF sched_yield_safe [OF assms(1,3)] sched_yield_no_ret]]) (rule lock_safe_Ret)
  moreover have "lock_safe k R (sys_env_destroy a1 s)"
  proof (cases rule: envid2env_cases [OF assms(1,2), of a1 True])
    case 1
    then show ?thesis using assms by (auto simp: sys_env_destroy_def intro: lock_safe_Ret)
  next
    case (2 e)
    have "lock_safe k R (kbind (env_destroy e (kputs m s)) (\<lambda>_ s. Ret (Inr 0) s))" for m
      by (intro lock_safe_kbind [OF env_destroy_lock_safe [OF kinv_kputs [OF assms(1)]]] lock_safe_Ret)
        (use assms(3) 2(2) in \<open>simp_all add: kops live_def\<close>)
    then show ?thesis using 2(1) assms(2) by (auto simp: sys_env_destroy_def Let_def)
  qed
  ultimately show ?thesis
    unfolding syscall_def using assms(4)
    by (auto intro!: lock_safe_kbind lock_safe_Ret [OF assms(1,3)] intro: lock_safe_Ret)
qed

section \<open>Dispatch\<close>

lemma console_only_fields:
  assumes "console_only s t"
  shows "curenv t = curenv s" and "live t = live s" and "kernel_lock t = kernel_lock s" and "cpunum t = cpunum s"
    and "envs t = envs s"
proof -
  show e: "envs t = envs s" using assms by (auto simp: console_only_def)
  show "curenv t = curenv s" "kernel_lock t = kernel_lock s" "cpunum t = cpunum s"
    using assms by (auto simp: console_only_def curenv_def)
  show "live t = live s" by (rule live_cong [OF e])
qed

lemma env_destroy_console:
  assumes "kinv k R fl s" and "live s e" and "holding (kernel_lock s) (cpunum s)" and "console_only s t"
  shows "lock_safe k R (env_destroy e t)"
  using assms console_only_fields [OF assms(4)]
  by (intro env_destroy_lock_safe) (auto intro: kinv_console_only)

lemma kinv_lapic_eoi:
  assumes "kinv k R fl s"
  shows "kinv k R fl (lapic_eoi s)"
proof (cases "lapic s = 0")
  case False
  have "kinv k R fl (lapicw EOI 0 s)"
    by (rule kinv_env_fields [OF assms]) (use kinvD(7) [OF assms] in \<open>auto simp: lapicw_def curenv_def\<close>)
  then show ?thesis using False by (simp add: lapic_eoi_def)
qed (use assms in \<open>simp add: lapic_eoi_def\<close>)

text \<open>The traps whose handling is shown here to be safe, in a state with current environment \<open>c\<close>.\<close>

definition plain_trap :: "Trapframe \<Rightarrow> Env \<Rightarrow> bool" where
  "plain_trap tf v \<longleftrightarrow> (tf_trapno tf = T_PGFLT \<longrightarrow> env_pgfault_upcall v = 0) \<and>
     (tf_trapno tf = T_SYSCALL \<longrightarrow> reg_eax (tf_regs tf) \<noteq> SYS_cputs)"

lemma trap_dispatch_lock_safe:
  assumes "kinv k R fl s" and "curenv s = Some c" and "holding (kernel_lock s) (cpunum s)"
    and "tf_cs (env_tf (envs s c)) AND 3 = 3" and "plain_trap (env_tf (envs s c)) (envs s c)"
  shows "lock_safe k R (trap_dispatch sy envs_at (EnvTf c) s)"
proof -
  note buf = kinvD(6) [OF assms(1)] and live = kinvD(7) [OF assms(1,2)]
  note only = console_only_refl [OF buf]
  let ?f = "env_tf (envs s c)"
  have mode: "tf_cs ?f AND 3 \<noteq> 0" "tf_cs ?f \<noteq> GD_KT" using assms(4) by (auto simp: jos_consts)
  have destroy: "lock_safe k R (env_destroy c t)" if "console_only s t" for t
    by (rule env_destroy_console [OF assms(1) live assms(3) that])
  consider "tf_trapno ?f = T_PGFLT" | "tf_trapno ?f = T_BRKPT" | "tf_trapno ?f = T_SYSCALL"
    | "tf_trapno ?f = IRQ_OFFSET + IRQ_SPURIOUS" | "tf_trapno ?f = IRQ_OFFSET + IRQ_TIMER"
    | "tf_trapno ?f \<notin> {T_PGFLT, T_BRKPT, T_SYSCALL, IRQ_OFFSET + IRQ_SPURIOUS, IRQ_OFFSET + IRQ_TIMER}"
    by blast
  then show ?thesis
  proof cases
    case 1
    then show ?thesis
      using assms(2,5) mode(1) destroy [OF print_trapframe_only [OF console_only_kprintf [OF only]]]
      by (simp add: trap_dispatch_def Let_def page_fault_handler_def plain_trap_def)
  next
    case 2
    obtain t where "monitor sy (Some (tf_addr envs_at (EnvTf c), True, ?f)) s = Leave InMonitor t" "console_only s t"
      by (rule monitor_waits [OF buf]) blast
    then show ?thesis
      using 2 kinv_console_only [OF assms(1)] by (auto simp: trap_dispatch_def Let_def jos_consts lock_safe_def)
  next
    case 3
    have "lock_safe k R (kbind (syscall (reg_eax (tf_regs ?f)) a1 a2 a3 a4 a5 s) (\<lambda>v s. Ret () (set_eax v (EnvTf c) s)))"
      for a1 a2 a3 a4 a5
      by (intro lock_safe_kbind syscall_lock_safe [OF assms(1-3)] lock_safe_Ret)
        (use 3 assms(5) in \<open>auto simp: plain_trap_def kops intro!: kinv_upd_env [unfolded kops]\<close>)
    then show ?thesis using 3 by (simp add: trap_dispatch_def Let_def jos_consts)
  next
    case 4
    have o: "console_only s (print_trapframe (tf_addr envs_at (EnvTf c)) True ?f
        (kprintf (''Spurious interrupt on irq 7'' @ newline) [] s))"
      by (intro print_trapframe_only console_only_kprintf only)
    show ?thesis
      using 4 lock_safe_Ret [OF kinv_console_only [OF assms(1) o]] console_only_fields [OF o] assms(3)
      by (simp add: trap_dispatch_def Let_def jos_consts)
  next
    case 5
    have "lock_safe k R (sched_yield (lapic_eoi s))"
      by (intro lock_safe_no_ret sched_yield_no_ret sched_yield_safe [of _ _ fl] kinv_lapic_eoi assms)
        (use assms(3) in simp)
    then show ?thesis using 5 by (simp add: trap_dispatch_def Let_def jos_consts)
  next
    case 6
    have o: "console_only s (print_trapframe (tf_addr envs_at (EnvTf c)) True ?f s)"
      by (intro print_trapframe_only only)
    show ?thesis
      using 6 mode(2) destroy [OF o] console_only_fields(1) [OF o] assms(2)
      by (simp add: trap_dispatch_def Let_def)
  qed
qed

lemma trap_exit_safe:
  assumes "kinv k R fl s" and "holding (kernel_lock s) (cpunum s)"
  shows "safe k R (trap_exit s)"
  using sched_yield_safe [OF assms] env_run_safe [OF assms(1) kinvD(7) [OF assms(1)] assms(2) kinvD(7) [OF assms(1)]]
  by (auto simp: trap_exit_def split: option.split)

lemma trap_exit_no_ret: "no_ret (trap_exit s)"
  using env_run_no_ret sched_yield_no_ret by (auto simp: trap_exit_def split: option.split)

section \<open>Traps from user mode\<close>

lemma lock_kernel_free:
  assumes "\<not> locked (kernel_lock s)"
  obtains t where "lock_kernel s = Ret () t" and "holding (kernel_lock t) (cpunum t)"
    and "t = s\<lparr>kernel_lock := kernel_lock t\<rparr>"
  using that [of "s\<lparr>kernel_lock := (kernel_lock s)\<lparr>locked := True, lk_cpu := Some (cpunum s),
             lk_pcs := get_caller_pcs (kstack s) (ebp s)\<rparr>\<rparr>"] assms
  by (simp add: lock_kernel_def Let_def holding_def)

lemma trap_from_user_safe:
  assumes "kinv k R fl s" and "curenv s = Some c" and "\<not> locked (kernel_lock s)"
  shows "lock_safe k R (trap_from_user tf s)"
    and "trap_from_user tf s = Ret p t \<Longrightarrow>
      p = EnvTf c \<and> curenv t = Some c \<and> envs t = (envs s)(c := (envs s c)\<lparr>env_tf := tf\<rparr>)"
proof -
  obtain s2 where s2: "lock_kernel s = Ret () s2" "holding (kernel_lock s2) (cpunum s2)" "s2 = s\<lparr>kernel_lock := kernel_lock s2\<rparr>"
    by (rule lock_kernel_free [OF assms(3)]) blast
  have cur2: "curenv s2 = Some c" "envs s2 = envs s" using assms(2) by (subst s2(3), simp add: curenv_def)+
  have k2: "kinv k R fl s2"
    by (subst s2(3), rule kinv_env_fields [OF assms(1)]) (use kinvD(7) [OF assms(1)] in \<open>auto simp: curenv_def\<close>)
  note live = kinvD(7) [OF k2 cur2(1)]
  obtain t fl' where t: "env_free c s2 = Ret () t" "kinv k R fl' (set_curenv None t)"
    "kernel_lock t = kernel_lock s2" "cpunum t = cpunum s2"
    by (rule env_free_kinv [OF k2 live]) (use cur2 in auto)
  have y: "safe k R (sched_yield (set_curenv None t))"
    by (rule sched_yield_safe [OF t(2)]) (use s2(2) t(3,4) in \<open>simp add: kops\<close>)
  let ?s3 = "upd_env c (\<lambda>v. v\<lparr>env_tf := tf\<rparr>) s2"
  have k3: "kinv k R fl ?s3" by (rule kinv_upd_env [OF k2]) simp_all
  have eq: "trap_from_user tf s = (if env_status (envs s2 c) = ENV_DYING
      then kbind (sched_yield (set_curenv None t)) (\<lambda>_ s. with_env (curenv s) (\<lambda>c s. Ret (EnvTf c) (upd_env c (\<lambda>v. v\<lparr>env_tf := tf\<rparr>) s)) s)
      else Ret (EnvTf c) ?s3)"
    using s2(1) assms(2) cur2 t(1) by (simp add: trap_from_user_def)
  have n: "no_ret (kbind (sched_yield (set_curenv None t)) f)" for f :: "unit \<Rightarrow> kstate \<Rightarrow> (tf_ptr, kstate) outcome"
    by (rule no_ret_kbind) (rule disjI1 [OF sched_yield_no_ret])
  have "safe k R (kbind (sched_yield (set_curenv None t)) f)" for f :: "unit \<Rightarrow> kstate \<Rightarrow> (tf_ptr, kstate) outcome"
    using y sched_yield_no_ret [of "set_curenv None t"] by (intro safe_kbind) (auto simp: no_ret_def)
  then show "lock_safe k R (trap_from_user tf s)"
    unfolding eq using n lock_safe_Ret [OF k3] s2(2) by (auto simp: lock_safe_no_ret kops)
  show "p = EnvTf c \<and> curenv t' = Some c \<and> envs t' = (envs s)(c := (envs s c)\<lparr>env_tf := tf\<rparr>)"
    if "trap_from_user tf s = Ret p t'" for t'
    using that n cur2 unfolding eq no_ret_def by (auto simp: kops curenv_def split: if_splits)
qed

text \<open>
  C2: a trap from user mode, of an environment that does not handle its own page faults and does
  not print, never panics and never returns; it ends by running an environment, halting or
  entering the monitor, and the kernel's invariant holds then.  This covers page faults, system
  calls, the clock and spurious interrupts, every unexpected exception, and the collection of an
  environment that another processor has destroyed.
\<close>

theorem trap_from_user_mode:
  assumes "kinv k R fl s" and "curenv s = Some c" and "\<not> locked (kernel_lock s)"
    and "panicstr s = None" and "cpu_status (cpus s (cpunum s)) \<noteq> CPU_HALTED" and "\<not> flag eflags FL_IF"
    and "tf_cs tf AND 3 = 3" and "plain_trap tf (envs s c)"
  shows "\<exists>l t fl'. trap sy envs_at eflags addr tf s = Leave l t \<and> kinv k R fl' t"
proof -
  define s1 where "s1 = kprintf (''Incoming TRAP frame at %p'' @ newline) [VInt addr]
    (s\<lparr>cpus := (cpus s)(cpunum s := (cpus s (cpunum s))\<lparr>cpu_status := CPU_STARTED\<rparr>)\<rparr>)"
  have cur: "curenv s1 = Some c" "envs s1 = envs s" and lk: "\<not> locked (kernel_lock s1)"
    using assms(2,3) by (simp_all add: s1_def curenv_def)
  have k1: "kinv k R fl s1"
    by (rule kinv_env_fields [OF assms(1)])
      (use kinvD(7) [OF assms(1)] in \<open>auto simp: s1_def kprintf_def kops curenv_def\<close>)
  note user = trap_from_user_safe [OF k1 cur(1) lk]
  have eq: "trap sy envs_at eflags addr tf s =
    kbind (trap_from_user tf s1) (\<lambda>p s. kbind (trap_dispatch sy envs_at p s) (\<lambda>_ s. trap_exit s))"
    unfolding s1_def trap_def Let_def using assms(4-7) by simp
  have "lock_safe k R (trap_dispatch sy envs_at p t)"
    if "trap_from_user tf s1 = Ret p t" "kinv k R fl' t" "holding (kernel_lock t) (cpunum t)" for p t fl'
    using user(2) [OF that(1)] that(2,3) assms(7,8) cur(2)
    by (auto simp: plain_trap_def intro!: trap_dispatch_lock_safe)
  then have step: "safe k R (kbind (trap_dispatch sy envs_at p t) (\<lambda>_ s. trap_exit s))"
    if "trap_from_user tf s1 = Ret p t" "kinv k R fl' t" for p t fl'
    using that user(1) trap_exit_safe by (intro safe_kbind) (auto simp: lock_safe_def)
  have "safe k R (trap sy envs_at eflags addr tf s)"
    unfolding eq by (rule safe_kbind) (use user(1) step in \<open>auto simp: lock_safe_def\<close>)
  moreover have "no_ret (trap sy envs_at eflags addr tf s)"
    unfolding eq by (intro no_ret_kbind disjI2 allI trap_exit_no_ret)
  ultimately show ?thesis by (cases "trap sy envs_at eflags addr tf s") (auto simp: no_ret_def)
qed

theorem trap_from_user_mode_witness:
  "\<exists>l t fl'. trap \<lparr>sym_start = 0, sym_entry = 0, sym_etext = 0, sym_edata = 0, sym_end = 0\<rparr> 0xEEC00000 0 0xEFFFFFBC
     (init_tf\<lparr>tf_trapno := T_PGFLT\<rparr>)
     (k_small\<lparr>kernel_lock := (kernel_lock k_small)\<lparr>locked := False\<rparr>\<rparr>) = Leave l t \<and> kinv 1 small_refs fl' t"
proof -
  let ?s = "k_small\<lparr>kernel_lock := (kernel_lock k_small)\<lparr>locked := False\<rparr>\<rparr>"
  have "kinv 1 small_refs [3, 4, 5, 6, 7] ?s"
    by (rule kinv_env_fields [OF k_small_kinv]) (use kinvD(7) [OF k_small_kinv] in \<open>auto simp: curenv_def\<close>)
  then show ?thesis
    by (rule trap_from_user_mode [where c = 0])
      (simp_all add: curenv_def k_small_def bss_state_def zero_cpu_def zero_env_def plain_trap_def init_tf_def zero_tf_def jos_consts)
qed

end
