(* ===== verification/Pgfault_Spec.thy ===== *)
theory Pgfault_Spec
  imports Trap_Spec
begin

text \<open>
  The page fault upcall: the frame that \<open>page_fault_handler\<close> leaves on the exception stack of the
  environment.  The bytes are written through the page tables into a user page, which is neither
  a directory nor a table, so that the tables the processor walks do not change under the writes.
\<close>

section \<open>Writes into a data page\<close>

lemma data_page_entries:
  assumes "pt_shape D s" and "no_table D s z" and "confined z s t" and "q \<in> D" and "i < PDX UTOP"
  shows "pde t q i = pde s q i"
    and "flag (pde s q i) PTE_P \<Longrightarrow> j < 1024 \<Longrightarrow> pte t q i j = pte s q i j"
proof -
  have "q \<noteq> z" using assms(2,4) by (auto simp: no_table_def dest: spec [of _ "DirRef q"])
  then show pd: "pde t q i = pde s q i"
    using confined_kload [OF assms(3) dir_bound [OF assms(1,4)] upde_less [OF assms(5)]] by (simp add: pde_def)
  assume fl: "flag (pde s q i) PTE_P" and j: "j < 1024"
  then have "PGNUM (pde s q i) \<noteq> z"
    using assms(2,4,5) by (auto simp: no_table_def dest: spec [of _ "TabRef q i"])
  then show "pte t q i j = pte s q i j"
    using confined_kload [OF assms(3) table_bound [OF assms(1,4,5) fl], of j] j
    by (simp add: pte_def pd word1024_less)
qed

lemma data_page_refers:
  assumes "pt_shape D s" and "no_table D s z" and "confined z s t"
  shows "refers D t r p = refers D s r p"
  using data_page_entries [OF assms] by (intro refers_cong) auto

lemma data_page_kinv:
  assumes "kinv k R fl s" and "no_table (dirs s) s z" and "k \<noteq> z" and "confined z s t" and "t = s\<lparr>phys := phys t\<rparr>"
  shows "kinv k R fl t"
proof -
  note sh = vm_inv_shape [OF kinvD(1) [OF assms(1)]]
  have f: "pages t = pages s" "page_free_list t = page_free_list s" "npages t = npages s" "envs t = envs s"
    "env_free_list t = env_free_list s" "cons t = cons s" "kern_pgdir t = kern_pgdir s" "curenv t = curenv s"
    by (subst assms(5), simp add: curenv_def)+
  have ref: "refers (dirs s) t = refers (dirs s) s"
    by (intro ext data_page_refers [OF sh assms(2,4)])
  have "pt_shape (dirs s) t"
    unfolding pt_shape_def ref
    using sh data_page_entries [OF sh assms(2,4)] by (fastforce simp: pt_shape_def npages_ok_def f(3))
  moreover have "refs (dirs s) t = refs (dirs s) s" by (auto simp: refs_def ref)
  ultimately have "vm_inv (dirs s) R fl t"
    using kinvD(1) [OF assms(1)] free_ok_same [OF f(1-3)] by (simp add: vm_inv_def ref f)
  moreover have "unat k < 0x10000"
    using page_bound [OF pt_shape_npages_ok [OF sh] kinv_kern_pgdir(2) [OF assms(1)]] .
  then have "same_words k s t" using confined_kload [OF assms(4)] assms(3) by (simp add: same_words_def)
  then have "kern_dir_ok k t" by (rule kern_dir_words [OF kinvD(3) [OF assms(1)]]) (simp_all add: f)
  moreover have "leaks fl t = leaks fl s" by (simp add: leaks_def f)
  ultimately show ?thesis
    using assms(1) by (simp add: kinv_def dirs_cong [OF f(4)] env_table_cong [OF f(4,5)] live_cong [OF f(4)] f)
qed

section \<open>Addresses\<close>

lemma hw_entries:
  assumes "PTE_ADDR (cr3 s) = page2pa q"
  shows "hw_pde s va = pde s q (PDX va)" and "hw_pte s va = pte s q (PDX va) (PTX va)"
proof -
  show pd: "hw_pde s va = pde s q (PDX va)"
    by (simp add: hw_pde_def pde_def kload_def kva_offset assms)
  show "hw_pte s va = pte s q (PDX va) (PTX va)"
    by (simp add: hw_pte_def pte_def kload_def kva_offset pd page2pa_PGNUM)
qed

lemma page_or_offset:
  "PTE_ADDR x OR PGOFF a = PTE_ADDR x OR PGOFF b \<longleftrightarrow> PGOFF a = PGOFF b"
  "PGNUM ((PTE_ADDR x OR PGOFF a) AND NOT 3) = PGNUM x"
proof -
  have m: "(0xFFF::u32) = mask 12" "(3::u32) = mask 2" by (simp_all add: mask_eq_decr_exp)
  have "(PTE_ADDR x OR PGOFF a) AND mask 12 = PGOFF a" for a
    unfolding PTE_ADDR_def PGOFF_def m by (intro bit_word_eqI) (auto simp: bit_simps)
  then show "PTE_ADDR x OR PGOFF a = PTE_ADDR x OR PGOFF b \<longleftrightarrow> PGOFF a = PGOFF b" by metis
  show "PGNUM ((PTE_ADDR x OR PGOFF a) AND NOT 3) = PGNUM x"
    unfolding PTE_ADDR_def PGOFF_def PGNUM_def m
    by (intro bit_word_eqI) (auto simp: bit_simps dest: bit_imp_le_length)
qed

lemma page_parts: "PGNUM a = PGNUM b \<Longrightarrow> PGOFF a = PGOFF b \<longleftrightarrow> a = b"
  by (metis PGADDR_decompose same_page)

section \<open>Sequences of byte writes\<close>

text \<open>
  The bytes of one page that the processor lets the kernel write: \<open>x\<close> is the page table entry.
\<close>

definition writable_page :: "kstate \<Rightarrow> u32 \<Rightarrow> u32 \<Rightarrow> u32 \<Rightarrow> bool" where
  "writable_page s q n x \<longleftrightarrow> (\<forall>a. PGNUM a = n \<longrightarrow> a < UTOP \<and> vmap s q a = Some x \<and> flag (pde s q (PDX a)) PTE_W) \<and> flag x PTE_W"

definition byte_writes :: "(u32 \<times> u8) list \<Rightarrow> kstate \<Rightarrow> (unit, kstate) outcome" where
  "byte_writes ws s = kfor (\<lambda>(a, b). vwrite8 a b) ws s"

lemma byte_writes_ok:
  assumes "pt_shape D s" and "no_table D s (PGNUM x)" and "q \<in> D" and "PTE_ADDR (cr3 s) = page2pa q"
    and "writable_page s q n x" and "\<And>a b. (a, b) \<in> set ws \<Longrightarrow> PGNUM a = n"
  shows "\<exists>t. byte_writes ws s = Ret () t \<and> confined (PGNUM x) s t \<and> t = s\<lparr>phys := phys t\<rparr> \<and>
    (\<forall>a. PGNUM a = n \<longrightarrow> vread8 a t = Ret (case map_of (rev ws) a of Some b \<Rightarrow> b | None \<Rightarrow> pget8 s (PTE_ADDR x OR PGOFF a)) t)"
proof -
  let ?I = "\<lambda>ys t. confined (PGNUM x) s t \<and> t = s\<lparr>phys := phys t\<rparr> \<and>
    (\<forall>a. PGNUM a = n \<longrightarrow> pget8 t (PTE_ADDR x OR PGOFF a) = (case map_of (rev ys) a of Some b \<Rightarrow> b | None \<Rightarrow> pget8 s (PTE_ADDR x OR PGOFF a)))"
  have hw: "hw_pde t a = pde s q (PDX a)" "hw_pte t a = x" "flag (hw_pde t a) PTE_P" "flag (hw_pde t a) PTE_W" "flag x PTE_P"
    if "confined (PGNUM x) s t" "t = s\<lparr>phys := phys t\<rparr>" "PGNUM a = n" for t a
  proof -
    have w: "a < UTOP" "vmap s q a = Some x" "flag (pde s q (PDX a)) PTE_W"
      using assms(5) that(3) by (auto simp: writable_page_def)
    have c: "PTE_ADDR (cr3 t) = page2pa q" using assms(4) by (subst that(2)) simp
    have e: "pde t q (PDX a) = pde s q (PDX a)" "pte t q (PDX a) (PTX a) = pte s q (PDX a) (PTX a)"
      using data_page_entries [OF assms(1,2) that(1) assms(3) PDX_user [OF w(1)]] w(2) by (auto simp: vmap_def split: if_splits)
    show "hw_pde t a = pde s q (PDX a)" "hw_pte t a = x" "flag (hw_pde t a) PTE_P" "flag (hw_pde t a) PTE_W" "flag x PTE_P"
      using w(2,3) e by (auto simp: hw_entries [OF c] vmap_def split: if_splits)
  qed
  have "\<exists>t. kfor (\<lambda>(a, b). vwrite8 a b) ws s = Ret () t \<and> ?I ws t"
  proof (rule kfor_prefix_rule)
    show "?I [] s" by (simp add: confined_def)
    fix ys w zs t
    assume split: "ws = ys @ w # zs" and I: "?I ys t"
    obtain a b where w: "w = (a, b)" by (cases w)
    have a: "PGNUM a = n" using assms(6) split w by auto
    note h = hw [OF _ _ a, of t]
    let ?pa = "PTE_ADDR x OR PGOFF a"
    have wr: "vwrite8 a b t = Ret () (pput8 ?pa b t)"
      using h I assms(5) by (simp add: vwrite8_def vpa_def writable_page_def)
    have "confined (PGNUM x) s (pput8 ?pa b t)"
      using I page_or_offset(2) [of x a] by (auto simp: confined_def pput8_def Let_def)
    moreover have "pput8 ?pa b t = s\<lparr>phys := phys (pput8 ?pa b t)\<rparr>"
    proof -
      obtain f where "t = s\<lparr>phys := f\<rparr>" using I by blast
      then show ?thesis by (simp add: pput8_def Let_def)
    qed
    moreover have "pget8 (pput8 ?pa b t) (PTE_ADDR x OR PGOFF a') =
        (case map_of (rev (ys @ [w])) a' of Some b \<Rightarrow> b | None \<Rightarrow> pget8 s (PTE_ADDR x OR PGOFF a'))" if "PGNUM a' = n" for a'
      using I that page_parts [of a' a] a by (simp add: pget8_pput8 page_or_offset(1) w)
    ultimately show "\<exists>u. (case w of (a, b) \<Rightarrow> vwrite8 a b) t = Ret () u \<and> ?I (ys @ [w]) u"
      using wr by (intro exI [of _ "pput8 ?pa b t"]) (simp add: w)
  qed
  then obtain t where t: "byte_writes ws s = Ret () t" "?I ws t" unfolding byte_writes_def by blast
  have "vread8 a t = Ret (case map_of (rev ws) a of Some b \<Rightarrow> b | None \<Rightarrow> pget8 s (PTE_ADDR x OR PGOFF a)) t" if "PGNUM a = n" for a
    using hw [OF _ _ that, of t] t(2) that by (simp add: vread8_def vpa_def)
  then show ?thesis using t by blast
qed

section \<open>Words\<close>

definition word_bytes :: "u32 \<Rightarrow> u32 \<Rightarrow> (u32 \<times> u8) list" where
  "word_bytes va w = map (\<lambda>k. (va + of_nat k, ucast (drop_bit (8 * k) w))) [0..<4]"

definition frame_bytes :: "u32 \<Rightarrow> u32 list \<Rightarrow> (u32 \<times> u8) list" where
  "frame_bytes va ws = concat (map (\<lambda>(i, w). word_bytes (va + 4 * of_nat i) w) (enumerate 0 ws))"

lemma kfor_map: "kfor f (map g xs) s = kfor (\<lambda>x. f (g x)) xs s"
  by (induction xs arbitrary: s) (auto intro!: kbind_cong)

lemma kfor_concat: "kfor f (concat (map g xs)) s = kfor (\<lambda>x. kfor f (g x)) xs s"
  by (induction xs arbitrary: s) (auto simp: kfor_append intro!: kbind_cong)

lemma vwrite_words_bytes: "vwrite_words va ws s = byte_writes (frame_bytes va ws) s"
proof -
  have "vwrite32 a w = byte_writes (word_bytes a w)" for a w
    by (intro ext) (simp add: vwrite32_def byte_writes_def word_bytes_def kfor_map del: upt_rec_numeral)
  then have "(\<lambda>(i, w). vwrite32 (va + 4 * of_nat i) w) =
      (\<lambda>p. kfor (\<lambda>(a, b). vwrite8 a b) ((\<lambda>(i, w). word_bytes (va + 4 * of_nat i) w) p))"
    by (auto simp: fun_eq_iff byte_writes_def)
  then show ?thesis by (simp add: vwrite_words_def byte_writes_def frame_bytes_def kfor_concat)
qed

lemma frame_bytes_set:
  "(a, b) \<in> set (frame_bytes va ws) \<longleftrightarrow>
     (\<exists>i k. i < length ws \<and> k < 4 \<and> a = va + of_nat (4 * i + k) \<and> b = ucast (drop_bit (8 * k) (ws ! i)))"
proof -
  have wb: "(a, b) \<in> set (word_bytes v w) \<longleftrightarrow> (\<exists>k < 4. a = v + of_nat k \<and> b = ucast (drop_bit (8 * k) w))" for v w
    by (auto simp: word_bytes_def simp del: upt_rec_numeral)
  have "(a, b) \<in> set (frame_bytes va ws) \<longleftrightarrow>
      (\<exists>i w. (i, w) \<in> set (enumerate 0 ws) \<and> (a, b) \<in> set (word_bytes (va + 4 * of_nat i) w))"
    by (auto simp: frame_bytes_def)
  also have "\<dots> \<longleftrightarrow> (\<exists>i < length ws. (a, b) \<in> set (word_bytes (va + 4 * of_nat i) (ws ! i)))"
    by (auto simp: in_set_enumerate_eq)
  also have "\<dots> \<longleftrightarrow> (\<exists>i k. i < length ws \<and> k < 4 \<and> a = va + of_nat (4 * i + k) \<and> b = ucast (drop_bit (8 * k) (ws ! i)))"
    unfolding wb by (simp only: of_nat_add of_nat_mult of_nat_numeral add.assoc) blast
  finally show ?thesis .
qed

lemma map_of_sole:
  assumes "(a, b) \<in> set xs" and "\<And>b'. (a, b') \<in> set xs \<Longrightarrow> b' = b"
  shows "map_of xs a = Some b"
proof -
  have "a \<in> fst ` set xs" using assms(1) by force
  then obtain b' where b': "map_of xs a = Some b'" by (metis map_of_eq_None_iff not_None_eq)
  with assms(2) [OF map_of_SomeD [OF this]] show ?thesis by simp
qed

lemma frame_bytes_lookup:
  assumes "i < length ws" and "k < 4" and "length ws < 0x10000000"
  shows "map_of (rev (frame_bytes va ws)) (va + of_nat (4 * i + k)) = Some (ucast (drop_bit (8 * k) (ws ! i)))"
proof (rule map_of_sole)
  show "(va + of_nat (4 * i + k), ucast (drop_bit (8 * k) (ws ! i))) \<in> set (rev (frame_bytes va ws))"
    using assms(1,2) by (auto simp: frame_bytes_set)
  fix b' assume "(va + of_nat (4 * i + k), b') \<in> set (rev (frame_bytes va ws))"
  then obtain i' k' where *: "i' < length ws" "k' < 4" "va + of_nat (4 * i + k) = va + (of_nat (4 * i' + k') :: u32)"
    "b' = ucast (drop_bit (8 * k') (ws ! i'))"
    unfolding set_rev frame_bytes_set by blast
  then have "(of_nat (4 * i + k) :: u32) = of_nat (4 * i' + k')" by (metis add_left_cancel)
  then have "4 * i + k = 4 * i' + k'"
    using assms * by (subst (asm) word_of_nat_eq_iff_bounded) simp_all
  then have "i' = i" "k' = k" using assms(2) *(2) by presburger+
  then show "b' = ucast (drop_bit (8 * k) (ws ! i))" using * by simp
qed

lemma join_bytes:
  "ucast (ucast (w :: u32) :: u8) OR push_bit 8 (ucast (ucast (drop_bit 8 w) :: u8)) OR
   push_bit 16 (ucast (ucast (drop_bit 16 w) :: u8)) OR push_bit 24 (ucast (ucast (drop_bit 24 w) :: u8)) = w" (is "?j = w")
proof (rule bit_word_eqI)
  fix n :: nat
  assume "n < LENGTH(32)"
  then consider "n < 8" | "8 \<le> n" "n < 16" | "16 \<le> n" "n < 24" | "24 \<le> n" "n < 32" by fastforce
  then show "bit ?j n = bit w n" by cases (auto simp: bit_simps)
qed

lemma vread32_bytes:
  assumes "\<And>k. k < 4 \<Longrightarrow> vread8 (va + of_nat k) s = Ret (ucast (drop_bit (8 * k) w)) s"
  shows "vread32 va s = Ret w s"
  using assms [of 0] assms [of 1] assms [of 2] assms [of 3] join_bytes [of w] by (simp add: vread32_def)

lemma vread32_cong:
  assumes "phys t = phys s" and "cr3 t = cr3 s" and "vread32 a s = Ret w s"
  shows "vread32 a t = Ret w t"
proof -
  define ok where "ok b \<longleftrightarrow> flag (hw_pde s b) PTE_P \<and> flag (hw_pte s b) PTE_P" for b
  define v where "v b = pget8 s (vpa s b)" for b
  have s: "vread8 b s = (if ok b then Ret (v b) s else kernel_fault s)" for b by (simp add: vread8_def ok_def v_def)
  have t: "vread8 b t = (if ok b then Ret (v b) t else kernel_fault t)" for b
    using assms(1,2) by (simp add: vread8_def ok_def v_def hw_pde_def hw_pte_def vpa_def pget8_def)
  show ?thesis using assms(3) unfolding vread32_def s t by (auto simp: s t kernel_fault_def split: if_splits)
qed

section \<open>The exception stack\<close>

lemma fault_stack_page:
  assumes "UXSTACKTOP - PGSIZE \<le> fault_stack tf - 56"
  shows "unat (fault_stack tf - 56) + 56 \<le> 0xEEC00000" and "0xEEBFF000 \<le> unat (fault_stack tf - 56)"
proof -
  have b: "unat (fault_stack tf) \<le> 0xEEC00000" "0xEEBFF000 < unat (fault_stack tf)"
    by (auto simp: fault_stack_def unat_mono_less jos_consts)
  then have "56 \<le> fault_stack tf" by (simp add: word_le_nat_alt)
  then have "unat (fault_stack tf - 56) = unat (fault_stack tf) - 56" by (simp add: unat_sub)
  then show "unat (fault_stack tf - 56) + 56 \<le> 0xEEC00000" using b by simp
  show "0xEEBFF000 \<le> unat (fault_stack tf - 56)" using assms by (simp add: word_le_nat_alt jos_consts)
qed

lemma exception_page:
  assumes "0xEEBFF000 \<le> unat a" and "unat a < 0xEEC00000"
  shows "PGNUM a = 0xEEBFF"
proof -
  have "unat a div 4096 = 0xEEBFF" using assms by linarith
  then show ?thesis by (simp add: word_unat_eq_iff unat_PGNUM)
qed

lemma exception_page_addr:
  assumes "PGNUM a = 0xEEBFF"
  shows "a < UTOP" and "PDX a = PDX (UXSTACKTOP - PGSIZE)" and "PTX a = PTX (UXSTACKTOP - PGSIZE)"
proof -
  have p: "PGNUM a = PGNUM (UXSTACKTOP - PGSIZE)" using assms by (simp add: PGNUM_def jos_consts)
  have "unat a div 4096 = 0xEEBFF" using assms by (simp add: word_unat_eq_iff unat_PGNUM)
  then have "unat a < 0xEEC00000" by linarith
  then show "a < UTOP" by (simp add: unat_mono_less jos_consts)
  show "PDX a = PDX (UXSTACKTOP - PGSIZE)" "PTX a = PTX (UXSTACKTOP - PGSIZE)"
    using same_page [of a "UXSTACKTOP - PGSIZE"] p by simp_all
qed

text \<open>What the upcall needs: the exception stack page is mapped writable and is an ordinary page.\<close>

definition xstack_ready :: "kstate \<Rightarrow> u32 \<Rightarrow> u32 \<Rightarrow> bool" where
  "xstack_ready s q x \<longleftrightarrow> tables_valid q s \<and> vmap s q (UXSTACKTOP - PGSIZE) = Some x \<and>
     x AND (PTE_U OR PTE_W) = PTE_U OR PTE_W \<and> flag (pde s q (PDX (UXSTACKTOP - PGSIZE))) PTE_W"

lemma xstack_page:
  assumes "xstack_ready s q x" and "PGNUM a = 0xEEBFF"
  shows "vmap s q a = Some x" and "flag (pde s q (PDX a)) PTE_W"
  using exception_page_addr(2,3) [OF assms(2)] assms(1) by (auto simp: xstack_ready_def vmap_def split: if_splits)

lemma xstack_flags:
  assumes "xstack_ready s q x"
  shows "flag x PTE_W" and "x AND (PTE_U OR PTE_W OR PTE_U) = PTE_U OR PTE_W OR PTE_U"
proof -
  have e: "x AND (PTE_U OR PTE_W) = PTE_U OR PTE_W" using assms by (simp add: xstack_ready_def)
  have "(x AND (PTE_U OR PTE_W)) AND PTE_W = PTE_W" unfolding e by (simp add: jos_consts)
  moreover have "(x AND (PTE_U OR PTE_W)) AND PTE_W = x AND PTE_W" by (simp add: and.assoc jos_consts)
  ultimately show "flag x PTE_W" by (simp add: flag_def) (simp add: jos_consts)
  show "x AND (PTE_U OR PTE_W OR PTE_U) = PTE_U OR PTE_W OR PTE_U" using e by (simp add: jos_consts)
qed

lemma xstack_writable: "xstack_ready s q x \<Longrightarrow> writable_page s q 0xEEBFF x"
  using xstack_page xstack_flags(1) exception_page_addr(1) by (auto simp: writable_page_def)

lemma frame_in_page:
  assumes "UXSTACKTOP - PGSIZE \<le> fault_stack tf - 56" and "j < 56"
  shows "PGNUM (fault_stack tf - 56 + of_nat j) = 0xEEBFF"
  by (rule exception_page)
    (use fault_stack_page [OF assms(1)] assms(2) in \<open>simp_all add: unat_word_ariths unsigned_of_nat take_bit_nat_eq_self\<close>)

lemma xstack_check:
  assumes "xstack_ready s q x" and "env_pgdir (envs s c) = kva q 0" and "UXSTACKTOP - PGSIZE \<le> fault_stack tf - 56"
  shows "user_mem_assert c (fault_stack tf - 56) 56 (PTE_U OR PTE_W) s = Ret () s"
proof -
  note stk = fault_stack_page [OF assms(3)]
  have "user_ok s q (PTE_U OR PTE_W OR PTE_U) a"
    if "unat (fault_stack tf - 56) \<le> unat a \<and> unat a < unat (fault_stack tf - 56) + unat (56::u32)" for a
  proof -
    have pg: "PGNUM a = 0xEEBFF" by (rule exception_page) (use that stk in simp_all)
    moreover have "a < ULIM" using exception_page_addr(1) [OF pg] by (simp add: unat_mono_less jos_consts)
    ultimately show ?thesis
      using xstack_page(1) [OF assms(1) pg] xstack_flags(2) [OF assms(1)] by (auto simp: user_ok_def vmap_def split: if_splits)
  qed
  moreover have "tables_valid q s" using assms(1) by (simp add: xstack_ready_def)
  ultimately have "user_mem_check c (fault_stack tf - 56) 56 (PTE_U OR PTE_W OR PTE_U) s = Ret (Inr ()) s"
    by (subst user_mem_check_iff [OF _ assms(2)]) (use stk in simp_all)
  then show ?thesis by (simp add: user_mem_assert_def or.assoc)
qed

lemma xstack_data:
  assumes "pt_shape D s" and "q \<in> D" and "xstack_ready s q x"
  shows "no_table D s (PGNUM x)"
proof -
  have "PGNUM (UXSTACKTOP - PGSIZE) = 0xEEBFF" by (simp add: PGNUM_def jos_consts)
  then have "refers D s (PageRef q (PDX (UXSTACKTOP - PGSIZE)) (PTX (UXSTACKTOP - PGSIZE))) (PGNUM x)"
    using assms(2,3) PDX_user [OF exception_page_addr(1)] by (simp add: xstack_ready_def vmap_def split: if_splits)
  note ref = this
  show ?thesis
    unfolding no_table_def
  proof (intro allI impI notI)
    fix r assume "refers D s r (PGNUM x)" and "is_table r"
    from pt_shape_sole [OF assms(1) this ref] this show False by auto
  qed
qed

text \<open>The frame is written and can be read back.\<close>

lemma frame_written:
  assumes "kinv k R fl s" and "live s c" and "cr3 s = env_pgdir (envs s c) - KERNBASE"
    and "xstack_ready s (env_dir s c) x" and "R (PGNUM x) = 0"
    and "UXSTACKTOP - PGSIZE \<le> fault_stack tf - 56" and "length ws \<le> 14"
  obtains t where "vwrite_words (fault_stack tf - 56) ws s = Ret () t" and "kinv k R fl t" and "t = s\<lparr>phys := phys t\<rparr>"
    and "confined (PGNUM x) s t"
    and "\<And>i. i < length ws \<Longrightarrow> vread32 (fault_stack tf - 56 + 4 * of_nat i) t = Ret (ws ! i) t"
proof -
  note inv = kinvD [OF assms(1)] and sh = vm_inv_shape [OF kinvD(1) [OF assms(1)]]
  let ?q = "env_dir s c" and ?utr = "fault_stack tf - 56"
  have q: "?q \<in> dirs s" "env_pgdir (envs s c) = kva ?q 0"
    using live_dir [OF assms(2)] live_pgdir [OF assms(1,2)] by simp_all
  have "unat ?q < 0x100000" using dir_bound [OF sh q(1)] by simp
  then have cr: "PTE_ADDR (cr3 s) = page2pa ?q"
    using page2pa_PGNUM [of "page2pa ?q"] PGNUM_page2pa [of ?q] by (simp add: assms(3) q(2) kva_def)
  note data = xstack_data [OF sh q(1) assms(4)]
  have "PGNUM a = 0xEEBFF" if ab: "(a, b) \<in> set (frame_bytes ?utr ws)" for a b
  proof -
    obtain i j where i: "i < length ws" "j < 4" "a = ?utr + of_nat (4 * i + j)"
      using ab unfolding frame_bytes_set by blast
    then have "4 * i + j < 56" using assms(7) by simp
    then show ?thesis unfolding i(3) by (rule frame_in_page [OF assms(6)])
  qed
  then obtain t where t: "vwrite_words ?utr ws s = Ret () t" "confined (PGNUM x) s t" "t = s\<lparr>phys := phys t\<rparr>"
    "\<And>a. PGNUM a = 0xEEBFF \<Longrightarrow> vread8 a t = Ret (case map_of (rev (frame_bytes ?utr ws)) a of Some b \<Rightarrow> b
       | None \<Rightarrow> pget8 s (PTE_ADDR x OR PGOFF a)) t"
    unfolding vwrite_words_bytes
    using byte_writes_ok [OF sh data q(1) cr xstack_writable [OF assms(4)], of "frame_bytes ?utr ws"] by blast
  have "k \<noteq> PGNUM x" using inv(4) assms(5) by auto
  note kt = data_page_kinv [OF assms(1) data this t(2,3)]
  have "vread32 (?utr + 4 * of_nat i) t = Ret (ws ! i) t" if "i < length ws" for i
  proof (rule vread32_bytes)
    fix j :: nat assume j: "j < 4"
    have e: "?utr + 4 * of_nat i + of_nat j = ?utr + of_nat (4 * i + j)" by simp
    have "4 * i + j < 56" using that j assms(7) by simp
    from t(4) [OF frame_in_page [OF assms(6) this]]
    show "vread8 (?utr + 4 * of_nat i + of_nat j) t = Ret (ucast (drop_bit (8 * j) (ws ! i))) t"
      unfolding e using frame_bytes_lookup [OF that j, of ?utr] assms(7) by simp
  qed
  then show thesis using that t kt by blast
qed


text \<open>Environment 0 of the small system with a page at its exception stack and an upcall.\<close>

definition k_xstack :: kstate where
  "k_xstack = (k_map 954 1023)\<lparr>cr3 := 0x2000, cr2 := 0xDEADBEEF, envs := (envs k_small)(0 := (envs k_small 0)
     \<lparr>env_pgfault_upcall := 0x800020, env_tf := init_tf\<lparr>tf_eip := 0x800123, tf_trapno := T_PGFLT\<rparr>\<rparr>)\<rparr>"

lemma k_xstack_kinv: "kinv 1 small_refs [5, 6, 7] k_xstack"
proof -
  have k: "kinv 1 small_refs [5, 6, 7] (k_map 954 1023)" by (rule k_map_kinv) (simp_all add: PDX_UTOP)
  show ?thesis
    by (rule kinv_env_fields [OF k]) (use kinvD(7) [OF k] in \<open>auto simp: k_xstack_def curenv_def\<close>)
qed

lemma k_xstack_ready: "xstack_ready k_xstack 2 0x4007"
proof -
  have ph: "pde k_xstack = pde (k_map 954 1023)" "pte k_xstack = pte (k_map 954 1023)"
    by (simp_all add: fun_eq_iff pde_def pte_def kload_def k_xstack_def)
  have pd: "pde k_xstack 2 n = (if n = 954 then 0x3007 else 0)" if "unat n < 1024" for n
    using k_map_pde [of 954 1023 2 n] that by (simp add: ph)
  have "PDX (UXSTACKTOP - PGSIZE) = 954" "PTX (UXSTACKTOP - PGSIZE) = 1023"
    by (simp_all add: PDX_def PTX_def jos_consts)
  moreover have "pte k_xstack 2 954 1023 = 0x4007" using k_map_pte [of 954 1023 1023] by (simp add: ph)
  moreover have "tables_valid 2 k_xstack"
  proof -
    have "npages k_xstack = 8" by (simp add: k_xstack_def)
    then show ?thesis by (auto simp: tables_valid_def pd PDX_less PGNUM_def)
  qed
  ultimately show ?thesis
    by (simp add: xstack_ready_def vmap_def pd) (simp add: flag_def jos_consts)
qed


end
