(* ===== verification/Mem_Init.thy ===== *)
theory Mem_Init
  imports Pgfault_Spec
begin

text \<open>
  Detection of memory (\<open>i386_detect_memory\<close> of \<^verbatim>\<open>kern/pmap.c\<close>), and the free list that \<open>page_init\<close>
  builds.
\<close>

section \<open>Memory size\<close>

definition MC_NVRAM_START :: u8 where [jos_consts]: "MC_NVRAM_START = 0xE"
definition NVRAM_BASELO :: u8 where [jos_consts]: "NVRAM_BASELO = MC_NVRAM_START + 7"
definition NVRAM_EXTLO :: u8 where [jos_consts]: "NVRAM_EXTLO = MC_NVRAM_START + 9"
definition NVRAM_EXT16LO :: u8 where [jos_consts]: "NVRAM_EXT16LO = MC_NVRAM_START + 38"

text \<open>\<open>cmos r\<close> is what the device holds in register \<open>r\<close>.\<close>

definition nvram_read :: "(u8 \<Rightarrow> u8) \<Rightarrow> u8 \<Rightarrow> kstate \<Rightarrow> u32 \<times> kstate" where
  "nvram_read cmos r s =
     (let (lo, s) = mc146818_read (cmos r) r s; (hi, s) = mc146818_read (cmos (r + 1)) (r + 1) s
      in (lo OR push_bit 8 hi, s))"

definition i386_detect_memory :: "(u8 \<Rightarrow> u8) \<Rightarrow> kstate \<Rightarrow> kstate" where
  "i386_detect_memory cmos s =
     (let (basemem, s) = nvram_read cmos NVRAM_BASELO s;
          (extmem, s) = nvram_read cmos NVRAM_EXTLO s;
          (e16, s) = nvram_read cmos NVRAM_EXT16LO s;
          ext16mem = e16 * 64;
          totalmem = (if ext16mem \<noteq> 0 then 16 * 1024 + ext16mem
                      else if extmem \<noteq> 0 then 1 * 1024 + extmem else basemem);
          s = s\<lparr>npages := totalmem div (PGSIZE div 1024)\<rparr>;
          s = s\<lparr>npages_basemem := basemem div (PGSIZE div 1024)\<rparr>
      in kprintf (''Physical memory: %uK available, base = %uK, extended = %uK'' @ newline)
           [VInt totalmem, VInt basemem, VInt (totalmem - basemem)] s)"

section \<open>What page_init leaves free\<close>

definition boot_free :: "u32 \<Rightarrow> u32 \<Rightarrow> bool" where
  "boot_free kernel_end p \<longleftrightarrow> p \<noteq> 0 \<and> \<not> (IOPHYSMEM div PGSIZE \<le> p \<and> p < kernel_end) \<and> p \<noteq> MPENTRY_PADDR div PGSIZE"

lemma page_init_step_free:
  "page_init_step (IOPHYSMEM div PGSIZE) ke p s =
     (if boot_free ke p then page_list_push p (upd_page p (\<lambda>pi. pi\<lparr>pp_ref := 0\<rparr>) s)
      else upd_page p (\<lambda>_. \<lparr>pp_link = None, pp_ref = 1\<rparr>) s)"
  by (auto simp: page_init_step_def boot_free_def)

lemma page_init_step_phys: "phys (fold (page_init_step io ke) ps s) = phys s"
  by (induction ps arbitrary: s) (simp_all add: page_init_step_def page_list_push_def kops)

lemma page_init_loop:
  assumes "distinct ps" and "page_free_list s = None" and "t = fold (page_init_step (IOPHYSMEM div PGSIZE) ke) ps s"
  shows "free_pages t (rev (filter (boot_free ke) ps)) \<and> vm_only s t \<and>
    (\<forall>p. p \<in> set ps \<longrightarrow> pp_ref (pages t p) = (if boot_free ke p then 0 else 1) \<and>
       (\<not> boot_free ke p \<longrightarrow> pp_link (pages t p) = None)) \<and>
    (\<forall>p. p \<notin> set ps \<longrightarrow> pages t p = pages s p)"
  unfolding assms(3) using assms(1,2)
proof (induction ps rule: rev_induct)
  case Nil
  then show ?case by (simp add: pl.elems_Nil)
next
  case (snoc p ps)
  define r where "r = fold (page_init_step (IOPHYSMEM div PGSIZE) ke) ps s"
  have IH: "free_pages r (rev (filter (boot_free ke) ps))" "vm_only s r"
    "\<And>q. q \<in> set ps \<Longrightarrow> pp_ref (pages r q) = (if boot_free ke q then 0 else 1) \<and>
       (\<not> boot_free ke q \<longrightarrow> pp_link (pages r q) = None)"
    "\<And>q. q \<notin> set ps \<Longrightarrow> pages r q = pages s q"
    using snoc unfolding r_def by auto
  have p: "p \<notin> set ps" using snoc.prems by simp
  have el: "free_pages (upd_page p f r) (rev (filter (boot_free ke) ps))" for f
  proof -
    have "chain (\<lambda>x. pp_link (pages (upd_page p f r) x)) (page_free_list r) (rev (filter (boot_free ke) ps)) =
        chain (\<lambda>x. pp_link (pages r x)) (page_free_list r) (rev (filter (boot_free ke) ps))"
      by (rule chain_cong) (use p in \<open>auto simp: upd_page_def\<close>)
    moreover have "page_free_list (upd_page p f r) = page_free_list r" by (simp add: upd_page_def)
    ultimately show ?thesis using IH(1) unfolding pl.elems_def by simp
  qed
  have push: "free_pages (page_list_push p (upd_page p f r)) (p # rev (filter (boot_free ke) ps))" for f
    by (rule pl.elems_push [OF el]) (use p in simp)
  define u where "u = page_init_step (IOPHYSMEM div PGSIZE) ke p r"
  have u: "u = (if boot_free ke p then page_list_push p (upd_page p (\<lambda>pi. pi\<lparr>pp_ref := 0\<rparr>) r)
      else upd_page p (\<lambda>_. \<lparr>pp_link = None, pp_ref = 1\<rparr>) r)"
    unfolding u_def by (rule page_init_step_free)
  have "free_pages u (rev (filter (boot_free ke) (ps @ [p])))" using push el by (simp add: u)
  moreover have "vm_only s u"
    using IH(2) by (simp add: u page_list_push_eq upd_page_def vm_only_def)
  moreover have "pages u q = (if q = p then (if boot_free ke p then \<lparr>pp_link = page_free_list r, pp_ref = 0\<rparr>
      else \<lparr>pp_link = None, pp_ref = 1\<rparr>) else pages r q)" for q
    by (simp add: u page_list_push_eq upd_page_def)
  ultimately show ?case
    using IH(3,4) p by (auto simp: r_def [symmetric] u_def [symmetric])
qed

lemma page_init_ok:
  assumes "npages_ok s" and "page_free_list s = None" and "nextfree s \<noteq> 0" and "KERNBASE \<le> nextfree s"
    and "ke = (nextfree s - KERNBASE) div PGSIZE"
  shows "\<exists>t. page_init end_sym s = Ret () t \<and> vm_only (s\<lparr>nextfree := ROUNDUP (nextfree s) PGSIZE\<rparr>) t \<and> phys t = phys s \<and>
     free_ok (rev (filter (boot_free ke) (map of_nat [0..<unat (npages s)]))) t \<and>
     (\<forall>p < npages s. pp_ref (pages t p) = (if boot_free ke p then 0 else 1))"
proof -
  let ?ps = "map of_nat [0..<unat (npages s)] :: u32 list"
  define s1 where "s1 = s\<lparr>nextfree := ROUNDUP (nextfree s) PGSIZE\<rparr>"
  define t where "t = fold (page_init_step (IOPHYSMEM div PGSIZE) ke) ?ps s1"
  have n: "unat (npages s) \<le> 0x10000" using assms(1) by (simp add: npages_ok_def)
  have "of_nat i < npages s" if "i < unat (npages s)" for i
    using that n by (simp add: unat_mono_less unsigned_of_nat take_bit_nat_eq_self)
  moreover have "p = of_nat (unat p)" for p :: u32 by simp
  ultimately have ps: "p \<in> set ?ps \<longleftrightarrow> p < npages s" for p
    unfolding set_map set_upt by (metis atLeastLessThan_iff image_iff unat_mono_less zero_le)
  have d: "distinct ?ps"
    using n by (auto simp: distinct_map inj_on_def word_of_nat_eq_iff_bounded)
  have eq: "page_init end_sym s = Ret () t"
    using assms(3,4,5) by (simp add: page_init_def boot_alloc_def Let_def PADDR_def t_def s1_def not_less)
  have s1: "page_free_list s1 = None" "npages s1 = npages s" "pages s1 = pages s" using assms(2) by (simp_all add: s1_def)
  note loop = page_init_loop [OF d s1(1) t_def]
  have "npages t = npages s" using loop s1(2) by (simp add: vm_only_def)
  then have "free_ok (rev (filter (boot_free ke) ?ps)) t"
    unfolding free_ok_def using loop assms(1) ps by (auto simp: npages_ok_def)
  moreover have "phys t = phys s" by (simp add: t_def page_init_step_phys s1_def)
  ultimately show ?thesis using eq loop ps s1_def by auto
qed


definition boot_demo :: kstate where
  "boot_demo = bss_state\<lparr>npages := 0x8000, nextfree := 0xF0300000\<rparr>"


end
