(* ===== verification/Mpconfig.thy ===== *)
theory Mpconfig
  imports Mem_Init
begin

text \<open>
  Search for the multiprocessor tables in the BIOS memory and numbering of the processors
  (\<^verbatim>\<open>kern/mpconfig.c\<close>).  Structures are read byte by byte at their offsets: \<open>struct mp\<close> has
  \<open>physaddr\<close> 4, \<open>type\<close> 11, \<open>imcrp\<close> 12 and 16 bytes in all; \<open>struct mpconf\<close> has \<open>length\<close> 4,
  \<open>version\<close> 6, \<open>entry\<close> 34, \<open>lapicaddr\<close> 36, \<open>xlength\<close> 40, \<open>xchecksum\<close> 42 and its entries at 44;
  \<open>struct mpproc\<close> has \<open>apicid\<close> 1, \<open>flags\<close> 3 and 20 bytes in all.
\<close>

definition mp_sum :: "kstate \<Rightarrow> u32 \<Rightarrow> nat \<Rightarrow> u8" where
  "mp_sum s addr len =
     ucast (fold (\<lambda>i acc. acc + ucast (kget8 s (addr + of_nat i))) [0..<len] (0 :: u32))"

definition bytes_at :: "kstate \<Rightarrow> u32 \<Rightarrow> string \<Rightarrow> bool" where
  "bytes_at s a str \<longleftrightarrow> map (\<lambda>i. kget8 s (a + of_nat i)) [0..<length str] = bytes str"

definition mpsearch1 :: "u32 \<Rightarrow> u32 \<Rightarrow> kstate \<Rightarrow> (u32 option, kstate) outcome" where
  "mpsearch1 a len s =
     kbind (KADDR a s) (\<lambda>mp s. kbind (KADDR (a + len) s) (\<lambda>e s.
       Ret (find (\<lambda>mp. bytes_at s mp ''_MP_'' \<and> mp_sum s mp 16 = 0)
              (if mp < e then map (\<lambda>k. mp + 16 * of_nat k) [0..<(unat e - unat mp + 15) div 16] else [])) s))"

definition mpsearch :: "kstate \<Rightarrow> (u32 option, kstate) outcome" where
  "mpsearch s =
     kbind (KADDR (push_bit 4 0x40) s) (\<lambda>bda s.
       let p = ucast (kget16 s (bda + 0x0E)) :: u32 in
       kbind (if p \<noteq> 0 then mpsearch1 (push_bit 4 p) 1024 s
              else mpsearch1 (ucast (kget16 s (bda + 0x13)) * 1024 - 1024) 1024 s) (\<lambda>mp s.
         case mp of Some mp \<Rightarrow> Ret (Some mp) s | None \<Rightarrow> mpsearch1 0xF0000 0x10000 s))"

definition mpconfig :: "kstate \<Rightarrow> ((u32 \<times> u32) option, kstate) outcome" where
  "mpconfig s =
     kbind (mpsearch s) (\<lambda>mp s. case mp of
         None \<Rightarrow> Ret None s
       | Some mp \<Rightarrow>
           if kget32 s (mp + 4) = 0 \<or> kget8 s (mp + 11) \<noteq> 0 then
             Ret None (kprintf (''SMP: Default configurations not implemented'' @ newline) [] s)
           else kbind (KADDR (kget32 s (mp + 4)) s) (\<lambda>conf s.
             if \<not> bytes_at s conf ''PCMP'' then
               Ret None (kprintf (''SMP: Incorrect MP configuration table signature'' @ newline) [] s)
             else if mp_sum s conf (unat (kget16 s (conf + 4))) \<noteq> 0 then
               Ret None (kprintf (''SMP: Bad MP configuration checksum'' @ newline) [] s)
             else if kget8 s (conf + 6) \<noteq> 1 \<and> kget8 s (conf + 6) \<noteq> 4 then
               Ret None (kprintf (''SMP: Unsupported MP version %d'' @ newline) [VInt (ucast (kget8 s (conf + 6)))] s)
             else if mp_sum s (conf + ucast (kget16 s (conf + 4))) (unat (kget16 s (conf + 40))) + kget8 s (conf + 42) \<noteq> 0 then
               Ret None (kprintf (''SMP: Bad MP configuration extended checksum'' @ newline) [] s)
             else Ret (Some (mp, conf)) s))"

definition MPPROC_BOOT :: u8 where [jos_consts]: "MPPROC_BOOT = 0x02"
definition MPPROC :: u8 where [jos_consts]: "MPPROC = 0"
definition MPBUS :: u8 where [jos_consts]: "MPBUS = 1"
definition MPIOAPIC :: u8 where [jos_consts]: "MPIOAPIC = 2"
definition MPIOINTR :: u8 where [jos_consts]: "MPIOINTR = 3"
definition MPLINTR :: u8 where [jos_consts]: "MPLINTR = 4"

text \<open>The loop over the entries; the first argument is the number of entries left.\<close>

fun mp_entries :: "nat \<Rightarrow> u32 \<Rightarrow> kstate \<Rightarrow> kstate" where
  "mp_entries 0 p s = s"
| "mp_entries (Suc n) p s =
     (let ty = kget8 s p in
      if ty = MPPROC then
        let s = (if flag (kget8 s (p + 3)) MPPROC_BOOT then s\<lparr>bootcpu := ncpu s\<rparr> else s);
            s = (if ncpu s < NCPU
                 then s\<lparr>cpus := (cpus s)(ncpu s := (cpus s (ncpu s))\<lparr>cpu_id := of_nat (ncpu s)\<rparr>), ncpu := ncpu s + 1\<rparr>
                 else kprintf (''SMP: too many CPUs, CPU %d disabled'' @ newline) [VInt (ucast (kget8 s (p + 1)))] s)
        in mp_entries n (p + 20) s
      else if ty \<in> {MPBUS, MPIOAPIC, MPIOINTR, MPLINTR} then mp_entries n (p + 8) s
      else (kprintf (''mpinit: unknown config type %x'' @ newline) [VInt (ucast ty)] s)\<lparr>ismp := False\<rparr>)"

text \<open>
  \<open>imcr\<close> is what port \<open>0x23\<close> returns.  \<open>Panic\<close> marks the write through \<open>bootcpu\<close> behind the end of
  \<open>cpus\<close>.
\<close>

definition mp_init :: "u8 \<Rightarrow> kstate \<Rightarrow> (unit, kstate) outcome" where
  "mp_init imcr s =
     (let s = s\<lparr>bootcpu := 0\<rparr> in
      kbind (mpconfig s) (\<lambda>r s. case r of
          None \<Rightarrow> Ret () s
        | Some (mp, conf) \<Rightarrow>
            let s = s\<lparr>ismp := True\<rparr>;
                s = s\<lparr>lapicaddr := kget32 s (conf + 36)\<rparr>;
                s = mp_entries (unat (kget16 s (conf + 34))) (conf + 44) s
            in if NCPU \<le> bootcpu s then Panic ''write behind the end of cpus'' s
               else
                 let s = s\<lparr>cpus := (cpus s)(bootcpu s := (cpus s (bootcpu s))\<lparr>cpu_status := CPU_STARTED\<rparr>)\<rparr> in
                 if \<not> ismp s then
                   Ret () (kprintf (''SMP: configuration not found, SMP disabled'' @ newline) []
                     (s\<lparr>ncpu := 1, lapicaddr := 0\<rparr>))
                 else
                   let s = kprintf (''SMP: CPU %d found %d CPU(s)'' @ newline)
                             [VInt (ucast (cpu_id (cpus s (bootcpu s)))), VInt (of_nat (ncpu s))] s
                   in if kget8 s (mp + 12) \<noteq> 0 then
                        Ret () (koutb 0x23 (imcr OR 1) (koutb 0x22 0x70
                          (kprintf (''SMP: Setting IMCR to switch from PIC mode to symmetric I/O mode'' @ newline) [] s)))
                      else Ret () s))"

section \<open>Numbering of the processors\<close>

definition cpus_numbered :: "kstate \<Rightarrow> bool" where
  "cpus_numbered s \<longleftrightarrow> ncpu s \<le> NCPU \<and> (\<forall>i < ncpu s. cpu_id (cpus s i) = of_nat i)"

lemma cpus_numbered_kprintf [simp]:
  "cpus_numbered (kprintf f a s) = cpus_numbered s" "ncpu (kprintf f a s) = ncpu s" "bootcpu (kprintf f a s) = bootcpu s"
  by (simp_all add: cpus_numbered_def kprintf_def kops)

lemma mp_entries_numbered:
  "cpus_numbered s \<Longrightarrow> cpus_numbered (mp_entries n p s) \<and> ncpu s \<le> ncpu (mp_entries n p s)"
proof (induction n arbitrary: p s)
  case (Suc n)
  let ?s = "if flag (kget8 s (p + 3)) MPPROC_BOOT then s\<lparr>bootcpu := ncpu s\<rparr> else s"
  let ?t = "if ncpu ?s < NCPU
     then ?s\<lparr>cpus := (cpus ?s)(ncpu ?s := (cpus ?s (ncpu ?s))\<lparr>cpu_id := of_nat (ncpu ?s)\<rparr>), ncpu := ncpu ?s + 1\<rparr>
     else kprintf (''SMP: too many CPUs, CPU %d disabled'' @ newline) [VInt (ucast (kget8 ?s (p + 1)))] ?s"
  have "cpus_numbered ?t" "ncpu s \<le> ncpu ?t"
    using Suc.prems by (auto simp: cpus_numbered_def less_Suc_eq)
  then show ?case
    using Suc.IH [of ?t "p + 20"] Suc.IH [OF Suc.prems, of "p + 8"] Suc.prems
    by (simp only: mp_entries.simps Let_def split: if_split) (auto simp: cpus_numbered_def)
qed simp

lemma mpsearch1_frame:
  "mpsearch1 a len s = Ret r t \<Longrightarrow> t = s"
  by (auto simp: mpsearch1_def KADDR_def split: if_splits)

lemma mpsearch_frame:
  "mpsearch s = Ret r t \<Longrightarrow> t = s"
  by (auto simp: mpsearch_def KADDR_def Let_def kbind_Ret_iff split: if_splits option.splits dest!: mpsearch1_frame)

definition same_cpus :: "kstate \<Rightarrow> kstate \<Rightarrow> bool" where
  "same_cpus s t \<longleftrightarrow> ncpu t = ncpu s \<and> cpus t = cpus s \<and> bootcpu t = bootcpu s"

lemma same_cpus_kprintf [simp]: "same_cpus s (kprintf f a s)" "same_cpus s s"
  by (simp_all add: same_cpus_def kprintf_def kops)

lemma mpconfig_frame:
  assumes "mpconfig s = Ret r t"
  shows "same_cpus s t"
proof -
  from assms obtain mp where mp: "mpsearch s = Ret mp s"
    unfolding mpconfig_def by (auto dest: mpsearch_frame)
  show ?thesis
    using assms unfolding mpconfig_def mp kbind.simps KADDR_def
    by (simp split: option.splits if_splits, auto)
qed

text \<open>The first processor keeps the number 0 even if the table lists none.\<close>

lemma mp_entries_first:
  "cpu_id (cpus s 0) = 0 \<Longrightarrow> cpu_id (cpus (mp_entries n p s) 0) = 0"
  by (induction n p s rule: mp_entries.induct) (auto simp: Let_def kprintf_def kops)


text \<open>A table with two processors, the first of which boots.\<close>

definition mp_demo :: kstate where
  "mp_demo = bss_state\<lparr>npages := 0x8000, phys := (\<lambda>_. 0)(0x40C := 0x9FC00000, 0x9FC00 := 0x5F504D5F, 0x9FC04 := 0x9FC40, 0x9FC08 := 0x5B0401, 0x9FC40 := 0x504D4350, 0x9FC44 := 0x93040054, 0x9FC60 := 0x20000, 0x9FC64 := 0xFEE00000, 0x9FC6C := 0x3000000, 0x9FC80 := 0x1000100)\<rparr>"

lemma mpsearch_demo:
  "mpsearch (mp_demo\<lparr>bootcpu := 0\<rparr>) = Ret (Some 0xF009FC00) (mp_demo\<lparr>bootcpu := 0\<rparr>)"
proof -
  let ?s = "mp_demo\<lparr>bootcpu := 0\<rparr>"
  have 1: "kget16 ?s 0xF000040E = 0x9FC0" by (simp add: kget16_def kget8_def pget8_def mp_demo_def jos_consts)
  have 2: "bytes_at ?s 0xF009FC00 ''_MP_''"
    by (simp add: bytes_at_def bytes_def kget8_def pget8_def mp_demo_def jos_consts upt_rec)
  have 3: "mp_sum ?s 0xF009FC00 16 = 0"
    by (simp add: mp_sum_def kget8_def pget8_def mp_demo_def jos_consts upt_rec)
  show ?thesis
    using 1 2 3 by (simp add: mpsearch_def mpsearch1_def KADDR_def mp_demo_def Let_def jos_consts PGNUM_def upt_conv_Cons del: upt_Suc)
qed

lemma mpconfig_demo:
  "mpconfig (mp_demo\<lparr>bootcpu := 0\<rparr>) = Ret (Some (0xF009FC00, 0xF009FC40)) (mp_demo\<lparr>bootcpu := 0\<rparr>)"
proof -
  let ?s = "mp_demo\<lparr>bootcpu := 0\<rparr>"
  have 1: "kget32 ?s 0xF009FC04 = 0x9FC40" "kget8 ?s 0xF009FC0B = 0" "kget8 ?s 0xF009FC46 = 4" "kget16 ?s 0xF009FC44 = 84"
    "kget16 ?s 0xF009FC68 = 0" "kget8 ?s 0xF009FC6A = 0"
    by (simp_all add: kget32_def kget16_def kget8_def pget8_def mp_demo_def jos_consts)
  have 2: "bytes_at ?s 0xF009FC40 ''PCMP''"
    by (simp add: bytes_at_def bytes_def kget8_def pget8_def mp_demo_def jos_consts upt_rec)
  have 3: "mp_sum ?s 0xF009FC40 84 = 0" "mp_sum ?s 0xF009FC94 0 = 0"
    by (simp_all add: mp_sum_def kget8_def pget8_def mp_demo_def jos_consts upt_rec)
  have 4: "KADDR 0x9FC40 ?s = Ret 0xF009FC40 ?s" by (simp add: KADDR_def mp_demo_def PGNUM_def jos_consts)
  show ?thesis
    using 1 2 3 4 mpsearch_demo by (simp add: mpconfig_def)
qed

lemma mp_demo_runs:
  "\<exists>t. mp_init 0 mp_demo = Ret () t \<and> ncpu t = 2"
proof -
  let ?s = "\<lambda>a. mp_demo\<lparr>bootcpu := 0, ismp := True, lapicaddr := a\<rparr>"
  define t where "t a = mp_entries 2 0xF009FC6C (?s a)" for a
  have "kget16 (?s a) 0xF009FC62 = 2" for a
    by (simp add: kget16_def kget8_def pget8_def mp_demo_def jos_consts)
  then have n: "unat (kget16 (?s a) 0xF009FC62) = 2" for a by simp
  have *: "mp_entries (Suc (Suc 0)) 0xF009FC6C (?s a) =
      ?s a\<lparr>cpus := (cpus mp_demo)(0 := (cpus mp_demo 0)\<lparr>cpu_id := 0\<rparr>, Suc 0 := (cpus mp_demo (Suc 0))\<lparr>cpu_id := 1\<rparr>), ncpu := 2\<rparr>" for a
    by (simp add: kget8_def pget8_def mp_demo_def jos_consts bss_state_def flag_def Let_def)
  then have t: "ncpu (t a) = 2" "bootcpu (t a) = 0" "ismp (t a)" for a
    by (simp_all add: t_def numeral_2_eq_2)
  show ?thesis
    using n t by (simp add: mp_init_def mpconfig_demo Let_def t_def [symmetric] NCPU_def del: unat_eq_zero)
      (simp add: koutb_def)
qed


end
