(* ===== verification/Stabs.thy ===== *)
theory Stabs
  imports Mpconfig
begin

text \<open>
  Debugging symbols (\<^verbatim>\<open>inc/stab.h\<close>, \<^verbatim>\<open>kern/kdebug.c\<close>): \<open>stab_binsearch\<close> and its meaning.  A table
  is a function from indices to entries; the C code indexes it with \<open>int\<close>s, which do not overflow
  because a table in a 32-bit address space has fewer than \<open>2 ^ 29\<close> entries of 12 bytes.
\<close>

section \<open>Symbols\<close>

definition N_FUN :: int where [jos_consts]: "N_FUN = 0x24"
definition N_SLINE :: int where [jos_consts]: "N_SLINE = 0x44"
definition N_SO :: int where [jos_consts]: "N_SO = 0x64"
definition N_SOL :: int where [jos_consts]: "N_SOL = 0x84"
definition N_PSYM :: int where [jos_consts]: "N_PSYM = 0xA0"

record Stab =
  n_strx :: u32
  n_type :: u8
  n_other :: u8
  n_desc :: u16
  n_value :: u32

definition has_type :: "int \<Rightarrow> Stab \<Rightarrow> bool" where
  "has_type type st \<longleftrightarrow> uint (n_type st) = type"

section \<open>The search\<close>

text \<open>\<open>while (m >= l && stabs[m].n_type != type) m--;\<close>\<close>

function scan_type :: "(int \<Rightarrow> Stab) \<Rightarrow> int \<Rightarrow> int \<Rightarrow> int \<Rightarrow> int" where
  "scan_type stabs type l m = (if l \<le> m \<and> \<not> has_type type (stabs m) then scan_type stabs type l (m - 1) else m)"
  by pat_completeness auto
termination
  by (relation "measure (\<lambda>(stabs, type, l, m). nat (m - l + 1))") auto

declare scan_type.simps [simp del]

lemma scan_type_spec:
  assumes "l \<le> m + 1"
  shows "scan_type stabs type l m \<le> m" and "l - 1 \<le> scan_type stabs type l m"
    and "l \<le> scan_type stabs type l m \<Longrightarrow> has_type type (stabs (scan_type stabs type l m))"
    and "scan_type stabs type l m < i \<Longrightarrow> i \<le> m \<Longrightarrow> \<not> has_type type (stabs i)"
proof (atomize (full), use assms in \<open>induction stabs type l m rule: scan_type.induct\<close>)
  case (1 stabs type l m)
  show ?case
  proof (cases "l \<le> m \<and> \<not> has_type type (stabs m)")
    case True
    then have "scan_type stabs type l m = scan_type stabs type l (m - 1)" by (simp add: scan_type.simps)
    moreover have "i \<le> m \<longleftrightarrow> i \<le> m - 1 \<or> i = m" for i :: int by auto
    ultimately show ?thesis using 1 True by auto
  next
    case False
    then have "scan_type stabs type l m = m" by (subst scan_type.simps) auto
    then show ?thesis using False 1 by auto
  qed
qed

text \<open>
  The loop of \<open>stab_binsearch\<close> (below) ends although an exact match may leave the interval as it is: the entry just found is
  then no exact match for the incremented address.
\<close>

definition exact_probe :: "(int \<Rightarrow> Stab) \<Rightarrow> int \<Rightarrow> int \<Rightarrow> int \<Rightarrow> u32 \<Rightarrow> bool" where
  "exact_probe stabs type l r addr \<longleftrightarrow>
     n_value (stabs (scan_type stabs type l ((l + r) div 2))) = addr"

lemma exact_probe_next:
  "exact_probe stabs type l r a \<Longrightarrow> \<not> exact_probe stabs type l r (a + 1)"
  by (auto simp: exact_probe_def)

lemma interval_measure:
  "x < y \<Longrightarrow> 2 * x + (if p then 1 else 0) < 2 * y + (if q then 1 else 0 :: nat)"
  by simp

text \<open>
  The loop of \<open>stab_binsearch\<close>.  \<open>any\<close> is \<open>any_matches\<close>; \<open>rl\<close> and \<open>rr\<close> are the values stored
  through \<open>region_left\<close> and \<open>region_right\<close>.
\<close>

function binsearch_loop ::
  "(int \<Rightarrow> Stab) \<Rightarrow> int \<Rightarrow> int \<Rightarrow> int \<Rightarrow> u32 \<Rightarrow> bool \<Rightarrow> int \<Rightarrow> int \<Rightarrow> bool \<times> int \<times> int" where
  "binsearch_loop stabs type l r addr any rl rr =
     (if l \<le> r then
        let true_m = (l + r) div 2; m = scan_type stabs type l true_m in
        if m < l then binsearch_loop stabs type (true_m + 1) r addr any rl rr
        else if n_value (stabs m) < addr then binsearch_loop stabs type (true_m + 1) r addr True m rr
        else if n_value (stabs m) > addr then binsearch_loop stabs type l (m - 1) addr True rl (m - 1)
        else binsearch_loop stabs type m r (addr + 1) True m rr
      else (any, rl, rr))"
  by pat_completeness auto
termination
proof (relation "measure (\<lambda>(stabs, type, l, r, addr, _). 2 * nat (r - l + 1) + (if exact_probe stabs type l r addr then 1 else 0))",
    goal_cases)
  case (2 stabs type l r addr any rl rr tm m)
  then have "l \<le> tm" by simp
  then have "nat (r - (tm + 1) + 1) < nat (r - l + 1)" using 2 by simp
  then show ?case by (simp only: in_measure prod.case interval_measure)
next
  case (3 stabs type l r addr any rl rr tm m)
  then have "l \<le> tm" by simp
  then have "nat (r - (tm + 1) + 1) < nat (r - l + 1)" using 3 by simp
  then show ?case by (simp only: in_measure prod.case interval_measure)
next
  case (4 stabs type l r addr any rl rr tm m)
  then have "tm \<le> r" "l \<le> tm" by simp_all
  moreover have "m \<le> tm" using scan_type_spec(1) [of l tm stabs type] 4 \<open>l \<le> tm\<close> by simp
  ultimately have "nat (m - 1 - l + 1) < nat (r - l + 1)" using 4 by simp
  then show ?case by (simp only: in_measure prod.case interval_measure)
next
  case (5 stabs type l r addr any rl rr tm m)
  then have ex: "exact_probe stabs type l r addr" by (simp add: exact_probe_def)
  show ?case
  proof (cases "m = l")
    case True
    then show ?thesis using ex exact_probe_next [OF ex] by simp
  next
    case False
    then have "nat (r - m + 1) < nat (r - l + 1)" using 5 by simp
    then show ?thesis by (simp only: in_measure prod.case interval_measure)
  qed
qed simp

declare binsearch_loop.simps [simp del]

definition stab_binsearch :: "(int \<Rightarrow> Stab) \<Rightarrow> int \<Rightarrow> int \<Rightarrow> int \<Rightarrow> u32 \<Rightarrow> int \<times> int" where
  "stab_binsearch stabs region_left region_right type addr =
     (case binsearch_loop stabs type region_left region_right addr False region_left region_right of
        (any_matches, rl, rr) \<Rightarrow>
          if \<not> any_matches then (rl, rl - 1)
          else (scan_type stabs type (rl + 1) rr, rr))"

section \<open>What the search finds\<close>

text \<open>
  The specification: among the entries of the type in the region, the last one that does not lie
  above \<open>addr\<close>, and the index before the first one that does.
\<close>

definition of_type :: "(int \<Rightarrow> Stab) \<Rightarrow> int \<Rightarrow> int \<Rightarrow> int \<Rightarrow> int list" where
  "of_type stabs type l r = filter (\<lambda>i. has_type type (stabs i)) [l..r]"

definition stab_containing :: "(int \<Rightarrow> Stab) \<Rightarrow> int \<Rightarrow> int \<Rightarrow> int \<Rightarrow> u32 \<Rightarrow> int \<times> int" where
  "stab_containing stabs l r type addr =
     (let idx = of_type stabs type l r;
          below = filter (\<lambda>i. n_value (stabs i) \<le> addr) idx;
          above = filter (\<lambda>i. addr < n_value (stabs i)) idx;
          right = (if above = [] then r else hd above - 1)
      in if idx = [] then (l, l - 1)
         else if below = [] then (min l right, right)
         else (last below, right))"

text \<open>
  The invariant of the loop, for a region \<open>{L..R}\<close> and the address \<open>a0\<close> it started with.
\<close>

definition found :: "(int \<Rightarrow> Stab) \<Rightarrow> int \<Rightarrow> int \<Rightarrow> int \<Rightarrow> u32 \<Rightarrow> int \<Rightarrow> int \<Rightarrow> bool \<Rightarrow> int \<Rightarrow> bool" where
  "found stabs type L R a0 l r any rl \<longleftrightarrow> L \<le> l \<and> r \<le> R \<and>
     (\<forall>i. L \<le> i \<and> i \<le> R \<and> has_type type (stabs i) \<and> r < i \<longrightarrow> a0 < n_value (stabs i)) \<and>
     (r = R \<or> L \<le> r + 1 \<and> r < R \<and> has_type type (stabs (r + 1)) \<and> any) \<and>
     (any \<longrightarrow> (\<exists>i. L \<le> i \<and> i \<le> R \<and> has_type type (stabs i))) \<and>
     (any \<and> L \<le> rl \<and> rl \<le> R \<and> has_type type (stabs rl) \<and> n_value (stabs rl) \<le> a0 \<and>
        (\<forall>i. L \<le> i \<and> i \<le> R \<and> has_type type (stabs i) \<and> i < l \<longrightarrow> i \<le> rl) \<or>
      rl = L \<and> (\<forall>i. L \<le> i \<and> i \<le> R \<and> has_type type (stabs i) \<longrightarrow> l \<le> i))"

text \<open>
  What the search needs: the entries of the type ascend, and after an exact match no entry has
  the next address, which the loop then looks for.
\<close>

definition searchable :: "(int \<Rightarrow> Stab) \<Rightarrow> int \<Rightarrow> int \<Rightarrow> int \<Rightarrow> u32 \<Rightarrow> bool" where
  "searchable stabs type L R a0 \<longleftrightarrow>
     sorted (map (\<lambda>i. n_value (stabs i)) (of_type stabs type L R)) \<and>
     (a0 \<in> (\<lambda>i. n_value (stabs i)) ` set (of_type stabs type L R) \<longrightarrow>
        a0 \<noteq> 0xFFFFFFFF \<and> a0 + 1 \<notin> (\<lambda>i. n_value (stabs i)) ` set (of_type stabs type L R))"

lemma set_of_type: "set (of_type stabs type L R) = {i. L \<le> i \<and> i \<le> R \<and> has_type type (stabs i)}"
  by (auto simp: of_type_def)

lemma strict_sorted_of_type: "sorted_wrt (<) (of_type stabs type L R)"
proof -
  have "sorted_wrt (<) [i..j]" for i j :: int
    by (induction i j rule: upto.induct) (subst upto.simps, auto)
  then show ?thesis by (simp add: of_type_def sorted_wrt_filter)
qed

lemma searchable_mono:
  assumes "searchable stabs type L R a0" and "i \<in> set (of_type stabs type L R)" and "j \<in> set (of_type stabs type L R)"
    and "i \<le> j"
  shows "n_value (stabs i) \<le> n_value (stabs j)"
proof -
  have "sorted_wrt (\<lambda>i j. i < j \<and> n_value (stabs i) \<le> n_value (stabs j)) (of_type stabs type L R)"
    using assms(1) strict_sorted_of_type [of stabs type L R]
    by (simp add: searchable_def sorted_wrt_map sorted_wrt_iff_nth_less)
  then show ?thesis
    using assms(2-4) by (auto simp: in_set_conv_nth sorted_wrt_iff_nth_less) (metis linorder_neqE_nat not_less order_refl)
qed

lemma found_skip:
  assumes "found stabs type L R a0 l r any rl" and "l \<le> tm + 1"
    and "\<And>i. l \<le> i \<Longrightarrow> i \<le> tm \<Longrightarrow> \<not> has_type type (stabs i)"
  shows "found stabs type L R a0 (tm + 1) r any rl"
  using assms unfolding found_def by (smt (verit))

lemma found_below:
  assumes "found stabs type L R a0 l r any rl" and "l \<le> m" and "m \<le> tm" and "tm \<le> r" and "has_type type (stabs m)"
    and "\<And>i. m < i \<Longrightarrow> i \<le> tm \<Longrightarrow> \<not> has_type type (stabs i)" and "n_value (stabs m) \<le> a0"
  shows "found stabs type L R a0 (tm + 1) r True m" and "found stabs type L R a0 m r True m"
proof -
  have "L \<le> m" "m \<le> R" "r \<le> R" "L \<le> tm + 1" using assms(1-4) by (auto simp: found_def)
  moreover have "i \<le> m" if "has_type type (stabs i)" "i < tm + 1" for i using assms(6) [of i] that by force
  ultimately show "found stabs type L R a0 (tm + 1) r True m" "found stabs type L R a0 m r True m"
    using assms(1,5,7) by (auto simp: found_def)
qed

lemma found_above:
  assumes "searchable stabs type L R a0" and "found stabs type L R a0 l r any rl" and "l \<le> m" and "m \<le> r"
    and "has_type type (stabs m)" and "a0 < n_value (stabs m)"
  shows "found stabs type L R a0 l (m - 1) True rl"
proof -
  have m: "L \<le> m" "m \<le> R" using assms(2-4) by (auto simp: found_def)
  have "a0 < n_value (stabs i)" if "L \<le> i" "i \<le> R" "has_type type (stabs i)" "m - 1 < i" for i
    using searchable_mono [OF assms(1), of m i] m assms(5,6) that by (auto simp: set_of_type)
  then show ?thesis using assms(2,5) m by (auto simp: found_def)
qed

lemma probe_compare:
  assumes "searchable stabs type L R a0" and "m \<in> set (of_type stabs type L R)"
    and "a = a0 \<or> a = a0 + 1 \<and> a0 \<in> (\<lambda>i. n_value (stabs i)) ` set (of_type stabs type L R)"
  shows "n_value (stabs m) < a \<Longrightarrow> n_value (stabs m) \<le> a0"
    and "a < n_value (stabs m) \<Longrightarrow> a0 < n_value (stabs m)"
    and "n_value (stabs m) = a \<Longrightarrow> a = a0"
proof -
  have wrap: "a0 \<noteq> 0xFFFFFFFF" if "a = a0 + 1" "a \<noteq> a0" using assms(1,3) that by (auto simp: searchable_def)
  show "n_value (stabs m) \<le> a0" if "n_value (stabs m) < a"
    using assms(3) that by (auto intro: less_imp_le less_inc_imp_less_eq)
  show "a0 < n_value (stabs m)" if "a < n_value (stabs m)"
    using assms(3) that wrap inc_less_eq_iff [of a0 "n_value (stabs m)"] by auto
  show "a = a0" if "n_value (stabs m) = a"
    using assms that unfolding searchable_def by (metis (no_types, lifting) image_eqI)
qed

lemma binsearch_loop_found:
  assumes "searchable stabs type L R a0"
    and "a = a0 \<or> a = a0 + 1 \<and> a0 \<in> (\<lambda>i. n_value (stabs i)) ` set (of_type stabs type L R)"
    and "found stabs type L R a0 l r any rl"
  shows "\<exists>l' r' any' rl'. binsearch_loop stabs type l r a any rl r = (any', rl', r') \<and> r' < l' \<and>
     found stabs type L R a0 l' r' any' rl'"
  using assms(2,3)
proof (induction stabs' \<equiv> stabs type' \<equiv> type l r a any rl rr \<equiv> r rule: binsearch_loop.induct)
  case (1 l r a any rl)
  show ?case
  proof (cases "l \<le> r")
    case False
    then show ?thesis using 1(6) by (subst binsearch_loop.simps) (auto simp: not_le)
  next
    case lr: True
    define tm where "tm = (l + r) div 2"
    define m where "m = scan_type stabs type l tm"
    have tm: "l \<le> tm" "tm \<le> r" using lr by (simp_all add: tm_def)
    have sc: "m \<le> tm" "l \<le> m \<Longrightarrow> has_type type (stabs m)" "\<And>i. m < i \<Longrightarrow> i \<le> tm \<Longrightarrow> \<not> has_type type (stabs i)"
      using scan_type_spec [of l tm stabs type] tm by (simp_all add: m_def)
    note IH = 1(1-4) [OF lr tm_def m_def] and P = 1(5,6)
    have unfold: "binsearch_loop stabs type l r a any rl r =
       (if m < l then binsearch_loop stabs type (tm + 1) r a any rl r
        else if n_value (stabs m) < a then binsearch_loop stabs type (tm + 1) r a True m r
        else if n_value (stabs m) > a then binsearch_loop stabs type l (m - 1) a True rl (m - 1)
        else binsearch_loop stabs type m r (a + 1) True m r)"
      using lr by (subst binsearch_loop.simps) (simp add: Let_def tm_def m_def)
    have mT: "m \<in> set (of_type stabs type L R)" if "l \<le> m"
      using that sc(1,2) tm P(2) by (auto simp: set_of_type found_def)
    consider "m < l" | "l \<le> m" "n_value (stabs m) < a" | "l \<le> m" "n_value (stabs m) > a" | "l \<le> m" "n_value (stabs m) = a"
      by force
    then show ?thesis
    proof cases
      case 1
      then show ?thesis using IH(1) found_skip [OF P(2), of tm] sc(3) P(1) tm unfold by simp
    next
      case 2
      have "n_value (stabs m) \<le> a0" by (rule probe_compare(1) [OF assms(1) mT P(1)]) (use 2 in auto)
      then show ?thesis
        using IH(2) found_below(1) [OF P(2) 2(1) sc(1) tm(2) sc(2,3)] P(1) 2 unfold by simp
    next
      case 3
      have "a0 < n_value (stabs m)" by (rule probe_compare(2) [OF assms(1) mT P(1)]) (use 3 in auto)
      then show ?thesis
        using IH(3) found_above [OF assms(1) P(2) 3(1) _ sc(2)] P(1) sc(1) tm(2) 3 less_not_sym [OF 3(2)] unfold by simp
    next
      case 4
      have a: "a = a0" by (rule probe_compare(3) [OF assms(1) mT P(1)]) (use 4 in auto)
      then show ?thesis
        using IH(4) found_below(2) [OF P(2) 4(1) sc(1) tm(2) sc(2,3)] mT 4 unfold by force
    qed
  qed
qed

text \<open>The loop at the end finds nothing that the search has not found.\<close>

lemma scan_type_unique:
  assumes "l \<le> m + 1" and "\<And>i. l \<le> i \<Longrightarrow> i \<le> m \<Longrightarrow> \<not> has_type type (stabs i)"
  shows "scan_type stabs type l m = l - 1"
  using scan_type_spec(1-3) [OF assms(1), of stabs type] assms(2) by force

lemma scan_type_empty: "m < l \<Longrightarrow> scan_type stabs type l m = m"
  by (simp add: scan_type.simps)

lemma hd_last_filter:
  assumes "sorted_wrt (<) xs" and "x \<in> set xs" and "P x"
  shows "(\<And>y. y \<in> set xs \<Longrightarrow> P y \<Longrightarrow> x \<le> y) \<Longrightarrow> hd (filter P xs) = x"
    and "(\<And>y. y \<in> set xs \<Longrightarrow> P y \<Longrightarrow> y \<le> x) \<Longrightarrow> last (filter P xs) = (x :: 'a :: linorder)"
proof -
  let ?ys = "filter P xs"
  have ys: "sorted_wrt (<) ?ys" "x \<in> set ?ys" "?ys \<noteq> []" using assms by (auto simp: sorted_wrt_filter filter_empty_conv)
  show "hd ?ys = x" if "\<And>y. y \<in> set xs \<Longrightarrow> P y \<Longrightarrow> x \<le> y"
  proof -
    have "hd ?ys \<in> set ?ys" using ys(3) by (rule hd_in_set)
    moreover have "hd ?ys \<le> x" using ys by (cases ?ys) auto
    ultimately show ?thesis using that [of "hd ?ys"] by auto
  qed
  show "last ?ys = x" if "\<And>y. y \<in> set xs \<Longrightarrow> P y \<Longrightarrow> y \<le> x"
  proof -
    have "last ?ys \<in> set ?ys" using ys(3) by (rule last_in_set)
    moreover have "x \<le> last ?ys" using ys by (cases ?ys rule: rev_cases) (auto simp: sorted_wrt_append)
    ultimately show ?thesis using that [of "last ?ys"] by auto
  qed
qed


text \<open>The table of the comment in the source, as far as it is shown there.\<close>

definition so_stabs :: "int \<Rightarrow> Stab" where
  "so_stabs i =
     (case map_of [(0, 0xF0100000), (13, 0xF0100040), (117, 0xF0100176), (118, 0xF0100178),
                   (555, 0xF0100652), (556, 0xF0100654), (657, 0xF0100849)] i of
        Some v \<Rightarrow> \<lparr>n_strx = 0, n_type = 0x64, n_other = 0, n_desc = 0, n_value = v\<rparr>
      | None \<Rightarrow> \<lparr>n_strx = 0, n_type = 0, n_other = 0, n_desc = 0, n_value = 0\<rparr>)"


text \<open>
  After an exact match the loop looks for the next address and takes an entry with it for an
  exact match again: two entries at 10 and 11, search for 10, and the answer is the second.
\<close>

definition close_stabs :: "int \<Rightarrow> Stab" where
  "close_stabs i = \<lparr>n_strx = 0, n_type = 0x44, n_other = 0, n_desc = 0, n_value = (if i = 0 then 10 else 11)\<rparr>"

lemma stab_binsearch_next_address:
  "stab_binsearch close_stabs 0 1 N_SLINE 10 = (1, 1)"
  "stab_containing close_stabs 0 1 N_SLINE 10 = (0, 0)"
  by code_simp+

text \<open>
  When all entries of the type lie above the address, the result is not an empty range: for an
  entry at the very start of the table it is the index before the table.
\<close>

lemma stab_binsearch_before_table:
  "stab_binsearch close_stabs 0 1 N_SLINE 5 = (-1, -1)"
  by code_simp

end
