(* ===== verification/Kdebug.thy ===== *)
theory Kdebug
  imports Stabs Byte_Mem
begin

text \<open>
  Looking up source positions (\<open>debuginfo_eip\<close> of \<^verbatim>\<open>kern/kdebug.c\<close>) and the backtrace command of
  \<^verbatim>\<open>kern/monitor.c\<close>.  A name is the literal \<open><unknown>\<close> or a pointer into the string table.
\<close>

section \<open>Tables in memory\<close>

datatype dbg_name = Unknown | StrAt u32

record Eipdebuginfo =
  eip_file :: dbg_name
  eip_line :: int
  eip_fn_name :: dbg_name
  eip_fn_namelen :: u32
  eip_fn_addr :: u32
  eip_fn_narg :: int

record UserStabData =
  usd_stabs :: u32
  usd_stab_end :: u32
  usd_stabstr :: u32
  usd_stabstr_end :: u32

text \<open>\<open>stabs[i]\<close>, 12 bytes wide.\<close>

definition stab_at :: "mem \<Rightarrow> u32 \<Rightarrow> int \<Rightarrow> Stab" where
  "stab_at m base i =
     (let a = base + 12 * of_int i in
      \<lparr>n_strx = get32 m a, n_type = m (a + 4), n_other = m (a + 5), n_desc = get16 m (a + 6), n_value = get32 m (a + 8)\<rparr>)"

text \<open>
  \<open>stab_end - stabs\<close>: the difference of the pointers in units of 12 bytes.  C defines it for
  multiples of 12 only.
\<close>

definition stab_count :: "UserStabData \<Rightarrow> int" where
  "stab_count usd = sint (usd_stab_end usd - usd_stabs usd) div 12"

section \<open>Lookup\<close>

definition unknown_info :: "u32 \<Rightarrow> Eipdebuginfo" where
  "unknown_info addr =
     \<lparr>eip_file = Unknown, eip_line = 0, eip_fn_name = Unknown, eip_fn_namelen = 9, eip_fn_addr = addr, eip_fn_narg = 0\<rparr>"

text \<open>The loop that searches backwards for the name of the file.\<close>

function file_scan :: "(int \<Rightarrow> Stab) \<Rightarrow> int \<Rightarrow> int \<Rightarrow> int" where
  "file_scan stabs lfile lline =
     (if lfile \<le> lline \<and> \<not> has_type N_SOL (stabs lline) \<and> (\<not> has_type N_SO (stabs lline) \<or> n_value (stabs lline) = 0)
      then file_scan stabs lfile (lline - 1) else lline)"
  by pat_completeness auto
termination
  by (relation "measure (\<lambda>(stabs, lfile, lline). nat (lline - lfile + 1))") auto

declare file_scan.simps [simp del]

text \<open>The loop that counts parameters.\<close>

function count_args :: "(int \<Rightarrow> Stab) \<Rightarrow> int \<Rightarrow> int \<Rightarrow> int \<Rightarrow> int" where
  "count_args stabs rfun lline narg =
     (if lline < rfun \<and> has_type N_PSYM (stabs lline) then count_args stabs rfun (lline + 1) (narg + 1) else narg)"
  by pat_completeness auto
termination
  by (relation "measure (\<lambda>(stabs, rfun, lline, narg). nat (rfun - lline))") auto

declare count_args.simps [simp del]

text \<open>\<open>strfind(name, ':') - name\<close>; the literal has no colon.\<close>

definition name_len :: "mem \<Rightarrow> dbg_name \<Rightarrow> u32 option" where
  "name_len m name =
     (case name of Unknown \<Rightarrow> Some 9 | StrAt p \<Rightarrow> map_option (\<lambda>q. q - p) (strfind m p 0x3A))"

text \<open>
  From the validity check of the string table on.  \<open>None\<close> is a search for a colon that does not
  end; the result is the returned value and \<open>*info\<close>.
\<close>

definition find_line ::
  "(int \<Rightarrow> Stab) \<Rightarrow> UserStabData \<Rightarrow> int \<Rightarrow> int \<Rightarrow> int \<Rightarrow> int \<Rightarrow> int \<Rightarrow> int \<Rightarrow> u32 \<Rightarrow> Eipdebuginfo \<Rightarrow> int \<times> Eipdebuginfo" where
  "find_line stabs usd lfile rfile lfun rfun lline rline addr info =
     (let (olline, orline) = stab_binsearch stabs lline rline N_SOL
            ((if \<not> (lline = lfile \<and> rline = rfile) then 1 else 0) * addr + eip_fn_addr info);
          (lline, rline) = (if orline < olline then stab_binsearch stabs lline rline N_SLINE addr else (lline, rline))
      in if orline < olline \<and> rline < lline then (-1, info)
         else
           let info = info\<lparr>eip_line := uint (n_desc (stabs lline))\<rparr>;
               lline = file_scan stabs lfile lline;
               info = (if lfile \<le> lline \<and> n_strx (stabs lline) < usd_stabstr_end usd - usd_stabstr usd
                       then info\<lparr>eip_file := StrAt (usd_stabstr usd + n_strx (stabs lline))\<rparr> else info);
               info = (if lfun < rfun then info\<lparr>eip_fn_narg := count_args stabs rfun (lfun + 1) (eip_fn_narg info)\<rparr> else info)
           in (0, info))"

definition debuginfo_lookup :: "mem \<Rightarrow> UserStabData \<Rightarrow> u32 \<Rightarrow> Eipdebuginfo \<Rightarrow> (int \<times> Eipdebuginfo) option" where
  "debuginfo_lookup m usd addr info =
     (if usd_stabstr_end usd \<le> usd_stabstr usd \<or> m (usd_stabstr_end usd - 1) \<noteq> 0 then Some (-1, info)
      else
        let stabs = stab_at m (usd_stabs usd);
            (lfile, rfile) = stab_binsearch stabs 0 (stab_count usd - 1) N_SO addr
        in if lfile = 0 then Some (-1, info)
           else
             let (lfun, rfun) = stab_binsearch stabs lfile rfile N_FUN addr;
                 found_fun = (lfun \<le> rfun);
                 info = (if found_fun \<and> n_strx (stabs lfun) < usd_stabstr_end usd - usd_stabstr usd
                         then info\<lparr>eip_fn_name := StrAt (usd_stabstr usd + n_strx (stabs lfun))\<rparr> else info);
                 info = info\<lparr>eip_fn_addr := (if found_fun then n_value (stabs lfun) else addr)\<rparr>;
                 addr = (if found_fun then addr - eip_fn_addr info else addr);
                 (lline, rline) = (if found_fun then (lfun, rfun) else (lfile, rfile))
             in map_option (\<lambda>len. find_line stabs usd lfile rfile lfun rfun lline rline addr (info\<lparr>eip_fn_namelen := len\<rparr>))
                  (name_len m (eip_fn_name info)))"

text \<open>
  The kernel's view of virtual memory: its own image through the mapping at \<open>KERNBASE\<close>, everything
  else through the page tables.  \<open>ktab\<close> are the linker's symbols for the kernel's own tables.
\<close>

definition vmem :: "kstate \<Rightarrow> mem" where
  "vmem s a = (if KERNBASE \<le> a then kget8 s a else pget8 s (vpa s a))"

definition debuginfo_eip ::
  "UserStabData \<Rightarrow> u32 \<Rightarrow> kstate \<Rightarrow> ((int \<times> Eipdebuginfo) option, kstate) outcome" where
  "debuginfo_eip ktab addr s =
     (let info = unknown_info addr; fail = Ret (Some (-1, info)) in
      if ULIM \<le> addr then Ret (debuginfo_lookup (vmem s) ktab addr info) s
      else with_env (curenv s) (\<lambda>c s.
        kbind (user_mem_check c USTABDATA 16 (PTE_U OR PTE_P) s) (\<lambda>r s. case r of Inl _ \<Rightarrow> fail s | Inr _ \<Rightarrow>
          let usd = \<lparr>usd_stabs = get32 (vmem s) USTABDATA, usd_stab_end = get32 (vmem s) (USTABDATA + 4),
                usd_stabstr = get32 (vmem s) (USTABDATA + 8), usd_stabstr_end = get32 (vmem s) (USTABDATA + 12)\<rparr> in
          kbind (user_mem_check c (usd_stabs usd) (of_int (stab_count usd) * 12) (PTE_U OR PTE_P) s) (\<lambda>r s. case r of Inl _ \<Rightarrow> fail s | Inr _ \<Rightarrow>
          kbind (user_mem_check c (usd_stabstr usd) (usd_stabstr_end usd - usd_stabstr usd) (PTE_U OR PTE_P) s) (\<lambda>r s. case r of
              Inl _ \<Rightarrow> fail s
            | Inr _ \<Rightarrow> Ret (debuginfo_lookup (vmem s) usd addr info) s)))) s)"

section \<open>Backtrace\<close>

text \<open>The bytes of a string for \<open>cprintf\<close>.\<close>

definition name_bytes :: "mem \<Rightarrow> dbg_name \<Rightarrow> u8 list option" where
  "name_bytes m name =
     (case name of
        Unknown \<Rightarrow> Some (bytes ''<unknown>'')
      | StrAt p \<Rightarrow> map_option (\<lambda>n. map (\<lambda>i. m (p + of_nat i)) [0..<unat n]) (strlen m p))"

definition print_frame :: "u32 \<Rightarrow> u32 \<Rightarrow> int \<Rightarrow> Eipdebuginfo \<Rightarrow> kstate \<Rightarrow> kstate option" where
  "print_frame bp eip ret info s =
     (case (name_bytes (vmem s) (eip_file info), name_bytes (vmem s) (eip_fn_name info)) of
        (Some file, Some name) \<Rightarrow>
          let s = kprintf (''ret: %d '' @ newline) [VInt (of_int ret)] s;
              s = kprintf (CHR 0x09 # ''%s:%d'') [VStr (Some file), VInt (of_int (eip_line info))] s
          in Some (kprintf ('': %.*s+%d'' @ newline) [VInt (eip_fn_namelen info), VStr (Some name), VInt (eip - eip_fn_addr info)] s)
      | _ \<Rightarrow> None)"

partial_function (option) backtrace_loop :: "UserStabData \<Rightarrow> u32 \<Rightarrow> kstate \<Rightarrow> (int, kstate) outcome option" where
  "backtrace_loop ktab bp s =
     (if bp = 0 then Some (Ret 0 s)
      else
        let eip = kstack s (bp + 4);
            s = kprintf (''ebp %08x eip %08x args %08x %08x %08x %08x %08x'' @ newline)
              [VInt bp, VInt eip, VInt (kstack s (bp + 8)), VInt (kstack s (bp + 12)), VInt (kstack s (bp + 16)),
               VInt (kstack s (bp + 20)), VInt (kstack s (bp + 24))] s
        in case debuginfo_eip ktab eip s of
             Panic msg t \<Rightarrow> Some (Panic msg t)
           | Leave l t \<Rightarrow> Some (Leave l t)
           | Ret r t \<Rightarrow> Option.bind r (\<lambda>(ret, info). Option.bind (print_frame bp eip ret info t) (\<lambda>t.
               backtrace_loop ktab (kstack t bp) t)))"

definition mon_backtrace :: "UserStabData \<Rightarrow> kstate \<Rightarrow> (int, kstate) outcome option" where
  "mon_backtrace ktab s = backtrace_loop ktab (ebp s) (kprintf (''Stack backtrace:'' @ newline) [] s)"

section \<open>The lookup always ends inside the string table\<close>

lemma strfind_bounded:
  assumes "p \<le> e" and "m e = 0"
  shows "\<exists>q. strfind m p c = Some q \<and> p \<le> q \<and> q \<le> e"
  using assms(1)
proof (induction "unat e - unat p" arbitrary: p rule: less_induct)
  case less
  show ?case
  proof (cases "m p = 0 \<or> m p = c")
    case True
    then show ?thesis using less.prems by (subst strfind.simps) auto
  next
    case False
    then have "p \<noteq> e" using assms(2) by auto
    then have lt: "p < e" using less.prems by simp
    moreover have "unat e < 2 ^ 32" using unsigned_less [of e] by simp
    ultimately have u: "unat (p + 1) = Suc (unat p)" by (simp add: word_less_nat_alt unat_word_ariths)
    then have "p + 1 \<le> e" "p \<le> p + 1" using lt by (simp_all add: word_less_nat_alt word_le_nat_alt)
    moreover have "unat e - unat (p + 1) < unat e - unat p" using u lt by (simp add: word_less_nat_alt)
    ultimately obtain q where "strfind m (p + 1) c = Some q" "p + 1 \<le> q" "q \<le> e" using less.hyps by blast
    then show ?thesis using False \<open>p \<le> p + 1\<close> by (subst strfind.simps) auto
  qed
qed

text \<open>A pointer into the string table, and the length of the name it starts.\<close>

definition in_strtab :: "UserStabData \<Rightarrow> dbg_name \<Rightarrow> u32 \<Rightarrow> bool" where
  "in_strtab usd name len =
     (case name of
        Unknown \<Rightarrow> len \<le> 9
      | StrAt p \<Rightarrow> usd_stabstr usd \<le> p \<and> unat p + unat len < unat (usd_stabstr_end usd))"

lemma strtab_pointer:
  assumes "usd_stabstr usd < usd_stabstr_end usd" and "x < usd_stabstr_end usd - usd_stabstr usd"
  shows "usd_stabstr usd \<le> usd_stabstr usd + x" and "usd_stabstr usd + x < usd_stabstr_end usd"
proof -
  let ?b = "usd_stabstr usd" and ?e = "usd_stabstr_end usd"
  have "unat x < unat ?e - unat ?b" using assms by (simp add: word_less_nat_alt unat_sub_word)
  moreover have "unat ?e < 2 ^ 32" using unsigned_less [of ?e] by simp
  ultimately have "unat (?b + x) = unat ?b + unat x" "unat ?b + unat x < unat ?e" by (simp_all add: unat_word_ariths)
  then show "?b \<le> ?b + x" "?b + x < ?e" by (simp_all add: word_le_nat_alt word_less_nat_alt)
qed

lemma name_len_bounded:
  assumes "usd_stabstr usd < usd_stabstr_end usd" and "m (usd_stabstr_end usd - 1) = 0"
    and "name = Unknown \<or> (\<exists>x < usd_stabstr_end usd - usd_stabstr usd. name = StrAt (usd_stabstr usd + x))"
  shows "\<exists>len. name_len m name = Some len \<and> in_strtab usd name len"
  using assms(3)
proof (elim disjE exE conjE)
  fix x assume x: "x < usd_stabstr_end usd - usd_stabstr usd" and n: "name = StrAt (usd_stabstr usd + x)"
  let ?p = "usd_stabstr usd + x" and ?e = "usd_stabstr_end usd"
  note ptr = strtab_pointer [OF assms(1) x]
  have e: "unat (?e - 1) = unat ?e - 1" using ptr(2) by (auto simp: unat_minus_1)
  have "?p \<le> ?e - 1" using ptr(2) by (simp add: word_le_nat_alt word_less_nat_alt e)
  then obtain q where q: "strfind m ?p 0x3A = Some q" "?p \<le> q" "q \<le> ?e - 1" using strfind_bounded assms(2) by blast
  have "unat (q - ?p) = unat q - unat ?p" using q(2) by (simp add: unat_sub_word word_le_nat_alt)
  then have "unat ?p + unat (q - ?p) < unat ?e" using q(2,3) ptr(2) by (simp add: word_le_nat_alt word_less_nat_alt e)
  then show ?thesis using q(1) ptr(1) by (simp add: n name_len_def in_strtab_def)
qed (simp add: name_len_def in_strtab_def)

lemma find_line_names:
  assumes "usd_stabstr usd < usd_stabstr_end usd" and "in_strtab usd (eip_file info) 0"
    and "find_line stabs usd lfile rfile lfun rfun lline rline addr info = (r, info')"
  shows "r \<in> {0, -1} \<and> in_strtab usd (eip_file info') 0 \<and>
     eip_fn_name info' = eip_fn_name info \<and> eip_fn_namelen info' = eip_fn_namelen info"
  using assms(2,3) strtab_pointer [OF assms(1)]
  by (auto simp: find_line_def Let_def in_strtab_def word_less_nat_alt split: prod.splits if_splits)


end
