(* ===== verification/Entry_Pgdir.thy ===== *)
theory Entry_Pgdir
  imports User_Access
begin

text \<open>
  The page tables of \<^verbatim>\<open>kern/entrypgdir.c\<close>, with which the kernel runs until \<open>mem_init\<close> has built its
  own: the first 4 MB of physical memory appear at address 0 and at \<open>KERNBASE\<close>.
\<close>

definition entry_pgtable :: "u32 list" where
  "entry_pgtable = map (\<lambda>i. (of_nat i * 0x1000) OR PTE_P OR PTE_W) [0..<1024]"

text \<open>\<open>at\<close> is the address of \<open>entry_pgtable\<close>; entries without initialiser are 0.\<close>

definition entry_pgdir :: "u32 \<Rightarrow> u32 list" where
  "entry_pgdir at =
     (replicate 1024 0)[0 := (at - KERNBASE) + PTE_P, unat (drop_bit 22 KERNBASE) := (at - KERNBASE) + PTE_P + PTE_W]"

text \<open>The processor uses these tables: they are in memory and \<open>cr3\<close> holds the directory's address.\<close>

definition entry_paging :: "u32 \<Rightarrow> u32 \<Rightarrow> kstate \<Rightarrow> bool" where
  "entry_paging dir_at table_at s \<longleftrightarrow>
     PGOFF dir_at = 0 \<and> PGOFF table_at = 0 \<and> cr3 s = dir_at - KERNBASE \<and>
     (\<forall>i < 1024. phys s (dir_at - KERNBASE + 4 * of_nat i) = entry_pgdir table_at ! i) \<and>
     (\<forall>i < 1024. phys s (table_at - KERNBASE + 4 * of_nat i) = entry_pgtable ! i)"

lemma PTE_W_exp: "PTE_W = 2 ^ 1"
  by (simp add: jos_consts)

lemma aligned_plus_flags:
  assumes "PGOFF t = 0"
  shows "t + PTE_P = t OR PTE_P" and "t + PTE_P + PTE_W = t OR PTE_P OR PTE_W"
    and "PTE_ADDR (t OR PTE_P) = t" and "PTE_ADDR (t OR PTE_P OR PTE_W) = t"
    and "\<not> flag (t OR PTE_P) PTE_W"
proof -
  have t: "t = push_bit 12 (PGNUM t)"
  proof -
    have "unat t mod 4096 = 0" using assms by (simp add: unat_PGOFF [symmetric])
    then have "unat (PTE_ADDR t) = unat t" using div_mult_mod_eq [of "unat t" 4096] by (simp add: unat_PTE_ADDR)
    then show ?thesis by (simp add: word_unat_eq_iff PTE_ADDR_PGNUM)
  qed
  have low: "push_bit 12 p AND PTE_P = 0" "push_bit 12 p AND 3 = (0::u32)" for p :: u32
  proof -
    have m: "PTE_P = mask 1" "(3::u32) = mask 2" by (simp_all add: mask_eq_decr_exp jos_consts)
    show "push_bit 12 p AND PTE_P = 0" "push_bit 12 p AND 3 = (0::u32)"
      unfolding m by (rule bit_word_eqI, simp add: bit_simps)+
  qed
  have "t + PTE_P + PTE_W = t + 3" by (simp add: jos_consts)
  also have "\<dots> = t OR 3" using low(2) t by (metis disjunctive_add_eq_or)
  finally show "t + PTE_P + PTE_W = t OR PTE_P OR PTE_W" by (simp add: jos_consts or.assoc)
  show "t + PTE_P = t OR PTE_P" using low(1) t by (metis disjunctive_add_eq_or)
  show "PTE_ADDR (t OR PTE_P) = t" "PTE_ADDR (t OR PTE_P OR PTE_W) = t"
    using t by (simp_all add: PTE_ADDR_PGNUM)
  have "\<not> bit (push_bit 12 (PGNUM t)) 1" by (simp add: bit_simps)
  then have "\<not> flag t PTE_W" using t flag_bit [of t 1] by (metis PTE_W_exp)
  then show "\<not> flag (t OR PTE_P) PTE_W" by simp (simp add: flag_def jos_consts)
qed

lemma kern_aligned:
  assumes "PGOFF x = 0"
  shows "PGOFF (x - KERNBASE) = 0"
proof -
  have "unat (x - KERNBASE) mod 4096 = (unat x + 268435456) mod 4294967296 mod 4096"
  proof -
    have "x - KERNBASE = x + 0x10000000" by (simp add: KERNBASE_def)
    then show ?thesis by (simp only: unat_word_ariths) simp
  qed
  also have "\<dots> = (unat x + 268435456) mod 4096" by (simp add: mod_mod_cancel)
  also have "\<dots> = unat x mod 4096" using mod_mult_self1 [of "unat x" 65536 4096] by simp
  finally show ?thesis using assms by (simp add: word_unat_eq_iff unat_PGOFF)
qed

lemma entry_translation:
  assumes "entry_paging dir_at table_at s"
  shows "hw_pde s va = (if PDX va = 0 then (table_at - KERNBASE) OR PTE_P
       else if PDX va = PDX KERNBASE then (table_at - KERNBASE) OR PTE_P OR PTE_W else 0)"
    and "PDX va = 0 \<or> PDX va = PDX KERNBASE \<Longrightarrow> hw_pte s va = push_bit 12 (PTX va) OR PTE_P OR PTE_W"
proof -
  note off = kern_aligned
  have al: "PGOFF dir_at = 0" "PGOFF table_at = 0" using assms by (simp_all add: entry_paging_def)
  note fl = aligned_plus_flags [OF off [OF al(2)]]
  have cr: "PTE_ADDR (cr3 s) = dir_at - KERNBASE"
    using assms aligned_plus_flags(3) [OF off [OF al(1)]] by (simp add: entry_paging_def PTE_ADDR_PGNUM)
  have word: "4 * of_nat (unat x) = 4 * x" for x :: u32 by simp
  have "hw_pde s va = entry_pgdir table_at ! unat (PDX va)"
    using assms cr PDX_less [of va] word [of "PDX va"] unfolding entry_paging_def hw_pde_def by metis
  moreover have "unat (PDX KERNBASE) = 960" "unat (drop_bit 22 KERNBASE) = 960" by (simp_all add: PDX_def jos_consts)
  ultimately show pd: "hw_pde s va = (if PDX va = 0 then (table_at - KERNBASE) OR PTE_P
       else if PDX va = PDX KERNBASE then (table_at - KERNBASE) OR PTE_P OR PTE_W else 0)"
    using PDX_less [of va] unfolding entry_pgdir_def fl(2) unfolding fl(1) by (auto simp: nth_list_update word_unat_eq_iff [of "PDX va"])
  show "hw_pte s va = push_bit 12 (PTX va) OR PTE_P OR PTE_W" if "PDX va = 0 \<or> PDX va = PDX KERNBASE"
  proof -
    have "PTE_ADDR (hw_pde s va) = table_at - KERNBASE" using that pd fl by auto
    then have "hw_pte s va = entry_pgtable ! unat (PTX va)"
      using assms PTX_less [of va] word [of "PTX va"] unfolding entry_paging_def hw_pte_def by metis
    then show ?thesis using PTX_less [of va] by (simp add: entry_pgtable_def push_bit_eq_mult mult.commute)
  qed
qed

lemma entry_regions:
  "PDX va = 0 \<longleftrightarrow> va < 0x400000"
  "PDX va = PDX KERNBASE \<longleftrightarrow> KERNBASE \<le> va \<and> va < KERNBASE + 0x400000"
proof -
  have "unat va < 4294967296" using unsigned_less [of va, where ?'a = nat] by simp
  then have "unat (PDX va) = unat va div 4194304" by (simp add: unat_PDX)
  then show "PDX va = 0 \<longleftrightarrow> va < 0x400000"
    and "PDX va = PDX KERNBASE \<longleftrightarrow> KERNBASE \<le> va \<and> va < KERNBASE + 0x400000"
    by (auto simp: word_unat_eq_iff word_less_nat_alt word_le_nat_alt unat_PDX jos_consts)
qed

lemma entry_offset:
  "PDX va = 0 \<Longrightarrow> push_bit 12 (PTX va) OR PGOFF va = va"
  "PDX va = PDX KERNBASE \<Longrightarrow> push_bit 12 (PTX va) OR PGOFF va = va - KERNBASE"
proof -
  let ?x = "push_bit 12 (PTX va) OR PGOFF va"
  have va: "push_bit 22 (PDX va) OR ?x = va" using PGADDR_decompose [of va] by (simp add: PGADDR_def or.assoc)
  then show "?x = va" if "PDX va = 0" using that by simp
  have m: "(0xFFF::u32) = mask 12" "(0x3FF::u32) = mask 10" by (simp_all add: mask_eq_decr_exp)
  have "push_bit 22 d AND ?x = 0" for d
    unfolding PTX_def PGOFF_def m by (rule bit_word_eqI) (auto simp: bit_simps)
  then have "push_bit 22 (PDX va) + ?x = va" using va disjunctive_add_eq_or [of "push_bit 22 (PDX va)" ?x] by simp
  moreover have "push_bit 22 (PDX KERNBASE) = KERNBASE" by (simp add: PDX_def jos_consts)
  ultimately show "?x = va - KERNBASE" if "PDX va = PDX KERNBASE" using that by (metis add_diff_cancel_left')
qed

text \<open>
  C40: with the tables of \<open>entry_pgdir\<close> the first 4 MB of physical memory are readable at address 0
  and readable and writable at \<open>KERNBASE\<close>; every other access faults.
\<close>

theorem entry_pgdir_maps:
  assumes "entry_paging dir_at table_at s"
  shows "vread8 va s = (if va < 0x400000 then Ret (pget8 s va) s
       else if KERNBASE \<le> va \<and> va < KERNBASE + 0x400000 then Ret (pget8 s (va - KERNBASE)) s else kernel_fault s) \<and>
     vwrite8 va b s = (if KERNBASE \<le> va \<and> va < KERNBASE + 0x400000 then Ret () (pput8 (va - KERNBASE) b s)
       else kernel_fault s)"
proof -
  have ne: "PDX KERNBASE \<noteq> 0" by (simp add: PDX_def jos_consts)
  have pte: "PTE_ADDR (push_bit 12 (PTX va) OR PTE_P OR PTE_W) = push_bit 12 (PTX va)"
    using PTX_less [of va] by (simp add: PTE_ADDR_PGNUM PGNUM_push12)
  have noW: "\<not> flag (table_at - KERNBASE OR PTE_P) PTE_W"
    using aligned_plus_flags(5) [OF kern_aligned] assms unfolding entry_paging_def by blast
  note tr = entry_translation [OF assms, of va]
  have "vread8 va s = (if va < 0x400000 then Ret (pget8 s va) s
       else if KERNBASE \<le> va \<and> va < KERNBASE + 0x400000 then Ret (pget8 s (va - KERNBASE)) s else kernel_fault s)"
    unfolding entry_regions [symmetric] using tr entry_offset [of va] ne pte by (auto simp: vread8_def vpa_def)
  moreover have "vwrite8 va b s = (if KERNBASE \<le> va \<and> va < KERNBASE + 0x400000 then Ret () (pput8 (va - KERNBASE) b s)
       else kernel_fault s)"
    unfolding entry_regions [symmetric] using tr entry_offset [of va] ne pte noW by (auto simp: vwrite8_def vpa_def)
  ultimately show ?thesis ..
qed

definition entry_demo :: kstate where
  "entry_demo = bss_state\<lparr>cr3 := 0x1000,
     phys := (\<lambda>a. if a < 0x1000 then 0xCAFE
       else if a < 0x2000 then entry_pgdir 0xF0002000 ! (unat (a - 0x1000) div 4)
       else if a < 0x3000 then entry_pgtable ! (unat (a - 0x2000) div 4) else 0)\<rparr>"

theorem entry_pgdir_maps_witness:
  "vread8 0xF0000010 entry_demo = Ret 0xFE entry_demo \<and> vread8 0x10 entry_demo = Ret 0xFE entry_demo \<and>
   vread8 0x400000 entry_demo = kernel_fault entry_demo"
proof -
  have u: "unat (c + 4 * of_nat i :: u32) = unat c + 4 * i" if "i < 1024" "unat c \<le> 0x2000" for c i
    using that by (simp add: unat_word_ariths unsigned_of_nat take_bit_nat_eq_self)
  have u0: "unat (4 * of_nat i :: u32) = 4 * i" if "i < 1024" for i using u [of i 0] that by simp
  have "entry_paging 0xF0001000 0xF0002000 entry_demo"
    using u [where c = "0x1000"] u [where c = "0x2000"] u0
    by (auto simp: entry_paging_def entry_demo_def PGOFF_def KERNBASE_def word_less_nat_alt)
  note maps = entry_pgdir_maps [OF this]
  have "pget8 entry_demo 0x10 = 0xFE" by (simp add: pget8_def entry_demo_def)
  then show ?thesis using maps [of "0xF0000010"] maps [of "0x10"] maps [of "0x400000"] by (simp add: KERNBASE_def)
qed

end
