(* ===== verification/Boot_Loader.thy ===== *)
theory Boot_Loader
  imports Byte_Mem Env_Ops
begin

text \<open>
  The boot loader (\<^verbatim>\<open>boot/main.c\<close>): reading sectors from the first IDE disk, reading a range of the
  kernel image, and loading the program segments of the kernel.  Paging is off; memory is a byte
  memory.  The disk is a function from sector numbers to their 512 bytes; waiting for it to be
  ready has no effect on the state.
\<close>

section \<open>Sectors\<close>

text \<open>\<open>bports\<close> holds the last value written to each port.\<close>

record bstate =
  bmem :: mem
  bports :: "u16 \<Rightarrow> u16"

type_synonym disk = "u32 \<Rightarrow> nat \<Rightarrow> u8"

definition SECTSIZE :: u32 where [jos_consts]: "SECTSIZE = 512"
definition ELFHDR :: u32 where [jos_consts]: "ELFHDR = 0x10000"

definition boutb :: "u16 \<Rightarrow> u8 \<Rightarrow> bstate \<Rightarrow> bstate" where
  "boutb port v st = st\<lparr>bports := (bports st)(port := ucast v)\<rparr>"

definition boutw :: "u16 \<Rightarrow> u16 \<Rightarrow> bstate \<Rightarrow> bstate" where
  "boutw port v st = st\<lparr>bports := (bports st)(port := v)\<rparr>"

text \<open>The sector that the controller's registers select (28-bit block addresses).\<close>

definition lba :: "bstate \<Rightarrow> u32" where
  "lba st = ucast (bports st 0x1F3) OR push_bit 8 (ucast (bports st 0x1F4)) OR
     push_bit 16 (ucast (bports st 0x1F5)) OR push_bit 24 (ucast (bports st 0x1F6) AND 0xF)"

text \<open>\<open>rep insl\<close>: \<open>n\<close> words from the data port to ascending addresses.\<close>

definition insl :: "disk \<Rightarrow> u32 \<Rightarrow> nat \<Rightarrow> bstate \<Rightarrow> bstate" where
  "insl disk dst n st = st\<lparr>bmem := fold (\<lambda>i m. m(dst + of_nat i := disk (lba st) i)) [0..<4 * n] (bmem st)\<rparr>"

definition readsect :: "disk \<Rightarrow> u32 \<Rightarrow> u32 \<Rightarrow> bstate \<Rightarrow> bstate" where
  "readsect disk dst offset st =
     (let st = boutb 0x1F2 1 st;
          st = boutb 0x1F3 (ucast offset) st;
          st = boutb 0x1F4 (ucast (drop_bit 8 offset)) st;
          st = boutb 0x1F5 (ucast (drop_bit 16 offset)) st;
          st = boutb 0x1F6 (ucast (drop_bit 24 offset OR 0xE0)) st;
          st = boutb 0x1F7 0x20 st
      in insl disk dst (unat (SECTSIZE div 4)) st)"

section \<open>Segments\<close>

partial_function (option) readseg_loop :: "disk \<Rightarrow> u32 \<Rightarrow> u32 \<Rightarrow> u32 \<Rightarrow> bstate \<Rightarrow> bstate option" where
  "readseg_loop disk pa end_pa offset st =
     (if pa < end_pa then readseg_loop disk (pa + SECTSIZE) end_pa (offset + 1) (readsect disk pa offset st)
      else Some st)"

definition readseg :: "disk \<Rightarrow> u32 \<Rightarrow> u32 \<Rightarrow> u32 \<Rightarrow> bstate \<Rightarrow> bstate option" where
  "readseg disk pa count offset st =
     readseg_loop disk (pa AND NOT (SECTSIZE - 1)) (pa + count) (offset div SECTSIZE + 1) st"

text \<open>
  One program header at \<open>ph\<close>: \<open>p_offset\<close> at 4, \<open>p_pa\<close> at 12, \<open>p_filesz\<close> at 16, \<open>p_memsz\<close> at 20.  The loop
  that clears the rest of the segment reads the header again in every iteration.
\<close>

partial_function (option) clear_loop :: "u32 \<Rightarrow> u32 \<Rightarrow> mem \<Rightarrow> mem option" where
  "clear_loop ph i m =
     (if i < get32 m (ph + 20) - get32 m (ph + 16)
      then clear_loop ph (i + 1) (m(get32 m (ph + 12) + get32 m (ph + 16) + i := 0)) else Some m)"

definition boot_segment :: "disk \<Rightarrow> u32 \<Rightarrow> bstate \<Rightarrow> bstate option" where
  "boot_segment disk ph st =
     Option.bind (readseg disk (get32 (bmem st) (ph + 12)) (get32 (bmem st) (ph + 20)) (get32 (bmem st) (ph + 4)) st)
       (\<lambda>st. map_option (\<lambda>m. st\<lparr>bmem := m\<rparr>) (clear_loop ph 0 (bmem st)))"

fun boot_segments :: "disk \<Rightarrow> u32 list \<Rightarrow> bstate \<Rightarrow> bstate option" where
  "boot_segments disk [] st = Some st"
| "boot_segments disk (ph # phs) st = Option.bind (boot_segment disk ph st) (boot_segments disk phs)"

datatype boot_end =
    Entered u32 bstate  \<comment> \<open>the jump to the entry point of the kernel\<close>
  | BadImage bstate     \<comment> \<open>the endless loop at \<open>bad\<close>\<close>

definition bootmain :: "disk \<Rightarrow> bstate \<Rightarrow> boot_end option" where
  "bootmain disk st =
     Option.bind (readseg disk ELFHDR (SECTSIZE * 8) 0 st) (\<lambda>st.
       if get32 (bmem st) ELFHDR \<noteq> ELF_MAGIC then
         Some (BadImage (boutw 0x8A00 0x8E00 (boutw 0x8A00 0x8A00 st)))
       else
         let ph = ELFHDR + get32 (bmem st) (ELFHDR + 28); phnum = unat (get16 (bmem st) (ELFHDR + 44));
             eph = ph + 32 * of_nat phnum
         in Option.bind (boot_segments disk (if ph < eph then map (\<lambda>k. ph + 32 * of_nat k) [0..<phnum] else []) st)
              (\<lambda>st. Some (Entered (get32 (bmem st) (ELFHDR + 24)) st)))"

section \<open>What a sector read does\<close>

lemma unat_diff_less:
  fixes a b :: u32
  assumes "n \<le> 2 ^ 32 - unat b"
  shows "unat (a - b) < n \<longleftrightarrow> unat b \<le> unat a \<and> unat a < unat b + n"
proof -
  have "unat a < 2 ^ 32" using unsigned_less [of a] by simp
  then show ?thesis using assms by (auto simp: unat_sub_word)
qed

lemma fold_writes:
  fixes dst :: u32
  assumes "n \<le> 2 ^ 32"
  shows "fold (\<lambda>i m. m(dst + of_nat i := f i)) [0..<n] m = (\<lambda>a. if unat (a - dst) < n then f (unat (a - dst)) else m a)"
    (is "?lhs n = ?rhs n")
  using assms
proof (induction n)
  case (Suc n)
  have "unat (of_nat n :: u32) = n" using Suc.prems by (simp add: unsigned_of_nat take_bit_nat_eq_self)
  then have "a = dst + of_nat n \<longleftrightarrow> unat (a - dst) = n" for a :: u32
    by (metis add_diff_cancel_left' diff_add_cancel add.commute word_unat_eq_iff)
  then show ?case using Suc by (auto simp: fun_eq_iff less_Suc_eq)
qed simp

lemma lba_registers:
  assumes "unat offset < 2 ^ 28"
  shows "ucast (ucast (ucast offset :: u8) :: u16) OR push_bit 8 (ucast (ucast (ucast (drop_bit 8 offset) :: u8) :: u16)) OR
     push_bit 16 (ucast (ucast (ucast (drop_bit 16 offset) :: u8) :: u16)) OR
     push_bit 24 (ucast (ucast (ucast (drop_bit 24 offset OR 0xE0) :: u8) :: u16) AND 0xF) = (offset :: u32)"
    (is "?regs = _")
proof (rule bit_word_eqI)
  fix n assume "n < LENGTH(32)"
  have small: "\<not> bit offset n" if "28 \<le> n"
  proof -
    have "take_bit 28 offset = offset" using assms by (simp add: word_unat_eq_iff unsigned_take_bit_eq take_bit_nat_eq_self)
    then show ?thesis using that by (metis bit_take_bit_iff not_le)
  qed
  have m: "(0xF :: u32) = mask 4" "(0xE0 :: u32) = push_bit 5 (mask 3)" by (simp_all add: mask_eq_decr_exp push_bit_eq_mult)
  show "bit ?regs n = bit offset n"
    unfolding m using small by (cases "n < 8"; cases "n < 16"; cases "n < 24"; cases "n < 28") (auto simp: bit_simps)
qed

lemma bmem_boutb [simp]: "bmem (boutb p v st) = bmem st"
  by (simp add: boutb_def)

definition on_disk :: "disk \<Rightarrow> nat \<Rightarrow> u8" where
  "on_disk disk i = disk (of_nat (i div 512 + 1)) (i mod 512)"

lemma readsect_mem:
  assumes "unat offset < 2 ^ 28"
  shows "bmem (readsect disk dst offset st) = (\<lambda>a. if unat (a - dst) < 512 then disk offset (unat (a - dst)) else bmem st a)"
proof -
  have *: "lba (boutb 0x1F7 0x20 (boutb 0x1F6 (ucast (drop_bit 24 offset OR 0xE0)) (boutb 0x1F5 (ucast (drop_bit 16 offset))
     (boutb 0x1F4 (ucast (drop_bit 8 offset)) (boutb 0x1F3 (ucast offset) (boutb 0x1F2 1 st)))))) = offset"
    using lba_registers [OF assms] by (simp add: lba_def boutb_def)
  then show ?thesis
    unfolding readsect_def insl_def Let_def by (simp add: SECTSIZE_def fold_writes)
qed

section \<open>What reading a segment does\<close>

lemma sectors_left:
  fixes x n :: nat
  assumes "Suc n = (x + 511) div 512"
  shows "0 < x" and "n = (x - 512 + 511) div 512"
proof -
  show "0 < x" using assms by (cases x) auto
  show "n = (x - 512 + 511) div 512"
  proof (cases "512 \<le> x")
    case True
    then obtain y where "x = 512 + y" using le_Suc_ex by blast
    then show ?thesis using assms by simp
  next
    case False
    then have "(x + 511) div 512 \<le> 1" by (simp add: less_mult_imp_div_less not_le [symmetric] div_le_mono)
    then show ?thesis using assms False by simp
  qed
qed

lemma readseg_loop_mem:
  assumes "unat pa mod 512 = 0" and "unat e \<le> 0xFFFFFE00" and "n = (unat e - unat pa + 511) div 512"
    and "unat offset + n \<le> 2 ^ 28"
  shows "\<exists>st'. readseg_loop disk pa e offset st = Some st' \<and>
    bmem st' = (\<lambda>a. if unat pa \<le> unat a \<and> unat a < unat pa + 512 * n
      then disk (offset + of_nat ((unat a - unat pa) div 512)) ((unat a - unat pa) mod 512) else bmem st a)"
  using assms
proof (induction n arbitrary: pa offset st)
  case 0
  then have "\<not> pa < e" by (simp add: word_less_nat_alt)
  then show ?case by (subst readseg_loop.simps) (auto simp: fun_eq_iff)
next
  case (Suc n)
  note left = sectors_left [OF Suc.prems(3)]
  have lt: "unat pa < unat e" using left(1) by simp
  have pa: "unat (pa + 512) = unat pa + 512" using lt Suc.prems(2) by (simp add: unat_add_word)
  have off: "unat (offset + 1) = Suc (unat offset)" using Suc.prems(4) by (simp add: unat_add_word)
  let ?st = "readsect disk pa offset st"
  have rs: "bmem ?st a = (if unat pa \<le> unat a \<and> unat a < unat pa + 512 then disk offset (unat a - unat pa) else bmem st a)" for a
  proof -
    have "unat (a - pa) < 512 \<longleftrightarrow> unat pa \<le> unat a \<and> unat a < unat pa + 512"
      using lt Suc.prems(2) by (intro unat_diff_less) simp
    then show ?thesis using readsect_mem [of offset disk pa st] Suc.prems(4) by (auto simp: unat_sub_word)
  qed
  have al: "unat (pa + 512) mod 512 = 0" and bd: "unat (offset + 1) + n \<le> 2 ^ 28" using Suc.prems(1,4) pa off by simp_all
  have "n = (unat e - unat (pa + 512) + 511) div 512" using left(2) by (simp add: pa)
  then obtain st' where st': "readseg_loop disk (pa + 512) e (offset + 1) ?st = Some st'"
    "bmem st' = (\<lambda>a. if unat (pa + 512) \<le> unat a \<and> unat a < unat (pa + 512) + 512 * n
      then disk (offset + 1 + of_nat ((unat a - unat (pa + 512)) div 512)) ((unat a - unat (pa + 512)) mod 512) else bmem ?st a)"
    using Suc.IH [of "pa + 512" "offset + 1" ?st, OF al Suc.prems(2) _ bd] by blast
  have step: "(unat a - unat pa) div 512 = Suc ((unat a - unat (pa + 512)) div 512)"
    "(unat a - unat pa) mod 512 = (unat a - unat (pa + 512)) mod 512" if "unat (pa + 512) \<le> unat a" for a
  proof -
    have "unat pa + 512 \<le> unat a" using \<open>unat (pa + 512) \<le> unat a\<close> by (simp add: pa)
    then obtain y where "unat a = unat pa + 512 + y" using le_Suc_ex by blast
    then show "(unat a - unat pa) div 512 = Suc ((unat a - unat (pa + 512)) div 512)"
      "(unat a - unat pa) mod 512 = (unat a - unat (pa + 512)) mod 512" by (simp_all add: pa)
  qed
  have "bmem st' a = (if unat pa \<le> unat a \<and> unat a < unat pa + 512 * Suc n
      then disk (offset + of_nat ((unat a - unat pa) div 512)) ((unat a - unat pa) mod 512) else bmem st a)" for a
  proof (cases "unat (pa + 512) \<le> unat a")
    case True
    then show ?thesis using st'(2) rs [of a] step [OF True] pa by (simp add: add.assoc)
  next
    case False
    then show ?thesis using st'(2) rs [of a] pa by auto
  qed
  moreover have "readseg_loop disk pa e offset st = Some st'"
    using st'(1) lt by (subst readseg_loop.simps) (simp add: word_less_nat_alt SECTSIZE_def)
  ultimately show ?case by (intro exI [of _ st']) (simp add: fun_eq_iff)
qed

text \<open>The memory that holds the kernel image after reading \<open>count\<close> bytes at \<open>offset\<close> to \<open>pa\<close>.\<close>

definition sectors :: "u32 \<Rightarrow> u32 \<Rightarrow> u32 set" where
  "sectors pa count = {a. unat pa div 512 * 512 \<le> unat a \<and> unat a < (unat pa + unat count + 511) div 512 * 512}"

lemma readseg_loads:
  assumes "unat pa + unat count \<le> 0xFFFFFE00" and "unat pa mod 512 = unat offset mod 512"
  shows "\<exists>st'. readseg disk pa count offset st = Some st' \<and>
    (\<forall>k < unat count. bmem st' (pa + of_nat k) = on_disk disk (unat offset + k)) \<and>
    (\<forall>a. a \<notin> sectors pa count \<longrightarrow> bmem st' a = bmem st a)"
proof -
  define p0 where "p0 = pa AND NOT 511"
  define n where "n = (unat (pa + count) - unat p0 + 511) div 512"
  have pa: "unat p0 = unat pa div 512 * 512"
  proof -
    have m: "(511::u32) = mask 9" by (simp add: mask_eq_decr_exp)
    have "p0 = push_bit 9 (drop_bit 9 pa)" unfolding m p0_def by (rule bit_word_eqI) (auto simp: bit_simps)
    moreover have "unat (drop_bit 9 pa) = unat pa div 512" by (simp add: drop_bit_eq_div unat_div_distrib)
    moreover have "unat pa div 512 * 512 < 2 ^ 32" using unsigned_less [of pa, where ?'a = nat] by simp
    ultimately show ?thesis by (simp add: push_bit_eq_mult unat_word_ariths)
  qed
  have e: "unat (pa + count) = unat pa + unat count" using assms(1) by (simp add: unat_add_word)
  have off: "unat (offset div 512 + 1) = unat offset div 512 + 1" "unat offset div 512 < 2 ^ 23"
    using unsigned_less [of offset, where ?'a = nat] by (simp_all add: unat_add_word unat_div_distrib)
  have n: "unat p0 + 512 * n = (unat pa + unat count + 511) div 512 * 512"
  proof -
    have "unat pa + unat count - unat p0 + 511 = unat pa mod 512 + unat count + 511"
      using div_mult_mod_eq [of "unat pa" 512] unfolding pa by linarith
    then have "n = (unat pa mod 512 + unat count + 511) div 512" by (simp add: n_def e)
    moreover have "unat pa + unat count + 511 = (unat pa mod 512 + unat count + 511) + unat pa div 512 * 512"
      using div_mult_mod_eq [of "unat pa" 512] by linarith
    then have "(unat pa + unat count + 511) div 512 = (unat pa mod 512 + unat count + 511) div 512 + unat pa div 512"
      by (simp only: div_mult_self1)
    ultimately show ?thesis by (simp add: pa)
  qed
  have rs: "readseg disk pa count offset st = readseg_loop disk p0 (pa + count) (offset div 512 + 1) st"
    by (simp add: readseg_def SECTSIZE_def p0_def)
  have "n \<le> 2 ^ 23" using n assms(1) by simp
  then have "unat (offset div 512 + 1) + n \<le> 2 ^ 28" using off by simp
  then obtain st' where st': "readseg disk pa count offset st = Some st'"
    "bmem st' = (\<lambda>a. if unat p0 \<le> unat a \<and> unat a < unat p0 + 512 * n
      then disk (offset div 512 + 1 + of_nat ((unat a - unat p0) div 512)) ((unat a - unat p0) mod 512) else bmem st a)"
    using readseg_loop_mem [of p0 "pa + count" n "offset div 512 + 1" disk st] assms(1) pa e n_def rs by auto
  have "bmem st' (pa + of_nat k) = on_disk disk (unat offset + k)" if k: "k < unat count" for k
  proof -
    have "k < 2 ^ 32" using k unsigned_less [of count, where ?'a = nat] by simp
    then have "unat (of_nat k :: u32) = k" by (simp add: unsigned_of_nat take_bit_nat_eq_self)
    then have a: "unat (pa + of_nat k) = unat pa + k" using k assms(1) by (simp add: unat_add_word)
    have rel: "unat pa + k - unat p0 = unat offset mod 512 + k"
      using div_mult_mod_eq [of "unat pa" 512] assms(2) unfolding pa by linarith
    have "unat offset + k = (unat offset mod 512 + k) + unat offset div 512 * 512"
      using div_mult_mod_eq [of "unat offset" 512] by linarith
    note sum = this
    have "(unat offset + k) div 512 = (unat offset mod 512 + k) div 512 + unat offset div 512"
      using div_mult_self1 [of "512 :: nat" "unat offset mod 512 + k" "unat offset div 512"] unfolding sum by simp
    moreover have "(unat offset + k) mod 512 = (unat offset mod 512 + k) mod 512"
      using mod_mult_self1 [of "unat offset mod 512 + k" "unat offset div 512" "512 :: nat"] unfolding sum by simp
    moreover have "offset div 512 + 1 = of_nat (unat offset div 512 + 1)" by (metis off(1) of_nat_unat ucast_id)
    moreover have "unat p0 \<le> unat pa + k" "unat pa + k < unat p0 + 512 * n" using k unfolding n by (simp_all add: pa)
    ultimately show ?thesis using st'(2) a rel by (simp add: on_disk_def ac_simps)
  qed
  moreover have "bmem st' a = bmem st a" if "a \<notin> sectors pa count" for a
    using st'(2) that n by (auto simp: sectors_def pa)
  ultimately show ?thesis using st'(1) by blast
qed

section \<open>Loading the kernel\<close>

text \<open>The first page of the image as \<open>bootmain\<close> places it, and the fields of a program header in it.\<close>

definition header :: "disk \<Rightarrow> mem" where
  "header disk a = on_disk disk (unat (a - ELFHDR))"

definition header_page :: "u32 set" where
  "header_page = {a. unat (a - ELFHDR) < 4096}"

definition has_header :: "disk \<Rightarrow> mem \<Rightarrow> bool" where
  "has_header disk m \<longleftrightarrow> (\<forall>a \<in> header_page. m a = header disk a)"

record segment =
  seg_offset :: u32
  seg_pa :: u32
  seg_filesz :: u32
  seg_memsz :: u32

definition segment_at :: "disk \<Rightarrow> u32 \<Rightarrow> segment" where
  "segment_at disk ph = \<lparr>seg_offset = get32 (header disk) (ph + 4), seg_pa = get32 (header disk) (ph + 12),
     seg_filesz = get32 (header disk) (ph + 16), seg_memsz = get32 (header disk) (ph + 20)\<rparr>"

definition segment_bytes :: "segment \<Rightarrow> u32 set" where
  "segment_bytes g = {a. unat (a - seg_pa g) < unat (seg_memsz g)}"

text \<open>A segment that the loader can handle.\<close>

definition segment_ok :: "segment \<Rightarrow> bool" where
  "segment_ok g \<longleftrightarrow> unat (seg_pa g) + unat (seg_memsz g) \<le> 0xFFFFFE00 \<and>
     unat (seg_pa g) mod 512 = unat (seg_offset g) mod 512 \<and> seg_filesz g \<le> seg_memsz g \<and>
     sectors (seg_pa g) (seg_memsz g) \<inter> header_page = {}"

text \<open>The file's part of the segment comes from the image, the rest is zero.\<close>

definition segment_loaded :: "disk \<Rightarrow> segment \<Rightarrow> mem \<Rightarrow> bool" where
  "segment_loaded disk g m \<longleftrightarrow> (\<forall>k < unat (seg_memsz g). m (seg_pa g + of_nat k) =
     (if k < unat (seg_filesz g) then on_disk disk (unat (seg_offset g) + k) else 0))"

lemma segment_in_sectors:
  assumes "segment_ok g"
  shows "segment_bytes g \<subseteq> sectors (seg_pa g) (seg_memsz g)"
proof
  fix a assume "a \<in> segment_bytes g"
  moreover have "unat (seg_memsz g) \<le> 2 ^ 32 - unat (seg_pa g)" using assms unfolding segment_ok_def by auto
  ultimately have "unat (seg_pa g) \<le> unat a" "unat a < unat (seg_pa g) + unat (seg_memsz g)"
    using unat_diff_less by (auto simp: segment_bytes_def)
  then show "a \<in> sectors (seg_pa g) (seg_memsz g)"
    using div_mult_mod_eq [of "unat (seg_pa g)" 512] by (auto simp: sectors_def)
qed

lemma header_fields:
  assumes "has_header disk m" and "unat (ph - ELFHDR) + 32 \<le> 4096"
  shows "get32 m (ph + 4) = seg_offset (segment_at disk ph)" "get32 m (ph + 12) = seg_pa (segment_at disk ph)"
    "get32 m (ph + 16) = seg_filesz (segment_at disk ph)" "get32 m (ph + 20) = seg_memsz (segment_at disk ph)"
proof -
  have "ph + of_nat k \<in> header_page" if "k < 32" for k
  proof -
    have "unat (ph + of_nat k - ELFHDR) = unat ((ph - ELFHDR) + of_nat k)" by (simp add: algebra_simps)
    also have "\<dots> = unat (ph - ELFHDR) + k" using assms(2) that by (simp add: unat_add_word unsigned_of_nat take_bit_nat_eq_self)
    finally show ?thesis using assms(2) that by (simp add: header_page_def)
  qed
  then have eq: "m (ph + of_nat k) = header disk (ph + of_nat k)" if "k < 32" for k
    using assms(1) that by (simp add: has_header_def)
  have "get32 m (ph + of_nat k) = get32 (header disk) (ph + of_nat k)" if "k < 29" for k
    using eq [of k] eq [of "k + 1"] eq [of "k + 2"] eq [of "k + 3"] that by (intro get32_cong) (simp_all add: ac_simps)
  from this [of 4] this [of 12] this [of 16] this [of 20]
  show "get32 m (ph + 4) = seg_offset (segment_at disk ph)" "get32 m (ph + 12) = seg_pa (segment_at disk ph)"
    "get32 m (ph + 16) = seg_filesz (segment_at disk ph)" "get32 m (ph + 20) = seg_memsz (segment_at disk ph)"
    by (simp_all add: segment_at_def)
qed

lemma segment_tail:
  assumes "segment_ok g" and "unat (a - (seg_pa g + seg_filesz g)) < unat (seg_memsz g - seg_filesz g)"
  shows "a \<in> sectors (seg_pa g) (seg_memsz g)"
proof -
  define x where "x = a - (seg_pa g + seg_filesz g)"
  have N: "unat (seg_memsz g - seg_filesz g) = unat (seg_memsz g) - unat (seg_filesz g)"
    using assms(1) by (simp add: segment_ok_def unat_sub_word word_le_nat_alt)
  then have sum: "unat (seg_filesz g) + unat x < unat (seg_memsz g)" using assms(2) by (simp add: x_def)
  moreover have "unat (seg_memsz g) < 2 ^ 32" using unsigned_less [of "seg_memsz g", where ?'a = nat] by simp
  ultimately have "unat (seg_filesz g + x) = unat (seg_filesz g) + unat x" by (simp add: unat_add_word)
  moreover have "a - seg_pa g = seg_filesz g + x" by (simp add: x_def)
  ultimately have "a \<in> segment_bytes g" using sum by (simp add: segment_bytes_def)
  then show ?thesis using segment_in_sectors [OF assms(1)] by blast
qed

lemma clear_loop_ok:
  assumes "has_header disk m" and "unat (ph - ELFHDR) + 32 \<le> 4096" and "g = segment_at disk ph" and "segment_ok g"
    and "i \<le> seg_memsz g - seg_filesz g"
  shows "clear_loop ph i m = Some (\<lambda>a. let x = unat (a - (seg_pa g + seg_filesz g)) in
       if unat i \<le> x \<and> x < unat (seg_memsz g - seg_filesz g) then 0 else m a)"
  using assms(1,5)
proof (induction "unat (seg_memsz g - seg_filesz g) - unat i" arbitrary: i m)
  case 0
  then have "\<not> i < seg_memsz g - seg_filesz g" by (simp add: word_less_nat_alt)
  then show ?case
    using 0 header_fields [OF 0(2) assms(2)] by (subst clear_loop.simps) (auto simp: assms(3) word_less_nat_alt word_le_nat_alt fun_eq_iff Let_def)
next
  case (Suc n)
  let ?b = "seg_pa g + seg_filesz g" and ?N = "seg_memsz g - seg_filesz g"
  have lt: "unat i < unat ?N" using Suc.hyps(2) by simp
  then have i1: "unat (i + 1) = Suc (unat i)" using unsigned_less [of ?N, where ?'a = nat] by (simp add: unat_add_word)
  have out: "?b + i \<notin> header_page"
    using segment_tail [OF assms(4), of "?b + i"] lt assms(4) by (auto simp: segment_ok_def)
  let ?m = "m(?b + i := 0)"
  have "has_header disk ?m" using Suc.prems(1) out by (auto simp: has_header_def)
  moreover have "n = unat ?N - unat (i + 1)" "i + 1 \<le> ?N" using Suc.hyps(2) lt i1 by (auto simp: word_le_nat_alt)
  ultimately have IH: "clear_loop ph (i + 1) ?m =
    Some (\<lambda>a. let x = unat (a - ?b) in if unat (i + 1) \<le> x \<and> x < unat ?N then 0 else ?m a)"
    using Suc.hyps(1) by blast
  have at: "a = ?b + i \<longleftrightarrow> unat (a - ?b) = unat i" for a
    by (metis add_diff_cancel_left' diff_add_cancel add.commute word_unat_eq_iff)
  have "(if unat (i + 1) \<le> unat (a - ?b) \<and> unat (a - ?b) < unat ?N then 0 else ?m a) =
      (if unat i \<le> unat (a - ?b) \<and> unat (a - ?b) < unat ?N then 0 else m a)" for a
    using i1 lt at [of a] by (cases "a = ?b + i") (auto simp: Suc_le_eq le_less)
  moreover have "clear_loop ph i m = clear_loop ph (i + 1) ?m"
    using lt header_fields [OF Suc.prems(1) assms(2)] by (subst clear_loop.simps) (simp add: assms(3) word_less_nat_alt)
  ultimately show ?case by (simp only: IH Let_def)
qed

lemma boot_segment_ok:
  assumes "has_header disk (bmem st)" and "unat (ph - ELFHDR) + 32 \<le> 4096" and "g = segment_at disk ph" and "segment_ok g"
  shows "\<exists>st'. boot_segment disk ph st = Some st' \<and> has_header disk (bmem st') \<and> segment_loaded disk g (bmem st') \<and>
    (\<forall>a. a \<notin> sectors (seg_pa g) (seg_memsz g) \<longrightarrow> bmem st' a = bmem st a)"
proof -
  note f = header_fields [OF assms(1,2), folded assms(3)]
  obtain st1 where st1: "readseg disk (seg_pa g) (seg_memsz g) (seg_offset g) st = Some st1"
    "\<And>k. k < unat (seg_memsz g) \<Longrightarrow> bmem st1 (seg_pa g + of_nat k) = on_disk disk (unat (seg_offset g) + k)"
    "\<And>a. a \<notin> sectors (seg_pa g) (seg_memsz g) \<Longrightarrow> bmem st1 a = bmem st a"
    using readseg_loads [of "seg_pa g" "seg_memsz g" "seg_offset g" disk st] assms(4) unfolding segment_ok_def by blast
  have hd1: "has_header disk (bmem st1)"
    using assms(1,4) st1(3) by (fastforce simp: has_header_def segment_ok_def)
  let ?b = "seg_pa g + seg_filesz g" and ?N = "seg_memsz g - seg_filesz g"
  define m' where "m' = (\<lambda>a. if unat (a - ?b) < unat ?N then 0 else bmem st1 a)"
  have clr: "clear_loop ph 0 (bmem st1) = Some m'"
    using clear_loop_ok [OF hd1 assms(2-4), of 0] by (simp add: m'_def Let_def)
  have cleared: "a \<in> sectors (seg_pa g) (seg_memsz g)" if "unat (a - ?b) < unat ?N" for a
    using segment_tail [OF assms(4) that] .
  have "boot_segment disk ph st = Some (st1\<lparr>bmem := m'\<rparr>)"
    by (simp add: boot_segment_def f st1(1) clr)
  moreover have "m' a = bmem st a" if "a \<notin> sectors (seg_pa g) (seg_memsz g)" for a
    using that cleared st1(3) by (auto simp: m'_def)
  moreover have "segment_loaded disk g m'"
    unfolding segment_loaded_def
  proof (intro allI impI)
    fix k assume k: "k < unat (seg_memsz g)"
    have lim: "unat (seg_memsz g) < 2 ^ 32" using unsigned_less [of "seg_memsz g", where ?'a = nat] by simp
    have fm: "unat (seg_filesz g) \<le> unat (seg_memsz g)" using assms(4) by (simp add: segment_ok_def word_le_nat_alt)
    have "unat (of_nat k :: u32) = k" using k lim by (simp add: unsigned_of_nat take_bit_nat_eq_self)
    moreover have "seg_pa g + of_nat k - ?b = of_nat k - seg_filesz g" by simp
    ultimately have "unat (seg_pa g + of_nat k - ?b) < unat ?N \<longleftrightarrow> unat (seg_filesz g) \<le> k"
      using k lim fm by (simp only: unat_sub_word) auto
    then show "m' (seg_pa g + of_nat k) = (if k < unat (seg_filesz g) then on_disk disk (unat (seg_offset g) + k) else 0)"
      using st1(2) [OF k] by (simp only: m'_def) auto
  qed
  ultimately show ?thesis
    using assms(1,4) by (intro exI [of _ "st1\<lparr>bmem := m'\<rparr>"]) (fastforce simp: has_header_def segment_ok_def)
qed

definition disjoint_later :: "segment \<Rightarrow> segment \<Rightarrow> bool" where
  "disjoint_later g h \<longleftrightarrow> segment_bytes g \<inter> sectors (seg_pa h) (seg_memsz h) = {}"

lemma segment_loaded_frame:
  assumes "segment_loaded disk g m" and "\<And>a. a \<in> segment_bytes g \<Longrightarrow> m' a = m a"
  shows "segment_loaded disk g m'"
proof -
  have "seg_pa g + of_nat k \<in> segment_bytes g" if "k < unat (seg_memsz g)" for k
    using that unsigned_less [of "seg_memsz g", where ?'a = nat]
    by (simp add: segment_bytes_def unsigned_of_nat take_bit_nat_eq_self)
  then show ?thesis using assms by (simp add: segment_loaded_def)
qed

lemma boot_segments_ok:
  assumes "has_header disk (bmem st)"
    and "\<And>ph. ph \<in> set phs \<Longrightarrow> unat (ph - ELFHDR) + 32 \<le> 4096 \<and> segment_ok (segment_at disk ph)"
    and "sorted_wrt disjoint_later (map (segment_at disk) phs)"
  shows "\<exists>st'. boot_segments disk phs st = Some st' \<and> has_header disk (bmem st') \<and>
    (\<forall>ph \<in> set phs. segment_loaded disk (segment_at disk ph) (bmem st')) \<and>
    (\<forall>a. (\<forall>ph \<in> set phs. a \<notin> sectors (seg_pa (segment_at disk ph)) (seg_memsz (segment_at disk ph))) \<longrightarrow> bmem st' a = bmem st a)"
  using assms
proof (induction phs arbitrary: st)
  case (Cons ph phs)
  obtain st1 where st1: "boot_segment disk ph st = Some st1" "has_header disk (bmem st1)"
    "segment_loaded disk (segment_at disk ph) (bmem st1)"
    "\<And>a. a \<notin> sectors (seg_pa (segment_at disk ph)) (seg_memsz (segment_at disk ph)) \<Longrightarrow> bmem st1 a = bmem st a"
    using boot_segment_ok [OF Cons.prems(1), of ph "segment_at disk ph"] Cons.prems(2) [of ph] by auto
  obtain st' where st': "boot_segments disk phs st1 = Some st'" "has_header disk (bmem st')"
    "\<forall>ph \<in> set phs. segment_loaded disk (segment_at disk ph) (bmem st')"
    "\<And>a. \<forall>ph \<in> set phs. a \<notin> sectors (seg_pa (segment_at disk ph)) (seg_memsz (segment_at disk ph)) \<Longrightarrow> bmem st' a = bmem st1 a"
    using Cons.IH [OF st1(2)] Cons.prems(2,3) by auto
  have "segment_loaded disk (segment_at disk ph) (bmem st')"
    using Cons.prems(3) by (intro segment_loaded_frame [OF st1(3)] st'(4)) (auto simp: disjoint_later_def)
  then show ?case using st1 st' by (intro exI [of _ st']) simp
qed simp

text \<open>An image whose program headers are in its first page and describe segments the loader can handle.\<close>

definition program_headers :: "disk \<Rightarrow> u32 list" where
  "program_headers disk =
     map (\<lambda>k. ELFHDR + get32 (header disk) (ELFHDR + 28) + 32 * of_nat k) [0..<unat (get16 (header disk) (ELFHDR + 44))]"

definition bootable :: "disk \<Rightarrow> bool" where
  "bootable disk \<longleftrightarrow>
     unat (get32 (header disk) (ELFHDR + 28)) + 32 * unat (get16 (header disk) (ELFHDR + 44)) \<le> 4096 \<and>
     (\<forall>ph \<in> set (program_headers disk). segment_ok (segment_at disk ph)) \<and>
     sorted_wrt disjoint_later (map (segment_at disk) (program_headers disk))"

lemma read_header:
  "\<exists>st'. readseg disk ELFHDR (SECTSIZE * 8) 0 st = Some st' \<and> has_header disk (bmem st')"
proof -
  obtain st' where st': "readseg disk ELFHDR (SECTSIZE * 8) 0 st = Some st'"
    "\<And>k. k < 4096 \<Longrightarrow> bmem st' (ELFHDR + of_nat k) = on_disk disk k"
    using readseg_loads [of ELFHDR "SECTSIZE * 8" 0 disk st] by (auto simp: jos_consts)
  have "bmem st' a = header disk a" if "a \<in> header_page" for a
    using st'(2) [of "unat (a - ELFHDR)"] that by (simp add: header_def header_page_def)
  then show ?thesis using st'(1) by (auto simp: has_header_def)
qed

lemma header_words:
  assumes "has_header disk m" and "k \<le> 4092"
  shows "get32 m (ELFHDR + of_nat k) = get32 (header disk) (ELFHDR + of_nat k)"
    and "get16 m (ELFHDR + of_nat k) = get16 (header disk) (ELFHDR + of_nat k)"
proof -
  have "m (ELFHDR + of_nat j) = header disk (ELFHDR + of_nat j)" if "j < 4096" for j
    using assms(1) that by (simp add: has_header_def header_page_def unsigned_of_nat take_bit_nat_eq_self)
  note eq = this [of k] this [of "k + 1"] this [of "k + 2"] this [of "k + 3"]
  show "get32 m (ELFHDR + of_nat k) = get32 (header disk) (ELFHDR + of_nat k)"
    "get16 m (ELFHDR + of_nat k) = get16 (header disk) (ELFHDR + of_nat k)"
    using eq assms(2) by (auto intro!: get32_cong get16_cong simp: ac_simps)
qed

text \<open>
  C39: the boot loader loads every segment of a bootable kernel image completely, with the part
  beyond the file cleared, and jumps to its entry point; an image without the ELF magic number
  ends in the loop at \<open>bad\<close>.
\<close>

theorem bootmain_loads_kernel:
  assumes "bootable disk"
  shows "if get32 (header disk) ELFHDR = ELF_MAGIC
    then \<exists>st'. bootmain disk st = Some (Entered (get32 (header disk) (ELFHDR + 24)) st') \<and>
      (\<forall>ph \<in> set (program_headers disk). segment_loaded disk (segment_at disk ph) (bmem st'))
    else \<exists>st'. bootmain disk st = Some (BadImage st')"
proof -
  obtain st1 where st1: "readseg disk ELFHDR (SECTSIZE * 8) 0 st = Some st1" "has_header disk (bmem st1)"
    using read_header by blast
  have w: "get32 (bmem st1) ELFHDR = get32 (header disk) ELFHDR"
    "get32 (bmem st1) (ELFHDR + 28) = get32 (header disk) (ELFHDR + 28)"
    "get16 (bmem st1) (ELFHDR + 44) = get16 (header disk) (ELFHDR + 44)"
    using header_words [OF st1(2), of 0] header_words [OF st1(2), of 28] header_words [OF st1(2), of 44] by simp_all
  let ?ph = "ELFHDR + get32 (header disk) (ELFHDR + 28)" and ?n = "unat (get16 (header disk) (ELFHDR + 44))"
  have room: "unat (get32 (header disk) (ELFHDR + 28)) + 32 * ?n \<le> 4096" using assms by (simp add: bootable_def)
  have off: "unat (get32 (header disk) (ELFHDR + 28) + 32 * of_nat k) = unat (get32 (header disk) (ELFHDR + 28)) + 32 * k" if "k \<le> ?n" for k
    using room that by (simp add: unat_word_ariths unsigned_of_nat take_bit_nat_eq_self)
  have phs: "(if ?ph < ?ph + 32 * of_nat ?n then map (\<lambda>k. ?ph + 32 * of_nat k) [0..<?n] else []) = program_headers disk"
  proof (cases "?n = 0")
    case False
    have "unat (?ph + 32 * of_nat k) = 0x10000 + unat (get32 (header disk) (ELFHDR + 28)) + 32 * k" if "k \<le> ?n" for k
      using off [OF that] room that unat_add_word [of ELFHDR "get32 (header disk) (ELFHDR + 28) + 32 * of_nat k"]
      by (simp add: add.assoc ELFHDR_def)
    from this [of 0] this [of ?n] have "?ph < ?ph + 32 * of_nat ?n" using False by (simp add: word_less_nat_alt)
    then show ?thesis by (simp add: program_headers_def)
  qed (simp add: program_headers_def)
  have inpage: "unat (ph - ELFHDR) + 32 \<le> 4096" if "ph \<in> set (program_headers disk)" for ph
    using that off room by (auto simp: program_headers_def add.assoc)
  obtain st' where st': "boot_segments disk (program_headers disk) st1 = Some st'" "has_header disk (bmem st')"
    "\<forall>ph \<in> set (program_headers disk). segment_loaded disk (segment_at disk ph) (bmem st')"
    using boot_segments_ok [OF st1(2), of "program_headers disk"] inpage assms by (auto simp: bootable_def)
  show ?thesis
    using st1(1) st' w phs header_words(1) [OF st'(2), of 24] by (auto simp: bootmain_def Let_def)
qed

text \<open>An image with one segment of eight bytes at 1 MB, four of them in the file.\<close>

definition boot_image :: "(nat \<times> u8) list" where
  "boot_image =
     [(0, 0x7F), (1, 0x45), (2, 0x4C), (3, 0x46), (24, 0x0C), (26, 0x10), (28, 52), (44, 1),
      (57, 0x10), (66, 0x10), (68, 4), (72, 8), (4096, 0xFA), (4097, 0xFC), (4098, 0x31), (4099, 0xC0)]"

definition boot_disk :: disk where
  "boot_disk sec i =
     (case map_of boot_image (unat (sec - 1) * 512 + i) of Some b \<Rightarrow> b | None \<Rightarrow> 0)"

lemma on_boot_disk:
  assumes "i < 8192"
  shows "on_disk boot_disk i = (case map_of boot_image i of Some b \<Rightarrow> b | None \<Rightarrow> 0)"
proof -
  have "unat (of_nat (i div 512 + 1) - 1 :: u32) = i div 512" using assms by (simp add: unsigned_of_nat take_bit_nat_eq_self)
  then show ?thesis using div_mult_mod_eq [of i 512] by (simp add: on_disk_def boot_disk_def)
qed

lemma boot_disk_header:
  "get32 (header boot_disk) ELFHDR = ELF_MAGIC" "get32 (header boot_disk) (ELFHDR + 24) = 0x10000C"
  "program_headers boot_disk = [0x10034]"
  "segment_at boot_disk 0x10034 = \<lparr>seg_offset = 0x1000, seg_pa = 0x100000, seg_filesz = 4, seg_memsz = 8\<rparr>"
  "get32 (header boot_disk) (ELFHDR + 28) = 52" "get16 (header boot_disk) (ELFHDR + 44) = 1"
proof -
  show 1: "get32 (header boot_disk) (ELFHDR + 28) = 52" "get16 (header boot_disk) (ELFHDR + 44) = 1"
    by (simp_all add: get32_def get16_def header_def on_boot_disk boot_image_def jos_consts)
  then show "program_headers boot_disk = [0x10034]" by (simp add: program_headers_def ELFHDR_def)
qed (simp_all add: segment_at_def get32_def header_def on_boot_disk boot_image_def jos_consts)

theorem bootmain_loads_kernel_witness:
  "\<exists>st'. bootmain boot_disk \<lparr>bmem = (\<lambda>_. 0xFF), bports = (\<lambda>_. 0)\<rparr> = Some (Entered 0x10000C st') \<and>
     bmem st' 0x100000 = 0xFA \<and> bmem st' 0x100005 = 0"
proof -
  have "sectors 0x100000 8 \<inter> header_page = {}"
    by (auto simp: sectors_def header_page_def ELFHDR_def unat_sub_word)
  then have "bootable boot_disk" by (simp add: bootable_def boot_disk_header segment_ok_def)
  from bootmain_loads_kernel [OF this, of "\<lparr>bmem = (\<lambda>_. 0xFF), bports = (\<lambda>_. 0)\<rparr>"]
  obtain st' where st': "bootmain boot_disk \<lparr>bmem = (\<lambda>_. 0xFF), bports = (\<lambda>_. 0)\<rparr> = Some (Entered 0x10000C st')"
    "segment_loaded boot_disk \<lparr>seg_offset = 0x1000, seg_pa = 0x100000, seg_filesz = 4, seg_memsz = 8\<rparr> (bmem st')"
    by (auto simp: boot_disk_header)
  then have "bmem st' (0x100000 + of_nat k) = (if k < 4 then on_disk boot_disk (0x1000 + k) else 0)" if "k < 8" for k
    using that by (simp add: segment_loaded_def)
  from this [of 0] this [of 5] show ?thesis using st'(1) by (simp add: on_boot_disk boot_image_def)
qed

end
