(* ===== verification/Free_Check.thy ===== *)
theory Free_Check
  imports Mem_Init
begin

text \<open>
  \<open>check_page_free_list\<close> of \<^verbatim>\<open>kern/pmap.c\<close>.  Besides its assertions it does work that booting
  depends on: with \<open>only_low_memory\<close> it moves the pages that the entry page tables map to the
  front of the free list, by splitting the list in place.
\<close>

section \<open>The function\<close>

text \<open>
  \<open>for (pp = page_free_list; pp; pp = pp->pp_link)\<close>, with the local variables \<open>c\<close>.  The loop does
  not end on a cyclic list.
\<close>

partial_function (option) pp_for ::
  "(u32 \<Rightarrow> 'c \<Rightarrow> kstate \<Rightarrow> ('c, kstate) outcome) \<Rightarrow> u32 option \<Rightarrow> 'c \<Rightarrow> kstate \<Rightarrow> ('c, kstate) outcome option" where
  "pp_for body pp c s =
     (case pp of
        None \<Rightarrow> Some (Ret c s)
      | Some p \<Rightarrow> (case body p c s of
            Ret c s \<Rightarrow> pp_for body (pp_link (pages s p)) c s
          | Panic m s \<Rightarrow> Some (Panic m s)
          | Leave l s \<Rightarrow> Some (Leave l s)))"

text \<open>
  What a \<open>struct PageInfo **\<close> of the function points at: one of its local variables, or a link.
  \<open>tp\<close> is the array of the two pointers; \<open>pps False\<close> is \<open>pp1\<close> and \<open>pps True\<close> is \<open>pp2\<close>.
\<close>

datatype slot = Local | LinkOf u32

record heads =
  tp :: "bool \<Rightarrow> slot"
  pps :: "bool \<Rightarrow> u32 option"

definition set_tp :: "bool \<Rightarrow> u32 option \<Rightarrow> heads \<Rightarrow> kstate \<Rightarrow> heads \<times> kstate" where
  "set_tp b v h s =
     (case tp h b of
        Local \<Rightarrow> (h\<lparr>pps := (pps h)(b := v)\<rparr>, s)
      | LinkOf p \<Rightarrow> (h, upd_page p (\<lambda>i. i\<lparr>pp_link := v\<rparr>) s))"

definition split_step :: "u32 \<Rightarrow> u32 \<Rightarrow> heads \<Rightarrow> kstate \<Rightarrow> (heads, kstate) outcome" where
  "split_step pdx_limit pp h s =
     (let pagetype = (pdx_limit \<le> PDX (page2pa pp)); (h, s) = set_tp pagetype (Some pp) h s
      in Ret (h\<lparr>tp := (tp h)(pagetype := LinkOf pp)\<rparr>) s)"

definition poison :: "u32 \<Rightarrow> u32 \<Rightarrow> unit \<Rightarrow> kstate \<Rightarrow> (unit, kstate) outcome" where
  "poison pdx_limit pp c s =
     (if PDX (page2pa pp) < pdx_limit
      then kbind (page2kva pp s) (\<lambda>a s. Ret () (fold (\<lambda>i. kstore (a + 4 * of_nat i) 0x97979797) [0..<32] s))
      else Ret () s)"

definition assert_that :: "bool \<Rightarrow> kstate \<Rightarrow> (unit, kstate) outcome" where
  "assert_that b s = (if b then Ret () s else Panic ''assertion failed'' s)"

text \<open>
  The assertions on one page.  A page is an index into \<open>pages\<close>, so two of them (not below the
  array, a multiple of the size of an entry) hold by construction.
\<close>

definition assert_page :: "u32 \<Rightarrow> u32 \<Rightarrow> int \<times> int \<Rightarrow> kstate \<Rightarrow> (int \<times> int, kstate) outcome" where
  "assert_page first_free_page pp c s =
     kbind (assert_that (pp < npages s) s) (\<lambda>_ s.
     kbind (assert_that (page2pa pp \<noteq> 0) s) (\<lambda>_ s.
     kbind (assert_that (page2pa pp \<noteq> IOPHYSMEM) s) (\<lambda>_ s.
     kbind (assert_that (page2pa pp \<noteq> EXTPHYSMEM - PGSIZE) s) (\<lambda>_ s.
     kbind (assert_that (page2pa pp \<noteq> EXTPHYSMEM) s) (\<lambda>_ s.
     kbind (if page2pa pp < EXTPHYSMEM then Ret () s
            else kbind (page2kva pp s) (\<lambda>a s. assert_that (first_free_page \<le> a) s)) (\<lambda>_ s.
     kbind (assert_that (page2pa pp \<noteq> MPENTRY_PADDR) s) (\<lambda>_ s.
       Ret (if page2pa pp < EXTPHYSMEM then (fst c + 1, snd c) else (fst c, snd c + 1)) s)))))))"

text \<open>Sequencing of steps that may not end.\<close>

definition obind :: "('a, 's) outcome option \<Rightarrow> ('a \<Rightarrow> 's \<Rightarrow> ('b, 's) outcome option) \<Rightarrow> ('b, 's) outcome option" where
  "obind m f =
     (case m of
        None \<Rightarrow> None
      | Some (Ret x s) \<Rightarrow> f x s
      | Some (Panic msg s) \<Rightarrow> Some (Panic msg s)
      | Some (Leave l s) \<Rightarrow> Some (Leave l s))"

definition move_low_pages :: "u32 \<Rightarrow> kstate \<Rightarrow> (unit, kstate) outcome option" where
  "move_low_pages pdx_limit s =
     obind (pp_for (split_step pdx_limit) (page_free_list s) \<lparr>tp = \<lambda>_. Local, pps = \<lambda>_. None\<rparr> s) (\<lambda>h s.
       let (h, s) = set_tp True None h s; (h, s) = set_tp False (pps h True) h s
       in Some (Ret () (s\<lparr>page_free_list := pps h False\<rparr>)))"

definition check_page_free_list :: "u32 \<Rightarrow> bool \<Rightarrow> kstate \<Rightarrow> (unit, kstate) outcome option" where
  "check_page_free_list end_sym only_low_memory s =
     (let pdx_limit = (if only_low_memory then 1 else 1024) in
      if page_free_list s = None then Some (Panic ''page_free_list is a null pointer!'' s)
      else obind (if only_low_memory then move_low_pages pdx_limit s else Some (Ret () s)) (\<lambda>_ s.
        obind (pp_for (poison pdx_limit) (page_free_list s) () s) (\<lambda>_ s.
        let (first_free_page, s) = boot_alloc end_sym 0 s in
        obind (pp_for (assert_page first_free_page) (page_free_list s) (0, 0) s) (\<lambda>c s.
        Some (kbind (assert_that (fst c > 0) s) (\<lambda>_ s.
          kbind (assert_that (snd c > 0) s) (\<lambda>_ s.
            Ret () (kprintf (''check_page_free_list() succeeded!'' @ newline) [] s))))))))"

lemma obind_simps [simp]:
  "obind (Some (Ret x s)) f = f x s" "obind (Some (Panic m s)) f = Some (Panic m s)"
  "obind (Some (Leave l s)) f = Some (Leave l s)" "obind None f = None"
  by (simp_all add: obind_def)

lemma assert_that_simps [simp]: "b \<Longrightarrow> assert_that b s = Ret () s"
  by (simp add: assert_that_def)

section \<open>Splitting the list\<close>

text \<open>A chain whose last link is still open.\<close>

fun open_chain :: "('k \<Rightarrow> 'k option) \<Rightarrow> 'k option \<Rightarrow> 'k list \<Rightarrow> bool" where
  "open_chain link h [] \<longleftrightarrow> True"
| "open_chain link h [x] \<longleftrightarrow> h = Some x"
| "open_chain link h (x # y # ys) \<longleftrightarrow> h = Some x \<and> open_chain link (link x) (y # ys)"

lemma open_chain_cong:
  "(\<And>x. x \<in> set xs \<Longrightarrow> link x = link' x) \<Longrightarrow> open_chain link h xs = open_chain link' h xs"
  by (induction link h xs rule: open_chain.induct) auto

lemma open_chain_snoc:
  "open_chain link h xs \<Longrightarrow> xs \<noteq> [] \<Longrightarrow> distinct xs \<Longrightarrow> x \<notin> set xs \<Longrightarrow> open_chain (link(last xs := Some x)) h (xs @ [x])"
proof (induction link h xs rule: open_chain.induct)
  case (3 link h z y ys)
  have "last (y # ys) \<noteq> z" using "3.prems"(3) last_in_set [of "y # ys"] by auto
  then show ?case using 3 by (cases ys) auto
qed auto

lemma open_chain_close:
  "open_chain link h xs \<Longrightarrow> xs \<noteq> [] \<Longrightarrow> distinct xs \<Longrightarrow> set xs \<inter> set ys = {} \<Longrightarrow> chain link v ys \<Longrightarrow>
   chain (link(last xs := v)) h (xs @ ys)"
proof (induction link h xs rule: open_chain.induct)
  case (2 link h x)
  then show ?case using chain_upd [of x ys link v v] by (simp add: fun_upd_def)
next
  case (3 link h z y ys')
  have "last (y # ys') \<noteq> z" using "3.prems"(3) last_in_set [of "y # ys'"] by auto
  then show ?case using 3 by simp
qed auto

text \<open>The list \<open>xs\<close> collected so far in variable \<open>b\<close>; the pointer designates its open end.\<close>

definition collects :: "bool \<Rightarrow> heads \<Rightarrow> kstate \<Rightarrow> u32 list \<Rightarrow> bool" where
  "collects b h s xs \<longleftrightarrow>
     tp h b = (if xs = [] then Local else LinkOf (last xs)) \<and> open_chain (\<lambda>p. pp_link (pages s p)) (pps h b) xs"

definition links_only :: "u32 set \<Rightarrow> kstate \<Rightarrow> kstate \<Rightarrow> bool" where
  "links_only A s t \<longleftrightarrow> (\<exists>P. t = s\<lparr>pages := P\<rparr>) \<and> (\<forall>p. pp_ref (pages t p) = pp_ref (pages s p)) \<and>
     (\<forall>p. p \<notin> A \<longrightarrow> pages t p = pages s p)"

lemma links_only_refl [simp]: "links_only A s s"
  by (auto simp: links_only_def intro: exI [of _ "pages s"])

lemma links_only_trans: "links_only A s t \<Longrightarrow> links_only A t u \<Longrightarrow> links_only A s u"
  by (auto simp: links_only_def)

lemma links_only_mono: "links_only A s t \<Longrightarrow> A \<subseteq> B \<Longrightarrow> links_only B s t"
  by (auto simp: links_only_def)

lemma set_tp_links:
  assumes "collects b h s xs" and "set_tp b v h s = (h', s')"
  shows "links_only (set xs) s s'" and "tp h' = tp h" and "\<And>p. p \<notin> set xs \<Longrightarrow> pp_link (pages s' p) = pp_link (pages s p)"
    and "c \<noteq> b \<Longrightarrow> pps h' c = pps h c"
proof -
  show "links_only (set xs) s s'"
    using assms by (cases "xs = []") (auto simp: set_tp_def collects_def, auto simp: links_only_def kops)
qed (use assms in \<open>auto simp: set_tp_def collects_def kops split: if_splits\<close>)

lemma collects_other:
  assumes "collects b h s xs" and "set_tp b v h s = (h', s')" and "c \<noteq> b" and "collects c h s ys" and "set xs \<inter> set ys = {}"
  shows "collects c h' s' ys"
proof -
  note st = set_tp_links [OF assms(1,2)]
  have "open_chain (\<lambda>p. pp_link (pages s' p)) (pps h c) ys = open_chain (\<lambda>p. pp_link (pages s p)) (pps h c) ys"
    by (rule open_chain_cong) (use st(3) assms(5) in auto)
  then show ?thesis using assms(3,4) st(2,4) by (simp add: collects_def)
qed

lemma collects_tp: "c \<noteq> b \<Longrightarrow> collects c (h\<lparr>tp := (tp h)(b := x)\<rparr>) s ys = collects c h s ys"
  by (simp add: collects_def)

lemma set_tp_append:
  assumes "collects b h s xs" and "set_tp b (Some x) h s = (h', s')" and "distinct xs" and "x \<notin> set xs"
  shows "collects b (h'\<lparr>tp := (tp h')(b := LinkOf x)\<rparr>) s' (xs @ [x])"
proof (cases "xs = []")
  case True
  then show ?thesis using assms(1,2) by (auto simp: set_tp_def collects_def)
next
  case False
  let ?l = "\<lambda>p. pp_link (pages s p)"
  have eq: "h' = h" "(\<lambda>p. pp_link (pages s' p)) = ?l(last xs := Some x)"
    using assms(1,2) False by (auto simp: set_tp_def collects_def kops)
  have "open_chain (?l(last xs := Some x)) (pps h b) (xs @ [x])"
    by (rule open_chain_snoc) (use assms(1,3,4) False in \<open>auto simp: collects_def\<close>)
  then show ?thesis by (simp add: collects_def eq)
qed

lemma set_tp_close:
  assumes "collects b h s xs" and "set_tp b v h s = (h', s')" and "distinct xs" and "set xs \<inter> set ys = {}"
    and "chain (\<lambda>p. pp_link (pages s p)) v ys"
  shows "chain (\<lambda>p. pp_link (pages s' p)) (pps h' b) (xs @ ys)"
proof (cases "xs = []")
  case True
  then show ?thesis using assms(1,2,5) by (auto simp: set_tp_def collects_def)
next
  case False
  let ?l = "\<lambda>p. pp_link (pages s p)"
  have eq: "h' = h" "(\<lambda>p. pp_link (pages s' p)) = ?l(last xs := v)"
    using assms(1,2) False by (auto simp: set_tp_def collects_def kops)
  have "chain (?l(last xs := v)) (pps h b) (xs @ ys)"
    by (rule open_chain_close) (use assms(1,3,4,5) False in \<open>auto simp: collects_def\<close>)
  then show ?thesis by (simp add: eq)
qed

abbreviation low_page :: "u32 \<Rightarrow> u32 \<Rightarrow> bool" where
  "low_page lim p \<equiv> PDX (page2pa p) < lim"

lemma split_loop:
  assumes "chain (\<lambda>p. pp_link (pages s p)) pp ps" and "collects False h s L" and "collects True h s H"
    and "distinct (L @ H @ ps)"
  shows "\<exists>g t. pp_for (split_step lim) pp h s = Some (Ret g t) \<and> collects False g t (L @ filter (low_page lim) ps) \<and>
    collects True g t (H @ filter (\<lambda>p. \<not> low_page lim p) ps) \<and> links_only (set (L @ H @ ps)) s t"
  using assms
proof (induction ps arbitrary: pp h s L H)
  case Nil
  then show ?case by (subst pp_for.simps) auto
next
  case (Cons p ps)
  define b where "b \<longleftrightarrow> lim \<le> PDX (page2pa p)"
  define xs ys where "xs = (if b then H else L)" and "ys = (if b then L else H)"
  have col: "collects b h s xs" "collects (\<not> b) h s ys" using Cons.prems(2,3) by (auto simp: xs_def ys_def)
  have dis: "distinct xs" "p \<notin> set xs" "p \<notin> set ps" "set xs \<inter> set ys = {}" "set xs \<inter> set ps = {}"
    using Cons.prems(4) by (auto simp: xs_def ys_def split: if_splits)
  obtain h1 s1 where st: "set_tp b (Some p) h s = (h1, s1)" by force
  note fr = set_tp_links [OF col(1) st]
  let ?h = "h1\<lparr>tp := (tp h1)(b := LinkOf p)\<rparr>"
  have step: "split_step lim p h s = Ret ?h s1" using st by (simp add: split_step_def b_def)
  have new: "collects b ?h s1 (xs @ [p])" by (rule set_tp_append [OF col(1) st dis(1,2)])
  have old: "collects (\<not> b) ?h s1 ys"
    using collects_other [OF col(1) st _ col(2) dis(4)] collects_tp [of "\<not> b" b] by simp
  have ch: "chain (\<lambda>q. pp_link (pages s1 q)) (pp_link (pages s1 p)) ps"
  proof -
    have "chain (\<lambda>q. pp_link (pages s1 q)) (pp_link (pages s p)) ps = chain (\<lambda>q. pp_link (pages s q)) (pp_link (pages s p)) ps"
      by (rule chain_cong) (use fr(3) dis(5) in auto)
    then show ?thesis using Cons.prems(1) fr(3) [OF dis(2)] by simp
  qed
  define L1 H1 where "L1 = (if b then L else L @ [p])" and "H1 = (if b then H @ [p] else H)"
  have c1: "collects False ?h s1 L1" "collects True ?h s1 H1" using new old by (auto simp: L1_def H1_def xs_def ys_def split: if_splits)
  have d1: "distinct (L1 @ H1 @ ps)" using Cons.prems(4) by (auto simp: L1_def H1_def)
  obtain g t where gt: "pp_for (split_step lim) (pp_link (pages s1 p)) ?h s1 = Some (Ret g t)"
    "collects False g t (L1 @ filter (low_page lim) ps)" "collects True g t (H1 @ filter (\<lambda>p. \<not> low_page lim p) ps)"
    "links_only (set (L1 @ H1 @ ps)) s1 t"
    using Cons.IH [OF ch c1 d1] by blast
  have "pp_for (split_step lim) pp h s = Some (Ret g t)"
    using Cons.prems(1) gt(1) step by (subst pp_for.simps) simp
  moreover have "L1 @ filter (low_page lim) ps = L @ filter (low_page lim) (p # ps)"
    "H1 @ filter (\<lambda>p. \<not> low_page lim p) ps = H @ filter (\<lambda>p. \<not> low_page lim p) (p # ps)"
    by (auto simp: L1_def H1_def b_def)
  moreover have "links_only (set (L @ H @ p # ps)) s t"
  proof (rule links_only_trans)
    show "links_only (set (L @ H @ p # ps)) s s1" by (rule links_only_mono [OF fr(1)]) (auto simp: xs_def)
    show "links_only (set (L @ H @ p # ps)) s1 t" by (rule links_only_mono [OF gt(4)]) (auto simp: L1_def H1_def)
  qed
  ultimately show ?case using gt(2,3) by metis
qed

lemma move_low_pages_ok:
  assumes "free_ok fl s"
  shows "\<exists>t. move_low_pages lim s = Some (Ret () t) \<and> free_ok (filter (low_page lim) fl @ filter (\<lambda>p. \<not> low_page lim p) fl) t \<and>
    (\<forall>p. pp_ref (pages t p) = pp_ref (pages s p)) \<and> (\<exists>P h. t = s\<lparr>pages := P, page_free_list := h\<rparr>)"
proof -
  let ?L = "filter (low_page lim) fl" and ?H = "filter (\<lambda>p. \<not> low_page lim p) fl"
  have ch: "chain (\<lambda>p. pp_link (pages s p)) (page_free_list s) fl" using assms by (simp add: free_ok_def pl.elems_def)
  have dist: "distinct fl" by (rule free_ok_distinct [OF assms])
  have dLH: "distinct ?L" "distinct ?H" "set ?L \<inter> set ?H = {}" "set ?H \<inter> set ?L = {}" using dist by auto
  have "collects b \<lparr>tp = \<lambda>_. Local, pps = \<lambda>_. None\<rparr> s []" for b by (simp add: collects_def)
  from split_loop [OF ch this this, of lim] dist
  obtain h t0 where lp: "pp_for (split_step lim) (page_free_list s) \<lparr>tp = \<lambda>_. Local, pps = \<lambda>_. None\<rparr> s = Some (Ret h t0)"
    "collects False h t0 ?L" "collects True h t0 ?H" "links_only (set fl) s t0" by auto
  obtain h1 t1 where s1: "set_tp True None h t0 = (h1, t1)" by force
  obtain h2 t2 where s2: "set_tp False (pps h1 True) h1 t1 = (h2, t2)" by force
  have hi: "chain (\<lambda>p. pp_link (pages t1 p)) (pps h1 True) ?H"
    using set_tp_close [OF lp(3) s1 dLH(2), of "[]"] by simp
  have lo: "collects False h1 t1 ?L" by (rule collects_other [OF lp(3) s1 _ lp(2) dLH(4)]) simp
  have all: "chain (\<lambda>p. pp_link (pages t2 p)) (pps h2 False) (?L @ ?H)" by (rule set_tp_close [OF lo s2 dLH(1,3) hi])
  have lk: "links_only (set fl) s t2"
    by (rule links_only_trans [OF lp(4) links_only_trans])
      (auto intro: links_only_mono [OF set_tp_links(1) [OF lp(3) s1]] links_only_mono [OF set_tp_links(1) [OF lo s2]])
  define t where "t = t2\<lparr>page_free_list := pps h2 False\<rparr>"
  obtain P where P: "t2 = s\<lparr>pages := P\<rparr>" using lk by (auto simp: links_only_def)
  then have te: "t = s\<lparr>pages := P, page_free_list := pps h2 False\<rparr>" unfolding t_def by simp
  have "free_ok (?L @ ?H) t"
    using assms all lk unfolding P by (auto simp: te free_ok_def pl.elems_def npages_ok_def links_only_def)
  moreover have "move_low_pages lim s = Some (Ret () t)" using lp(1) s1 s2 by (simp add: move_low_pages_def t_def)
  ultimately show ?thesis using lk unfolding P by (auto simp: te links_only_def)
qed

section \<open>The assertions\<close>

lemma pp_for_rule:
  assumes "chain (\<lambda>p. pp_link (pages s p)) pp ps" and "I [] c s"
    and "\<And>ys p zs c u. ps = ys @ p # zs \<Longrightarrow> I ys c u \<Longrightarrow> \<exists>d t. body p c u = Ret d t \<and> I (ys @ [p]) d t \<and> pages t = pages u"
  shows "\<exists>d t. pp_for body pp c s = Some (Ret d t) \<and> I ps d t"
proof -
  have "\<exists>d t. pp_for body pp c s = Some (Ret d t) \<and> I ps d t"
    if "ps = ys @ zs" "chain (\<lambda>p. pp_link (pages s p)) pp zs" "I ys c s" for ys zs pp c s
    using that
  proof (induction zs arbitrary: ys pp c s)
    case Nil
    then show ?case by (subst pp_for.simps) simp
  next
    case (Cons p zs)
    obtain d t where st: "body p c s = Ret d t" "I (ys @ [p]) d t" "pages t = pages s"
      using assms(3) [OF Cons.prems(1,3)] by blast
    from Cons.IH [of "ys @ [p]" t "pp_link (pages t p)" d] Cons.prems st
    obtain e u where "pp_for body (pp_link (pages t p)) d t = Some (Ret e u)" "I ps e u" by auto
    then show ?case using Cons.prems(2) st(1) by (subst pp_for.simps) auto
  qed
  from this [of "[]" ps s pp c] assms(1,2) show ?thesis by simp
qed

definition phys_only :: "u32 set \<Rightarrow> kstate \<Rightarrow> kstate \<Rightarrow> bool" where
  "phys_only A s t \<longleftrightarrow> (\<exists>m. t = s\<lparr>phys := m\<rparr>) \<and> (\<forall>q. unat q < 0x10000 \<longrightarrow> q \<notin> A \<longrightarrow> same_words q s t)"

lemma phys_only_trans: "phys_only A s t \<Longrightarrow> phys_only B t u \<Longrightarrow> phys_only (A \<union> B) s u"
  by (auto simp: phys_only_def same_words_def)

lemma phys_only_kstore:
  assumes "unat p < 0x10000" and "unat i < 1024"
  shows "phys_only {p} s (kstore (kva p i) v s)"
proof -
  have "\<exists>m. kstore (kva p i) v s = s\<lparr>phys := m\<rparr>" by (auto simp: kops)
  moreover have "same_words q s (kstore (kva p i) v s)" if "unat q < 0x10000" "q \<noteq> p" for q
    using kload_kstore_kva [OF assms that(1)] that(2) by (auto simp: same_words_def)
  ultimately show ?thesis by (simp add: phys_only_def)
qed

lemma poison_stores:
  assumes "unat p < 0x10000" and "set is \<subseteq> {0..<32}"
  shows "phys_only {p} s (fold (\<lambda>i. kstore (kva p 0 + 4 * of_nat i) v) is s)"
  using assms(2)
proof (induction "is" arbitrary: s)
  case Nil
  then show ?case by (auto simp: phys_only_def intro: exI [of _ "phys s"])
next
  case (Cons i "is")
  have a: "kva p 0 + 4 * of_nat i = kva p (of_nat i)" and i: "unat (of_nat i :: u32) < 1024"
    using Cons.prems by (simp_all add: kva_def unsigned_of_nat take_bit_nat_eq_self)
  then show ?case using phys_only_trans [OF phys_only_kstore [OF assms(1) i] Cons.IH] Cons.prems by simp
qed

lemma poison_ok:
  assumes "free_ok fl s"
  shows "\<exists>t. pp_for (poison lim) (page_free_list s) () s = Some (Ret () t) \<and> phys_only (set fl) s t"
proof -
  have ch: "chain (\<lambda>p. pp_link (pages s p)) (page_free_list s) fl" and np: "npages_ok s"
    using assms by (simp_all add: free_ok_def pl.elems_def)
  let ?I = "\<lambda>ys (c :: unit) t. phys_only (set ys) s t"
  have step: "\<exists>d t. poison lim p c u = Ret d t \<and> ?I (ys @ [p]) d t \<and> pages t = pages u" if sp: "fl = ys @ p # zs" and I: "?I ys c u" for ys p zs c u
  proof -
    have p: "p < npages s" using assms sp by (auto simp: free_ok_def)
    have pb: "unat p < 0x10000" by (rule page_bound [OF np p])
    obtain m where u: "u = s\<lparr>phys := m\<rparr>" using I by (auto simp: phys_only_def)
    define t where "t = fold (\<lambda>i. kstore (kva p 0 + 4 * of_nat i) 0x97979797) [0..<32] u"
    have ps: "phys_only {p} u t" unfolding t_def by (rule poison_stores [OF pb]) auto
    then obtain m' where t: "t = u\<lparr>phys := m'\<rparr>" by (auto simp: phys_only_def)
    have k: "page2kva p u = Ret (kva p 0) u"
      using p pb by (simp add: page2kva_def KADDR_def u PGNUM_page2pa kva_def)
    have "phys_only (set (ys @ [p])) s t" using phys_only_trans [OF I ps] by simp
    moreover have "phys_only (set (ys @ [p])) s u" using I by (auto simp: phys_only_def)
    moreover have "poison lim p c u = (if low_page lim p then Ret () t else Ret () u)" using k by (simp add: poison_def t_def)
    ultimately show ?thesis by (auto simp: t)
  qed
  have "?I [] () s" by (auto simp: phys_only_def intro: exI [of _ "phys s"])
  from pp_for_rule [OF ch, of ?I, OF this step] show ?thesis by auto
qed

text \<open>What the assertions demand of a page of the list.\<close>

definition page_checked :: "u32 \<Rightarrow> u32 \<Rightarrow> bool" where
  "page_checked first_free_page p \<longleftrightarrow>
     page2pa p \<notin> {0, IOPHYSMEM, EXTPHYSMEM - PGSIZE, EXTPHYSMEM, MPENTRY_PADDR} \<and>
     (page2pa p < EXTPHYSMEM \<or> first_free_page \<le> kva p 0)"

abbreviation base_page :: "u32 \<Rightarrow> bool" where
  "base_page p \<equiv> page2pa p < EXTPHYSMEM"

lemma asserts_ok:
  assumes "free_ok fl s" and "\<forall>p \<in> set fl. page_checked ff p"
  shows "pp_for (assert_page ff) (page_free_list s) (0, 0) s =
    Some (Ret (int (length (filter base_page fl)), int (length (filter (\<lambda>p. \<not> base_page p) fl))) s)"
proof -
  have ch: "chain (\<lambda>p. pp_link (pages s p)) (page_free_list s) fl" and np: "npages_ok s"
    using assms by (simp_all add: free_ok_def pl.elems_def)
  let ?I = "\<lambda>ys c t. t = s \<and> c = (int (length (filter base_page ys)), int (length (filter (\<lambda>p. \<not> base_page p) ys)))"
  have step: "\<exists>d t. assert_page ff p c u = Ret d t \<and> ?I (ys @ [p]) d t \<and> pages t = pages u"
    if sp: "fl = ys @ p # zs" and I: "?I ys c u" for ys p zs c u
  proof -
    have p: "p < npages s" "page_checked ff p" using assms sp by (auto simp: free_ok_def)
    have "page2kva p s = Ret (kva p 0) s"
      using p(1) page_bound [OF np p(1)] by (simp add: page2kva_def KADDR_def PGNUM_page2pa kva_def)
    then show ?thesis using p I by (auto simp: assert_page_def page_checked_def)
  qed
  from pp_for_rule [OF ch, of ?I, OF _ step] show ?thesis by auto
qed

section \<open>The whole check\<close>

text \<open>What the steps of booting leave alone.\<close>

definition boot_frame :: "kstate \<Rightarrow> kstate \<Rightarrow> bool" where
  "boot_frame s t \<longleftrightarrow> npages t = npages s \<and> kern_pgdir t = kern_pgdir s \<and> nextfree t = nextfree s \<and> envs t = envs s \<and>
     cpus t = cpus s \<and> cpunum t = cpunum s \<and> cons t = cons s \<and> mmio_base t = mmio_base s \<and> cr3 t = cr3 s"

lemma boot_frame_trans: "boot_frame s t \<Longrightarrow> boot_frame t u \<Longrightarrow> boot_frame s u"
  by (simp add: boot_frame_def)

lemma boot_frame_vm_only: "vm_only s t \<Longrightarrow> boot_frame s t"
  by (simp add: boot_frame_def vm_only_def)

lemma kprintf_boot_frame: "boot_frame s (kprintf f a s)"
  by (simp add: boot_frame_def kprintf_def kops)

lemma check_page_free_list_ok:
  assumes "free_ok fl s" and "\<forall>p \<in> set fl. page_checked (nextfree s) p" and "nextfree s \<noteq> 0"
    and "ROUNDUP (nextfree s) PGSIZE = nextfree s" and "\<exists>p \<in> set fl. base_page p" and "\<exists>p \<in> set fl. \<not> base_page p"
    and "gl = (if low then filter (low_page 1) fl @ filter (\<lambda>p. \<not> low_page 1 p) fl else fl)"
  shows "\<exists>t. check_page_free_list e low s = Some (Ret () t) \<and> free_ok gl t \<and>
    (\<forall>p. pp_ref (pages t p) = pp_ref (pages s p)) \<and> boot_frame s t \<and>
    (\<forall>q. unat q < 0x10000 \<longrightarrow> q \<notin> set fl \<longrightarrow> same_words q s t)"
proof -
  let ?lim = "if low then 1 else 1024 :: u32"
  have gl: "set gl = set fl" using assms(7) by auto
  have "fl \<noteq> []" using assms(5) by auto
  then have ne: "page_free_list s \<noteq> None" using assms(1) by (cases fl) (auto simp: free_ok_def pl.elems_def)
  obtain P h where r: "(if low then move_low_pages ?lim s else Some (Ret () s)) = Some (Ret () (s\<lparr>pages := P, page_free_list := h\<rparr>))"
    "free_ok gl (s\<lparr>pages := P, page_free_list := h\<rparr>)" "\<forall>p. pp_ref (P p) = pp_ref (pages s p)"
  proof (cases low)
    case True
    then show ?thesis using move_low_pages_ok [OF assms(1), of 1] assms(7) that by auto
  next
    case False
    then show ?thesis using that [of "page_free_list s" "pages s"] assms(1,7) by simp
  qed
  let ?r = "s\<lparr>pages := P, page_free_list := h\<rparr>"
  obtain u where u: "pp_for (poison ?lim) (page_free_list ?r) () ?r = Some (Ret () u)" "phys_only (set gl) ?r u"
    using poison_ok [OF r(2)] by blast
  then obtain m where m: "u = ?r\<lparr>phys := m\<rparr>" by (auto simp: phys_only_def)
  have fu: "free_ok gl u" using r(2) by (simp add: m free_ok_def pl.elems_def npages_ok_def)
  have ba: "boot_alloc e 0 u = (nextfree s, u)" using assms(3,4) by (simp add: boot_alloc_def m)
  have chk: "\<forall>p \<in> set gl. page_checked (nextfree s) p" using assms(2) gl by simp
  have pos: "0 < length (filter base_page gl)" "0 < length (filter (\<lambda>p. \<not> base_page p) gl)"
    using assms(5,6) gl by (simp_all only: length_greater_0_conv filter_empty_conv) auto
  define t where "t = kprintf (''check_page_free_list() succeeded!'' @ newline) [] u"
  have "check_page_free_list e low s = Some (Ret () t)"
    using ne r(1) u(1) ba asserts_ok [OF fu chk] pos by (simp add: check_page_free_list_def t_def Let_def)
  moreover have "free_ok gl t" using fu by (simp add: t_def free_ok_def pl.elems_def npages_ok_def)
  moreover have "same_words q s t" if "unat q < 0x10000" "q \<notin> set fl" for q
  proof -
    have "same_words q ?r u" using u(2) that gl by (simp add: phys_only_def)
    then have "same_words q s u" using same_words_phys [of ?r s q] by (simp add: same_words_def)
    then show ?thesis using same_words_phys [of t u q] by (simp add: t_def same_words_def)
  qed
  moreover have "boot_frame s t"
    unfolding t_def by (rule boot_frame_trans [OF _ kprintf_boot_frame]) (simp add: boot_frame_def m)
  ultimately show ?thesis using r(3) by (auto simp: t_def m)
qed

end
