(* ===== verification/Boot_Map.thy ===== *)
theory Boot_Map
  imports Free_Check
begin

text \<open>
  Building the kernel's own page tables: \<open>boot_map_region\<close> on the directory that \<open>mem_init\<close> fills.
  The entry of \<open>UVPT\<close> maps the directory onto itself and is never walked.
\<close>

section \<open>The directory while it is built\<close>

definition boot_inv :: "u32 \<Rightarrow> u32 list \<Rightarrow> kstate \<Rightarrow> bool" where
  "boot_inv k fl s \<longleftrightarrow> free_ok fl s \<and> k < npages s \<and> k \<notin> set fl \<and>
     (\<forall>p. p < npages s \<longrightarrow> pp_ref (pages s p) = 0 \<longrightarrow> p \<in> set fl) \<and>
     (\<forall>i. unat i < 1024 \<longrightarrow> i \<noteq> PDX UVPT \<longrightarrow> flag (pde s k i) PTE_P \<longrightarrow>
        PGNUM (pde s k i) < npages s \<and> PGNUM (pde s k i) \<notin> set fl \<and> PGNUM (pde s k i) \<noteq> k) \<and>
     (\<forall>i j. unat i < 1024 \<longrightarrow> i \<noteq> PDX UVPT \<longrightarrow> flag (pde s k i) PTE_P \<longrightarrow>
        unat j < 1024 \<longrightarrow> j \<noteq> PDX UVPT \<longrightarrow> flag (pde s k j) PTE_P \<longrightarrow>
        PGNUM (pde s k i) = PGNUM (pde s k j) \<longrightarrow> i = j)"

lemma boot_invD:
  assumes "boot_inv k fl s"
  shows "free_ok fl s" and "npages_ok s" and "k < npages s" and "k \<notin> set fl" and "unat k < 0x10000"
    and "unat i < 1024 \<Longrightarrow> i \<noteq> PDX UVPT \<Longrightarrow> flag (pde s k i) PTE_P \<Longrightarrow> PGNUM (pde s k i) < npages s"
    and "unat i < 1024 \<Longrightarrow> i \<noteq> PDX UVPT \<Longrightarrow> flag (pde s k i) PTE_P \<Longrightarrow> PGNUM (pde s k i) \<notin> set fl"
    and "unat i < 1024 \<Longrightarrow> i \<noteq> PDX UVPT \<Longrightarrow> flag (pde s k i) PTE_P \<Longrightarrow> PGNUM (pde s k i) \<noteq> k"
    and "unat i < 1024 \<Longrightarrow> i \<noteq> PDX UVPT \<Longrightarrow> flag (pde s k i) PTE_P \<Longrightarrow> unat (PGNUM (pde s k i)) < 0x10000"
    and "unat i < 1024 \<Longrightarrow> i \<noteq> PDX UVPT \<Longrightarrow> flag (pde s k i) PTE_P \<Longrightarrow>
       unat j < 1024 \<Longrightarrow> j \<noteq> PDX UVPT \<Longrightarrow> flag (pde s k j) PTE_P \<Longrightarrow> PGNUM (pde s k i) = PGNUM (pde s k j) \<Longrightarrow> i = j"
proof -
  show "free_ok fl s" "k < npages s" "k \<notin> set fl" using assms by (simp_all add: boot_inv_def)
  then show np: "npages_ok s" by (simp add: free_ok_def)
  show "unat k < 0x10000" by (rule page_bound [OF np]) (use assms in \<open>simp add: boot_inv_def\<close>)
  show "unat i < 1024 \<Longrightarrow> i \<noteq> PDX UVPT \<Longrightarrow> flag (pde s k i) PTE_P \<Longrightarrow> PGNUM (pde s k i) < npages s"
    "unat i < 1024 \<Longrightarrow> i \<noteq> PDX UVPT \<Longrightarrow> flag (pde s k i) PTE_P \<Longrightarrow> PGNUM (pde s k i) \<notin> set fl"
    "unat i < 1024 \<Longrightarrow> i \<noteq> PDX UVPT \<Longrightarrow> flag (pde s k i) PTE_P \<Longrightarrow> PGNUM (pde s k i) \<noteq> k"
    "unat i < 1024 \<Longrightarrow> i \<noteq> PDX UVPT \<Longrightarrow> flag (pde s k i) PTE_P \<Longrightarrow>
       unat j < 1024 \<Longrightarrow> j \<noteq> PDX UVPT \<Longrightarrow> flag (pde s k j) PTE_P \<Longrightarrow> PGNUM (pde s k i) = PGNUM (pde s k j) \<Longrightarrow> i = j"
    using assms by (simp_all add: boot_inv_def)
  then show "unat i < 1024 \<Longrightarrow> i \<noteq> PDX UVPT \<Longrightarrow> flag (pde s k i) PTE_P \<Longrightarrow> unat (PGNUM (pde s k i)) < 0x10000"
    by (intro page_bound [OF np])
qed

lemma boot_walk_present:
  assumes "boot_inv k fl s" and "PDX va \<noteq> PDX UVPT" and "flag (pde s k (PDX va)) PTE_P"
  shows "pgdir_walk (kva k 0) va True s = Ret (Some (kva (PGNUM (pde s k (PDX va))) (PTX va))) s"
proof -
  have "PGNUM (pde s k (PDX va)) < npages s" by (rule boot_invD(6) [OF assms(1) PDX_less assms(2,3)])
  then have "KADDR (PTE_ADDR (pde s k (PDX va))) s = Ret (kva (PGNUM (pde s k (PDX va))) 0) s"
    by (simp add: KADDR_def kva_def page2pa_PGNUM PTE_ADDR_PGNUM PGNUM_push12 PGNUM_less page2pa_def)
  with assms(3) show ?thesis by (simp add: pgdir_walk_def pde_def)
qed

lemma boot_walk_absent:
  assumes "boot_inv k (z # fl) s" and "PDX va \<noteq> PDX UVPT" and "\<not> flag (pde s k (PDX va)) PTE_P"
  shows "pgdir_walk (kva k 0) va True s = Ret (Some (kva z (PTX va))) (walk_state k va z s)"
    and "boot_inv k fl (walk_state k va z s)" and "vm_only s (walk_state k va z s)"
    and "unat i < 1024 \<Longrightarrow> pde (walk_state k va z s) k i = (if i = PDX va then page2pa z OR PTE_P OR PTE_U OR PTE_W else pde s k i)"
    and "unat i < 1024 \<Longrightarrow> i \<noteq> PDX UVPT \<Longrightarrow> i \<noteq> PDX va \<Longrightarrow> flag (pde s k i) PTE_P \<Longrightarrow> unat j < 1024 \<Longrightarrow>
       pte (walk_state k va z s) k i j = pte s k i j"
    and "unat j < 1024 \<Longrightarrow> pte (walk_state k va z s) k (PDX va) j = 0"
    and "unat z < 0x10000"
proof -
  let ?t = "walk_state k va z s" and ?v = "page2pa z OR PTE_P OR PTE_U OR PTE_W"
  note I = boot_invD [OF assms(1)]
  have fr: "free_ok (z # fl) s" by (rule I(1))
  note misc = walk_state_misc [OF fr, of k va]
  have z: "z < npages s" "z \<noteq> k" "z \<notin> set fl" "pp_ref (pages s z) = 0"
    using alloc_state_facts [OF fr] I(4) by auto
  show zb: "unat z < 0x10000" by (rule page_bound [OF I(2) z(1)])
  note ld = kload_walk_state [OF fr _ I(5), of _ _ va]
  have v: "flag ?v PTE_P" "PGNUM ?v = z" using zb by (simp_all add: PGNUM_page2pa)
  show pd: "pde ?t k i = (if i = PDX va then ?v else pde s k i)" if "unat i < 1024" for i
    using ld [OF I(5) that] z(2) by (simp add: pde_def)
  show pt: "pte ?t k i j = pte s k i j"
    if "unat i < 1024" "i \<noteq> PDX UVPT" "i \<noteq> PDX va" "flag (pde s k i) PTE_P" "unat j < 1024" for i j
    using ld [OF I(9) [OF that(1,2,4)] that(5)] I(7,8) [OF that(1,2,4)] pd [OF that(1)] that(3) by (auto simp: pte_def)
  show "pte ?t k (PDX va) j = 0" if "unat j < 1024"
    using ld [OF zb that] z(2) pd [OF PDX_less] v by (simp add: pte_def)
  show only: "vm_only s ?t" by (rule misc(1))
  then have np: "npages ?t = npages s" by (simp add: vm_only_def)
  have "PTE_ADDR ?v = page2pa z" using v by (simp add: PTE_ADDR_PGNUM page2pa_def)
  then have "KADDR (PTE_ADDR (kload ?t (kva k (PDX va)))) ?t = Ret (kva z 0) ?t"
    using ld [OF I(5) PDX_less] z(1) zb by (simp add: KADDR_def np PGNUM_page2pa kva_def)
  then show "pgdir_walk (kva k 0) va True s = Ret (Some (kva z (PTX va))) ?t"
    using assms(3) page_alloc_Some [OF fr, of 1] by (simp add: pgdir_walk_def pde_def walk_state_def)
  have tab: "PGNUM (pde ?t k i) = (if i = PDX va then z else PGNUM (pde s k i))"
    "i \<noteq> PDX va \<Longrightarrow> flag (pde ?t k i) PTE_P \<Longrightarrow> flag (pde s k i) PTE_P" if "unat i < 1024" for i
    using pd [OF that] v by auto
  show "boot_inv k fl ?t"
    unfolding boot_inv_def np
  proof (intro conjI allI impI)
    show "free_ok fl ?t" by (rule misc(2))
    show "k < npages s" "k \<notin> set fl" using I(3,4) by auto
    show "p \<in> set fl" if "p < npages s" "pp_ref (pages ?t p) = 0" for p
      using assms(1) that misc(3) [of p] by (auto simp: boot_inv_def split: if_splits)
  next
    fix i assume i: "unat i < 1024" "i \<noteq> PDX UVPT" "flag (pde ?t k i) PTE_P"
    show "PGNUM (pde ?t k i) < npages s" "PGNUM (pde ?t k i) \<notin> set fl" "PGNUM (pde ?t k i) \<noteq> k"
      using tab [OF i(1)] I(6-8) [OF i(1,2)] z i(3) by auto
    fix j assume j: "unat j < 1024" "j \<noteq> PDX UVPT" "flag (pde ?t k j) PTE_P"
      and eq: "PGNUM (pde ?t k i) = PGNUM (pde ?t k j)"
    have "z \<noteq> PGNUM (pde s k x)" if "unat x < 1024" "x \<noteq> PDX UVPT" "flag (pde s k x) PTE_P" for x
      using I(7) [OF that] by auto
    then show "i = j"
      using tab [OF i(1)] tab [OF j(1)] i j eq I(10) [OF i(1,2) _ j(1,2)] by (metis (full_types))
  qed
qed

lemma boot_store:
  assumes "boot_inv k fl s" and "PDX va \<noteq> PDX UVPT" and "flag (pde s k (PDX va)) PTE_P" and "flag x PTE_P"
    and "t = kstore (kva (PGNUM (pde s k (PDX va))) (PTX va)) x s"
  shows "boot_inv k fl t" and "vm_only s t" and "unat i < 1024 \<Longrightarrow> pde t k i = pde s k i"
    and "PDX va' \<noteq> PDX UVPT \<Longrightarrow> vmap t k va' = (if PGNUM va' = PGNUM va then Some x else vmap s k va')"
proof -
  let ?z = "PGNUM (pde s k (PDX va))"
  note I = boot_invD [OF assms(1)]
  have z: "?z \<noteq> k" "unat ?z < 0x10000" by (rule I(8,9) [OF PDX_less assms(2,3)])+
  note ld = kload_kstore_kva [OF z(2) PTX_less, of _ _ va x s, folded assms(5)]
  show only: "vm_only s t" by (simp add: assms(5) vm_only_def kops)
  show pd: "pde t k i = pde s k i" if "unat i < 1024" for i
    using ld [OF I(5) that] z(1) by (simp add: pde_def)
  show "boot_inv k fl t"
  proof -
    have "free_ok fl t" "npages t = npages s" "pages t = pages s" using I(1) by (simp_all add: assms(5) free_ok_kstore)
    then show ?thesis using assms(1) by (simp add: boot_inv_def pd)
  qed
  show "vmap t k va' = (if PGNUM va' = PGNUM va then Some x else vmap s k va')" if va': "PDX va' \<noteq> PDX UVPT"
  proof (cases "flag (pde s k (PDX va')) PTE_P")
    case True
    have "pte t k (PDX va') (PTX va') = (if PDX va' = PDX va \<and> PTX va' = PTX va then x else pte s k (PDX va') (PTX va'))"
      using ld [OF I(9) [OF PDX_less va' True] PTX_less] pd [OF PDX_less]
        I(10) [OF PDX_less assms(2,3) PDX_less va' True] by (auto simp: pte_def)
    then show ?thesis using True assms(4) pd [OF PDX_less] by (auto simp: vmap_def same_page)
  next
    case False
    then have "PGNUM va' \<noteq> PGNUM va" using assms(3) same_page [of va' va] by auto
    then show ?thesis using False pd [OF PDX_less] by (simp add: vmap_def)
  qed
qed

text \<open>
  From \<open>s\<close> to \<open>t\<close>, new entries of the directory point at pages taken from the front of the free
  list, at most \<open>n\<close> of them.
\<close>

definition takes :: "u32 \<Rightarrow> nat \<Rightarrow> u32 list \<Rightarrow> kstate \<Rightarrow> u32 list \<Rightarrow> kstate \<Rightarrow> bool" where
  "takes k n fl s fl' t \<longleftrightarrow> (\<exists>used. fl = used @ fl' \<and> length used \<le> n \<and>
     (\<forall>i. unat i < 1024 \<longrightarrow> pde t k i = pde s k i \<or> PGNUM (pde t k i) \<in> set used))"

lemma takes_same: "(\<And>i. unat i < 1024 \<Longrightarrow> pde t k i = pde s k i) \<Longrightarrow> takes k n fl s fl t"
  unfolding takes_def by (rule exI [of _ "[]"]) simp

lemma takes_trans:
  assumes "takes k m fl s fl1 t" and "takes k n fl1 t fl2 u"
  shows "takes k (m + n) fl s fl2 u"
proof -
  obtain us where us: "fl = us @ fl1" "length us \<le> m" "\<And>i. unat i < 1024 \<Longrightarrow> pde t k i = pde s k i \<or> PGNUM (pde t k i) \<in> set us"
    using assms(1) by (auto simp: takes_def)
  obtain vs where vs: "fl1 = vs @ fl2" "length vs \<le> n" "\<And>i. unat i < 1024 \<Longrightarrow> pde u k i = pde t k i \<or> PGNUM (pde u k i) \<in> set vs"
    using assms(2) by (auto simp: takes_def)
  show ?thesis
    unfolding takes_def
  proof (intro exI [of _ "us @ vs"] conjI allI impI)
    show "pde u k i = pde s k i \<or> PGNUM (pde u k i) \<in> set (us @ vs)" if "unat i < 1024" for i
      using us(3) [OF that] vs(3) [OF that] by auto
  qed (use us vs in auto)
qed

lemma takes_length: "takes k n fl s fl' t \<Longrightarrow> length fl \<le> length fl' + n"
  by (auto simp: takes_def)

text \<open>One iteration of the loop of \<open>boot_map_region\<close>.\<close>

lemma boot_map_step:
  assumes "boot_inv k fl s" and "PDX va \<noteq> PDX UVPT" and "flag x PTE_P"
    and "flag (pde s k (PDX va)) PTE_P \<or> fl \<noteq> []"
  shows "\<exists>a t u fl'. pgdir_walk (kva k 0) va True s = Ret (Some a) u \<and> t = kstore a x u \<and>
    boot_inv k fl' t \<and> vm_only s t \<and> takes k (if flag (pde s k (PDX va)) PTE_P then 0 else 1) fl s fl' t \<and>
    (\<forall>i. unat i < 1024 \<longrightarrow> flag (pde t k i) PTE_P = (i = PDX va \<or> flag (pde s k i) PTE_P)) \<and>
    pde t k (PDX UVPT) = pde s k (PDX UVPT) \<and>
    (\<forall>va'. PDX va' \<noteq> PDX UVPT \<longrightarrow> vmap t k va' = (if PGNUM va' = PGNUM va then Some x else vmap s k va'))"
proof (cases "flag (pde s k (PDX va)) PTE_P")
  case True
  note st = boot_store [OF assms(1,2) True assms(3) refl]
  show ?thesis
    by (rule exI, rule exI, rule exI, rule exI, rule conjI [OF boot_walk_present [OF assms(1,2) True] conjI [OF refl conjI [OF st(1) conjI [OF st(2)]]]])
      (use True st(3) [OF PDX_less] st(3) st(4) takes_same [OF st(3)] in auto)
next
  case False
  then obtain z gl where fl: "fl = z # gl" using assms(4) by (cases fl) auto
  note ab = boot_walk_absent [OF assms(1) [unfolded fl] assms(2) False]
  let ?u = "walk_state k va z s"
  have here: "flag (pde ?u k (PDX va)) PTE_P" "PGNUM (pde ?u k (PDX va)) = z"
    using ab(4) [OF PDX_less] ab(7) by (simp_all add: PGNUM_page2pa)
  note st = boot_store [OF ab(2) assms(2) here(1) assms(3) refl, unfolded here(2)]
  have old: "vmap ?u k va' = vmap s k va'" if "PDX va' \<noteq> PDX UVPT" for va'
    using ab(4) [OF PDX_less, of va'] ab(5) [OF PDX_less that, of _ ] ab(6) [OF PTX_less, of va'] False PTX_less [of va']
    by (cases "PDX va' = PDX va") (auto simp: vmap_def)
  show ?thesis
  proof (rule exI, rule exI, rule exI, rule exI, rule conjI [OF ab(1) conjI [OF refl conjI [OF st(1)]]], intro conjI allI impI)
    show "vm_only s (kstore (kva z (PTX va)) x ?u)" by (rule vm_only_trans [OF ab(3) st(2)])
    have "pde (kstore (kva z (PTX va)) x ?u) k i = pde s k i \<or> PGNUM (pde (kstore (kva z (PTX va)) x ?u) k i) = z" if "unat i < 1024" for i
      using st(3) [OF that] ab(4) [OF that] ab(7) by (simp add: PGNUM_page2pa)
    then show "takes k (if flag (pde s k (PDX va)) PTE_P then 0 else 1) fl s gl (kstore (kva z (PTX va)) x ?u)"
      using False unfolding takes_def by (intro exI [of _ "[z]"]) (auto simp: fl)
    show "flag (pde (kstore (kva z (PTX va)) x ?u) k i) PTE_P \<longleftrightarrow> i = PDX va \<or> flag (pde s k i) PTE_P" if "unat i < 1024" for i
      using st(3) [OF that] ab(4) [OF that] by auto
    show "pde (kstore (kva z (PTX va)) x ?u) k (PDX UVPT) = pde s k (PDX UVPT)"
      using st(3) [OF PDX_less] ab(4) [OF PDX_less, of UVPT] assms(2) by simp
    show "vmap (kstore (kva z (PTX va)) x ?u) k va' = (if PGNUM va' = PGNUM va then Some x else vmap s k va')"
      if "PDX va' \<noteq> PDX UVPT" for va'
      using st(4) [OF that] old [OF that] by simp
  qed
qed

section \<open>boot_map_region\<close>

text \<open>Tables that the loop still has to create, and the pages it maps.\<close>

definition region_dirs :: "u32 \<Rightarrow> nat \<Rightarrow> u32 set" where
  "region_dirs va n = (\<lambda>i. PDX (va + of_nat i * PGSIZE)) ` {0..<n}"

definition missing :: "u32 \<Rightarrow> kstate \<Rightarrow> u32 set \<Rightarrow> nat" where
  "missing k s I = card {i \<in> I. \<not> flag (pde s k i) PTE_P}"

definition region_page :: "u32 \<Rightarrow> nat \<Rightarrow> u32 \<Rightarrow> nat option" where
  "region_page va n va' =
     (if unat (PGNUM va) \<le> unat (PGNUM va') \<and> unat (PGNUM va') < unat (PGNUM va) + n
      then Some (unat (PGNUM va') - unat (PGNUM va)) else None)"

definition map_region :: "u32 \<Rightarrow> nat \<Rightarrow> u32 \<Rightarrow> u32 \<Rightarrow> (u32 \<Rightarrow> u32 option) \<Rightarrow> u32 \<Rightarrow> u32 option" where
  "map_region va n pa perm m va' =
     (case region_page va n va' of Some i \<Rightarrow> Some ((pa + of_nat i * PGSIZE) OR PTE_P OR perm) | None \<Rightarrow> m va')"

lemma region_dirs_less: "i \<in> region_dirs va n \<Longrightarrow> unat i < 1024"
  unfolding region_dirs_def by (erule imageE, hypsubst, rule PDX_less)

lemma region_dirs_finite: "finite (region_dirs va n)"
  unfolding region_dirs_def by (rule finite_imageI, rule finite_atLeastLessThan)

lemma region_dirs_Suc: "region_dirs va (Suc n) = insert (PDX va) (region_dirs (va + PGSIZE) n)"
proof -
  have "{0..<Suc n} = insert 0 (Suc ` {0..<n})" by (metis atLeast0_lessThan_Suc_eq_insert_0 atLeast0LessThan)
  then show ?thesis by (simp add: region_dirs_def image_image algebra_simps del: image_Suc_atLeastLessThan)
qed

lemma region_page_Suc:
  assumes "unat va + Suc n * 4096 \<le> 2 ^ 32"
  shows "region_page va (Suc n) va' = (if PGNUM va' = PGNUM va then Some 0 else map_option Suc (region_page (va + PGSIZE) n va'))"
    and "PGNUM va' = PGNUM va \<Longrightarrow> region_page (va + PGSIZE) n va' = None"
proof -
  have *: "unat (PGNUM (va + PGSIZE)) = Suc (unat (PGNUM va))" if "0 < n"
  proof -
    have "unat (va + PGSIZE) = unat va + 4096" using assms that by (simp add: PGSIZE_def unat_add_word)
    then show ?thesis by (simp add: unat_PGNUM)
  qed
  show "region_page va (Suc n) va' = (if PGNUM va' = PGNUM va then Some 0 else map_option Suc (region_page (va + PGSIZE) n va'))"
    using * by (cases "n = 0") (auto simp: region_page_def word_unat_eq_iff)
  show "PGNUM va' = PGNUM va \<Longrightarrow> region_page (va + PGSIZE) n va' = None"
    using * by (cases "n = 0") (auto simp: region_page_def)
qed

lemma missing_insert:
  assumes "\<And>i. i \<in> insert d I \<Longrightarrow> flag (pde t k i) PTE_P \<longleftrightarrow> i = d \<or> flag (pde s k i) PTE_P" and "finite I"
  shows "missing k t I + (if flag (pde s k d) PTE_P then 0 else 1) = missing k s (insert d I)"
proof -
  let ?A = "{i \<in> I. \<not> flag (pde t k i) PTE_P}" and ?B = "{i \<in> insert d I. \<not> flag (pde s k i) PTE_P}"
  have "?B = (if flag (pde s k d) PTE_P then ?A else insert d ?A)" and "d \<notin> ?A" using assms(1) by auto
  then show ?thesis using assms(2) by (simp add: missing_def)
qed

lemma boot_map_loop_ok:
  assumes "boot_inv k fl s" and "unat va + n * 4096 \<le> 2 ^ 32" and "PDX UVPT \<notin> region_dirs va n"
    and "missing k s (region_dirs va n) \<le> length fl"
  shows "\<exists>t fl'. boot_map_loop n (kva k 0) va pa perm s = Ret () t \<and> boot_inv k fl' t \<and> vm_only s t \<and>
    takes k (missing k s (region_dirs va n)) fl s fl' t \<and>
    (\<forall>i. unat i < 1024 \<longrightarrow> flag (pde t k i) PTE_P = (i \<in> region_dirs va n \<or> flag (pde s k i) PTE_P)) \<and>
    pde t k (PDX UVPT) = pde s k (PDX UVPT) \<and>
    (\<forall>va'. PDX va' \<noteq> PDX UVPT \<longrightarrow> vmap t k va' = map_region va n pa perm (vmap s k) va')"
  using assms
proof (induction n arbitrary: va pa s fl)
  case 0
  then show ?case by (auto simp: region_dirs_def map_region_def region_page_def missing_def vm_only_refl intro: takes_same)
next
  case (Suc n)
  let ?I = "region_dirs (va + PGSIZE) n"
  have dirs: "region_dirs va (Suc n) = insert (PDX va) ?I" by (rule region_dirs_Suc)
  note fin = region_dirs_finite [of "va + PGSIZE" n] and small = region_dirs_less [of _ "va + PGSIZE" n]
  have ne: "PDX va \<noteq> PDX UVPT" "PDX UVPT \<notin> ?I" using Suc.prems(3) unfolding dirs insert_iff by (metis, metis)
  have avail: "flag (pde s k (PDX va)) PTE_P \<or> fl \<noteq> []"
    using Suc.prems(4) fin unfolding dirs missing_def by (auto simp: card_eq_0_iff)
  have fP: "flag (pa OR PTE_P OR perm) PTE_P" by simp
  note step = boot_map_step [OF Suc.prems(1) ne(1) fP avail]
  from step obtain a t1 u fl1 where st: "pgdir_walk (kva k 0) va True s = Ret (Some a) u" "t1 = kstore a (pa OR PTE_P OR perm) u"
    "boot_inv k fl1 t1" "vm_only s t1" "takes k (if flag (pde s k (PDX va)) PTE_P then 0 else 1) fl s fl1 t1"
    and fl6: "\<forall>i. unat i < 1024 \<longrightarrow> flag (pde t1 k i) PTE_P = (i = PDX va \<or> flag (pde s k i) PTE_P)"
    and st7: "pde t1 k (PDX UVPT) = pde s k (PDX UVPT)"
    and vm8: "\<forall>va'. PDX va' \<noteq> PDX UVPT \<longrightarrow> vmap t1 k va' = (if PGNUM va' = PGNUM va then Some (pa OR PTE_P OR perm) else vmap s k va')"
    by blast
  have miss: "missing k t1 ?I + (if flag (pde s k (PDX va)) PTE_P then 0 else 1) = missing k s (region_dirs va (Suc n))"
    unfolding dirs using fl6 small PDX_less by (intro missing_insert [OF _ fin]) auto
  have room: "unat (va + PGSIZE) + n * 4096 \<le> 2 ^ 32"
  proof (cases n)
    case 0
    then show ?thesis using unsigned_less [of "va + PGSIZE", where ?'a = nat] by simp
  next
    case (Suc m)
    then show ?thesis using Suc.prems(2) by (simp add: PGSIZE_def unat_add_word)
  qed
  have "missing k t1 ?I \<le> length fl1" using miss takes_length [OF st(5)] Suc.prems(4) by (auto split: if_splits)
  from Suc.IH [OF st(3) room ne(2) this, of "pa + PGSIZE"]
  obtain t fl' where t: "boot_map_loop n (kva k 0) (va + PGSIZE) (pa + PGSIZE) perm t1 = Ret () t"
    "boot_inv k fl' t" "vm_only t1 t" "takes k (missing k t1 ?I) fl1 t1 fl' t"
    "\<And>i. unat i < 1024 \<Longrightarrow> flag (pde t k i) PTE_P = (i \<in> ?I \<or> flag (pde t1 k i) PTE_P)"
    "pde t k (PDX UVPT) = pde t1 k (PDX UVPT)"
    "\<And>va'. PDX va' \<noteq> PDX UVPT \<Longrightarrow> vmap t k va' = map_region (va + PGSIZE) n (pa + PGSIZE) perm (vmap t1 k) va'"
    by blast
  have "boot_map_loop (Suc n) (kva k 0) va pa perm s = Ret () t" using st(1,2) t(1) by simp
  moreover have "vmap t k va' = map_region va (Suc n) pa perm (vmap s k) va'" if "PDX va' \<noteq> PDX UVPT" for va'
    using t(7) [OF that] vm8 that region_page_Suc [OF Suc.prems(2), of va']
    by (auto simp: map_region_def algebra_simps split: option.splits)
  moreover have "takes k (missing k s (region_dirs va (Suc n))) fl s fl' t"
    using takes_trans [OF st(5) t(4)] miss by (simp add: add.commute)
  ultimately show ?case
    using t(2,6) st7 t(5) fl6 vm_only_trans [OF st(4) t(3)]
    by (intro exI [of _ t] exI [of _ fl']) (auto simp: dirs)
qed

section \<open>Mapping several regions\<close>

text \<open>A region: virtual address, size, physical address and permissions.\<close>

type_synonym region = "u32 \<times> u32 \<times> u32 \<times> u32"

definition region_pages :: "u32 \<Rightarrow> nat" where
  "region_pages sz = unat (if sz mod PGSIZE \<noteq> 0 then sz div PGSIZE + 1 else sz div PGSIZE)"

fun map_of_region :: "region \<Rightarrow> (u32 \<Rightarrow> u32 option) \<Rightarrow> u32 \<Rightarrow> u32 option" where
  "map_of_region (va, sz, pa, perm) m = map_region va (region_pages sz) pa perm m"

text \<open>A region above \<open>UTOP\<close> that neither wraps around nor meets the page tables at \<open>UVPT\<close>.\<close>

fun region_ok :: "region \<Rightarrow> bool" where
  "region_ok (va, sz, pa, perm) \<longleftrightarrow>
     unat UTOP \<le> unat va \<and> 0 < region_pages sz \<and> unat va + region_pages sz * 4096 \<le> 2 ^ 32 \<and>
     (unat va + region_pages sz * 4096 \<le> unat UVPT \<or> unat UVPT + unat PTSIZE \<le> unat va)"

fun region_tables :: "region \<Rightarrow> nat" where
  "region_tables (va, sz, pa, perm) = Suc ((unat va + region_pages sz * 4096 - 1) div 2 ^ 22) - unat va div 2 ^ 22"

fun map_one :: "region \<Rightarrow> kstate \<Rightarrow> (unit, kstate) outcome" where
  "map_one (va, sz, pa, perm) s = boot_map_region (kern_pgdir s) va sz pa perm s"

lemma region_dirs_range:
  assumes "unat va + n * 4096 \<le> 2 ^ 32" and "i \<in> region_dirs va n"
  shows "unat va div 2 ^ 22 \<le> unat i" and "unat i < Suc ((unat va + n * 4096 - 1) div 2 ^ 22)"
proof -
  obtain j where j: "j < n" "i = PDX (va + of_nat j * PGSIZE)" using assms(2) by (auto simp: region_dirs_def)
  have b: "unat va + j * 4096 + 4096 \<le> unat va + n * 4096" using j(1) by simp
  have "unat (of_nat j * PGSIZE :: u32) = j * 4096"
    using b assms(1) by (simp add: PGSIZE_def unat_word_ariths unsigned_of_nat take_bit_nat_eq_self)
  then have "unat (va + of_nat j * PGSIZE) = unat va + j * 4096"
    using b assms(1) by (simp add: unat_word_ariths)
  then have i: "unat i = (unat va + j * 4096) div 2 ^ 22 mod 1024" using j(2) by (simp add: unat_PDX)
  have "(unat va + j * 4096) div 2 ^ 22 < 1024" using b assms(1) by (simp add: div_less_iff_less_mult)
  then have "unat i = (unat va + j * 4096) div 2 ^ 22" using i by simp
  moreover have "(unat va + j * 4096) div 2 ^ 22 \<le> (unat va + n * 4096 - 1) div 2 ^ 22" using b by (intro div_le_mono) simp
  moreover have "unat va div 2 ^ 22 \<le> (unat va + j * 4096) div 2 ^ 22" by (intro div_le_mono) simp
  ultimately show "unat va div 2 ^ 22 \<le> unat i" and "unat i < Suc ((unat va + n * 4096 - 1) div 2 ^ 22)" by simp_all
qed

lemma missing_le:
  assumes "unat va + n * 4096 \<le> 2 ^ 32"
  shows "missing k s (region_dirs va n) \<le> Suc ((unat va + n * 4096 - 1) div 2 ^ 22) - unat va div 2 ^ 22"
proof -
  let ?J = "{unat va div 2 ^ 22..<Suc ((unat va + n * 4096 - 1) div 2 ^ 22)}"
  have "missing k s (region_dirs va n) \<le> card (region_dirs va n)"
    unfolding missing_def by (rule card_mono [OF region_dirs_finite]) auto
  also have "\<dots> = card (unat ` region_dirs va n)" by (rule card_image [symmetric]) (simp add: inj_on_def word_unat_eq_iff)
  also have "\<dots> \<le> card ?J" by (rule card_mono) (use region_dirs_range [OF assms] in auto)
  finally show ?thesis by simp
qed

lemma map_one_ok:
  assumes "boot_inv k fl s" and "kern_pgdir s = kva k 0" and "region_ok r" and "region_tables r \<le> length fl"
  shows "\<exists>t fl'. map_one r s = Ret () t \<and> boot_inv k fl' t \<and> vm_only s t \<and> takes k (region_tables r) fl s fl' t \<and>
    (\<forall>i. unat i < 955 \<longrightarrow> flag (pde t k i) PTE_P = flag (pde s k i) PTE_P) \<and>
    pde t k (PDX UVPT) = pde s k (PDX UVPT) \<and> (\<forall>va'. PDX va' \<noteq> PDX UVPT \<longrightarrow> vmap t k va' = map_of_region r (vmap s k) va')"
proof -
  obtain va sz pa perm where r: "r = (va, sz, pa, perm)" by (cases r)
  let ?n = "region_pages sz"
  have ok: "unat UTOP \<le> unat va" "0 < ?n" "unat va + ?n * 4096 \<le> 2 ^ 32"
    "unat va + ?n * 4096 \<le> unat UVPT \<or> unat UVPT + unat PTSIZE \<le> unat va" using assms(3) by (auto simp: r)
  note rng = region_dirs_range [OF ok(3)]
  have uv: "PDX UVPT \<notin> region_dirs va ?n"
  proof
    assume "PDX UVPT \<in> region_dirs va ?n"
    from rng [OF this] ok(2,4) show False by (auto simp: unat_PDX jos_consts)
  qed
  have le: "missing k s (region_dirs va ?n) \<le> region_tables r" using missing_le [OF ok(3)] by (simp add: r)
  then have "missing k s (region_dirs va ?n) \<le> length fl" using assms(4) by simp
  from boot_map_loop_ok [OF assms(1) ok(3) uv this, of pa perm]
  obtain t fl' where t: "boot_map_loop ?n (kva k 0) va pa perm s = Ret () t" "boot_inv k fl' t" "vm_only s t"
    "takes k (missing k s (region_dirs va ?n)) fl s fl' t"
    "\<forall>i. unat i < 1024 \<longrightarrow> flag (pde t k i) PTE_P = (i \<in> region_dirs va ?n \<or> flag (pde s k i) PTE_P)"
    "pde t k (PDX UVPT) = pde s k (PDX UVPT)"
    "\<forall>va'. PDX va' \<noteq> PDX UVPT \<longrightarrow> vmap t k va' = map_region va ?n pa perm (vmap s k) va'" by blast
  have "map_one r s = Ret () t" using t(1) assms(2) by (simp add: r boot_map_region_def region_pages_def Let_def)
  moreover have "takes k (region_tables r) fl s fl' t" using t(4) le by (auto simp: takes_def)
  moreover have "flag (pde t k i) PTE_P = flag (pde s k i) PTE_P" if i: "unat i < 955" for i
  proof -
    have "i \<notin> region_dirs va ?n" using rng(1) [of i] ok(1) i by (auto simp: jos_consts)
    moreover have "unat i < 1024" using i by simp
    ultimately show ?thesis using t(5) by blast
  qed
  ultimately show ?thesis using t(2,3,6,7) unfolding r map_of_region.simps by blast
qed

lemma fold_map_of_region:
  "m va' = m' va' \<Longrightarrow> fold map_of_region rs m va' = fold map_of_region rs m' va'"
proof (induction rs arbitrary: m m')
  case (Cons x xs)
  have "map_of_region x m va' = map_of_region x m' va'"
    using Cons.prems by (cases x) (simp add: map_region_def split: option.splits)
  from Cons.IH [of "map_of_region x m" "map_of_region x m'", OF this] show ?case by (simp only: fold_Cons comp_apply)
qed simp

lemma map_regions_ok:
  assumes "boot_inv k fl s" and "kern_pgdir s = kva k 0" and "\<forall>r \<in> set rs. region_ok r"
    and "sum_list (map region_tables rs) \<le> length fl"
  shows "\<exists>t fl'. kfor map_one rs s = Ret () t \<and> boot_inv k fl' t \<and> vm_only s t \<and>
    takes k (sum_list (map region_tables rs)) fl s fl' t \<and>
    (\<forall>i. unat i < 955 \<longrightarrow> flag (pde t k i) PTE_P = flag (pde s k i) PTE_P) \<and>
    pde t k (PDX UVPT) = pde s k (PDX UVPT) \<and>
    (\<forall>va'. PDX va' \<noteq> PDX UVPT \<longrightarrow> vmap t k va' = fold map_of_region rs (vmap s k) va')"
  using assms
proof (induction rs arbitrary: s fl)
  case Nil
  then show ?case by (auto intro: takes_same)
next
  case (Cons r rs)
  have "region_ok r" "region_tables r \<le> length fl" using Cons.prems(3,4) by auto
  from map_one_ok [OF Cons.prems(1,2) this]
  obtain t fl1 where t: "map_one r s = Ret () t" "boot_inv k fl1 t" "vm_only s t" "takes k (region_tables r) fl s fl1 t"
    "\<forall>i. unat i < 955 \<longrightarrow> flag (pde t k i) PTE_P = flag (pde s k i) PTE_P" "pde t k (PDX UVPT) = pde s k (PDX UVPT)"
    "\<forall>va'. PDX va' \<noteq> PDX UVPT \<longrightarrow> vmap t k va' = map_of_region r (vmap s k) va'" by blast
  have "kern_pgdir t = kva k 0" using t(3) Cons.prems(2) by (simp add: vm_only_def)
  moreover have "sum_list (map region_tables rs) \<le> length fl1" using takes_length [OF t(4)] Cons.prems(4) by simp
  ultimately obtain u fl2 where u: "kfor map_one rs t = Ret () u" "boot_inv k fl2 u" "vm_only t u"
    "takes k (sum_list (map region_tables rs)) fl1 t fl2 u"
    "\<forall>i. unat i < 955 \<longrightarrow> flag (pde u k i) PTE_P = flag (pde t k i) PTE_P" "pde u k (PDX UVPT) = pde t k (PDX UVPT)"
    "\<forall>va'. PDX va' \<noteq> PDX UVPT \<longrightarrow> vmap u k va' = fold map_of_region rs (vmap t k) va'"
    using Cons.IH [OF t(2)] Cons.prems(3) by auto
  have "fold map_of_region rs (vmap t k) va' = fold map_of_region rs (map_of_region r (vmap s k)) va'"
    if "PDX va' \<noteq> PDX UVPT" for va' by (rule fold_map_of_region [of "vmap t k"]) (use t(7) that in blast)
  moreover have "takes k (sum_list (map region_tables (r # rs))) fl s fl2 u" using takes_trans [OF t(4) u(4)] by simp
  moreover have "kfor map_one (r # rs) s = Ret () u" using t(1) u(1) by simp
  ultimately show ?case
    using t(5,6) u(2,5,6,7) vm_only_trans [OF t(3) u(3)] by (intro exI [of _ u] exI [of _ fl2]) auto
qed

end
