(* ===== verification/Boot_Spec.thy ===== *)
theory Boot_Spec
  imports Boot_Map
begin

text \<open>
  \<open>mem_init\<close> and \<open>mem_init_mp\<close> of \<^verbatim>\<open>kern/pmap.c\<close>, which set up the kernel's address space, and the
  state they leave: where everything is mapped, and that \<open>env_init\<close> then establishes the invariant
  that system calls and traps keep.  The self-tests \<open>check_page_alloc\<close>, \<open>check_page\<close>,
  \<open>check_kern_pgdir\<close> and \<open>check_page_installed_pgdir\<close>, and the flags set in \<open>cr0\<close>, are left out;
  \<open>check_page_free_list\<close>, on whose reordering of the free list the boot depends, is not.
\<close>

section \<open>The functions\<close>

text \<open>\<open>kstacks_at\<close> is the address of \<open>percpu_kstacks\<close>, \<open>bootstack\<close> that of the boot stack.\<close>

definition mem_init_mp :: "u32 \<Rightarrow> kstate \<Rightarrow> (unit, kstate) outcome" where
  "mem_init_mp kstacks_at s =
     kfor (\<lambda>i s. kbind (PADDR (kstacks_at + of_nat i * KSTKSIZE) s) (\<lambda>pa s.
         boot_map_region (kern_pgdir s) (KSTACKTOP - KSTKSIZE - of_nat i * (KSTKSIZE + KSTKGAP)) KSTKSIZE pa PTE_W s))
       [0..<NCPU] s"

text \<open>The mappings that \<open>mem_init\<close> creates.\<close>

definition map_kernel :: "u32 \<Rightarrow> u32 \<Rightarrow> u32 \<Rightarrow> u32 \<Rightarrow> kstate \<Rightarrow> (unit, kstate) outcome" where
  "map_kernel pages_at envs_at bootstack kstacks_at s =
     kbind (PADDR pages_at s) (\<lambda>pa s.
     kbind (boot_map_region (kern_pgdir s) UPAGES PTSIZE pa (PTE_U OR PTE_P) s) (\<lambda>_ s.
     kbind (PADDR envs_at s) (\<lambda>pa s.
     kbind (boot_map_region (kern_pgdir s) UENVS PTSIZE pa (PTE_U OR PTE_P) s) (\<lambda>_ s.
     kbind (PADDR bootstack s) (\<lambda>pa s.
     kbind (boot_map_region (kern_pgdir s) (KSTACKTOP - KSTKSIZE) KSTKSIZE pa PTE_W s) (\<lambda>_ s.
     kbind (boot_map_region (kern_pgdir s) KERNBASE (0xFFFFFFFF - KERNBASE) 0 PTE_W s) (\<lambda>_ s.
     mem_init_mp kstacks_at s)))))))"

text \<open>
  The result is the pair of the addresses of \<open>pages\<close> (8 bytes each) and \<open>envs\<close> (124 bytes each).
\<close>

definition mem_init ::
  "(u8 \<Rightarrow> u8) \<Rightarrow> u32 \<Rightarrow> u32 \<Rightarrow> u32 \<Rightarrow> kstate \<Rightarrow> (u32 \<times> u32, kstate) outcome option" where
  "mem_init cmos end_sym bootstack kstacks_at s =
     (let s = i386_detect_memory cmos s;
          (dir, s) = boot_alloc end_sym PGSIZE s;
          s = kzero_page dir (s\<lparr>kern_pgdir := dir\<rparr>)
      in obind (Some (PADDR (kern_pgdir s) s)) (\<lambda>pa s.
        let s = kstore (kern_pgdir s + 4 * PDX UVPT) (pa OR PTE_U OR PTE_P) s;
            (pages_at, s) = boot_alloc end_sym (8 * npages s) s;
            s = s\<lparr>pages := (\<lambda>p. if p < npages s then zero_page else pages s p)\<rparr>;
            (envs_at, s) = boot_alloc end_sym (of_nat NENV * 124) s;
            s = s\<lparr>envs := (\<lambda>e. if e < NENV then zero_env else envs s e)\<rparr>
        in obind (Some (page_init end_sym s)) (\<lambda>_ s.
           obind (check_page_free_list end_sym True s) (\<lambda>_ s.
           obind (Some (map_kernel pages_at envs_at bootstack kstacks_at s)) (\<lambda>_ s.
           obind (Some (PADDR (kern_pgdir s) s)) (\<lambda>pa s.
           obind (check_page_free_list end_sym False (lcr3 pa s)) (\<lambda>_ s.
           Some (Ret (pages_at, envs_at) s))))))))"

section \<open>The regions\<close>

definition stack_region :: "u32 \<Rightarrow> nat \<Rightarrow> region" where
  "stack_region kstacks_at i =
     (KSTACKTOP - KSTKSIZE - of_nat i * (KSTKSIZE + KSTKGAP), KSTKSIZE, kstacks_at + of_nat i * KSTKSIZE - KERNBASE, PTE_W)"

definition kernel_regions :: "u32 \<Rightarrow> u32 \<Rightarrow> u32 \<Rightarrow> u32 \<Rightarrow> region list" where
  "kernel_regions pages_at envs_at bootstack kstacks_at =
     [(UPAGES, PTSIZE, pages_at - KERNBASE, PTE_U OR PTE_P), (UENVS, PTSIZE, envs_at - KERNBASE, PTE_U OR PTE_P),
      (KSTACKTOP - KSTKSIZE, KSTKSIZE, bootstack - KERNBASE, PTE_W), (KERNBASE, 0xFFFFFFFF - KERNBASE, 0, PTE_W)] @
     map (stack_region kstacks_at) [0..<NCPU]"

lemma kfor_map_cong:
  "(\<And>x s. x \<in> set xs \<Longrightarrow> f x s = g (h x) s) \<Longrightarrow> kfor f xs s = kfor g (map h xs) s"
  by (induction xs arbitrary: s) (auto intro!: kbind_cong)

lemma stacks_high:
  assumes "KERNBASE \<le> kstacks_at" and "unat kstacks_at + 8 * unat KSTKSIZE \<le> 2 ^ 32" and "i < NCPU"
  shows "\<not> kstacks_at + of_nat i * KSTKSIZE < KERNBASE"
proof -
  have "unat (of_nat i * KSTKSIZE :: u32) = i * 32768"
    using assms(3) by (simp add: jos_consts unat_word_ariths unsigned_of_nat take_bit_nat_eq_self)
  then have "unat (kstacks_at + of_nat i * KSTKSIZE) = unat kstacks_at + i * 32768"
    using assms(2,3) by (simp add: unat_word_ariths jos_consts)
  then show ?thesis using assms(1) by (simp add: word_less_nat_alt word_le_nat_alt jos_consts)
qed

lemma map_kernel_regions:
  assumes "KERNBASE \<le> pages_at" and "KERNBASE \<le> envs_at" and "KERNBASE \<le> bootstack" and "KERNBASE \<le> kstacks_at"
    and "unat kstacks_at + 8 * unat KSTKSIZE \<le> 2 ^ 32"
  shows "map_kernel pages_at envs_at bootstack kstacks_at s = kfor map_one (kernel_regions pages_at envs_at bootstack kstacks_at) s"
proof -
  have mp: "mem_init_mp kstacks_at s = kfor map_one (map (stack_region kstacks_at) [0..<NCPU]) s" for s
    unfolding mem_init_mp_def
    by (rule kfor_map_cong) (use stacks_high [OF assms(4,5)] in \<open>simp add: stack_region_def PADDR_def\<close>)
  have p: "PADDR a s = Ret (a - KERNBASE) s" if "KERNBASE \<le> a" for a s using that by (simp add: PADDR_def)
  have "mem_init_mp kstacks_at = kfor map_one (map (stack_region kstacks_at) [0..<NCPU])" by (rule ext) (rule mp)
  then show ?thesis unfolding map_kernel_def kernel_regions_def by (simp add: p assms)
qed

lemma stack_base: "i < NCPU \<Longrightarrow> unat (KSTACKTOP - KSTKSIZE - of_nat i * (KSTKSIZE + KSTKGAP)) = 0xF0000000 - 32768 - i * 65536"
proof -
  assume "i < NCPU"
  then have i: "i < 8" by (simp add: jos_consts)
  have "unat (of_nat i * (KSTKSIZE + KSTKGAP) :: u32) = i * 65536"
    using i by (simp add: jos_consts unat_word_ariths unsigned_of_nat take_bit_nat_eq_self)
  moreover have "of_nat i * (KSTKSIZE + KSTKGAP) \<le> KSTACKTOP - KSTKSIZE"
    using i calculation by (simp add: word_le_nat_alt) (simp add: jos_consts)
  ultimately show ?thesis by (simp add: unat_sub_if_size word_le_nat_alt jos_consts word_size)
qed

lemma less_NCPU: "i < NCPU \<Longrightarrow> i = 0 \<or> i = 1 \<or> i = 2 \<or> i = 3 \<or> i = 4 \<or> i = 5 \<or> i = 6 \<or> i = 7"
  by (simp add: NCPU_def) arith

lemma kernel_regions_ok: "\<forall>r \<in> set (kernel_regions pages_at envs_at bootstack kstacks_at). region_ok r"
proof -
  have "region_ok (stack_region kstacks_at i)" if "i < NCPU" for i
    using stack_base [OF that] less_NCPU [OF that]
    by (auto simp: stack_region_def region_pages_def simp del: of_nat_numeral) (simp_all add: jos_consts)
  then show ?thesis by (auto simp: kernel_regions_def region_pages_def jos_consts)
qed

lemma kernel_regions_tables: "sum_list (map region_tables (kernel_regions pages_at envs_at bootstack kstacks_at)) \<le> 75"
proof -
  have "region_tables (stack_region kstacks_at i) \<le> 1" if "i < NCPU" for i
    using stack_base [OF that] less_NCPU [OF that]
    by (auto simp: stack_region_def region_pages_def) (simp_all add: jos_consts)
  then have "sum_list (map region_tables (map (stack_region kstacks_at) [0..<NCPU])) \<le> sum_list (map (\<lambda>_. 1) [0..<NCPU])"
    unfolding map_map by (intro sum_list_mono) simp
  then have "sum_list (map region_tables (map (stack_region kstacks_at) [0..<NCPU])) \<le> 8" by (simp add: jos_consts sum_list_triv)
  moreover have "sum_list (map region_tables [(UPAGES, PTSIZE, pages_at - KERNBASE, PTE_U OR PTE_P),
      (UENVS, PTSIZE, envs_at - KERNBASE, PTE_U OR PTE_P), (KSTACKTOP - KSTKSIZE, KSTKSIZE, bootstack - KERNBASE, PTE_W),
      (KERNBASE, 0xFFFFFFFF - KERNBASE, 0, PTE_W)]) = 67"
    by (simp add: region_pages_def jos_consts)
  ultimately show ?thesis unfolding kernel_regions_def map_append sum_list_append by linarith
qed

section \<open>The boot allocations\<close>

text \<open>
  What the boot relies on: nothing has been allocated yet, the image of the kernel ends (at
  \<open>end_sym\<close>) far enough below 4 MB for the boot allocations to fit there too, which is all that the
  entry page tables map, and the machine has between 5 MB and 256 MB of memory.
\<close>

definition boot_ready :: "(u8 \<Rightarrow> u8) \<Rightarrow> u32 \<Rightarrow> u32 \<Rightarrow> u32 \<Rightarrow> kstate \<Rightarrow> bool" where
  "boot_ready cmos end_sym bootstack kstacks_at s \<longleftrightarrow>
     page_free_list s = None \<and> nextfree s = 0 \<and> curenv s = None \<and> buf_ok (cons s) \<and>
     KERNBASE + EXTPHYSMEM \<le> end_sym \<and> end_sym \<le> 0xF0350000 \<and>
     0x500 \<le> npages (i386_detect_memory cmos s) \<and> npages (i386_detect_memory cmos s) \<le> 0x10000 \<and>
     KERNBASE \<le> bootstack \<and> KERNBASE \<le> kstacks_at \<and> unat kstacks_at + 8 * unat KSTKSIZE \<le> 2 ^ 32"

definition boot_dir :: "u32 \<Rightarrow> u32" where
  "boot_dir end_sym = PGNUM (ROUNDUP end_sym PGSIZE - KERNBASE)"

definition boot_pages :: "u32 \<Rightarrow> u32" where
  "boot_pages end_sym = ROUNDUP end_sym PGSIZE + PGSIZE"

definition boot_envs :: "u32 \<Rightarrow> u32 \<Rightarrow> u32" where
  "boot_envs end_sym n = ROUNDUP (boot_pages end_sym + 8 * n) PGSIZE"

definition boot_end :: "u32 \<Rightarrow> u32 \<Rightarrow> u32" where
  "boot_end end_sym n = boot_envs end_sym n + of_nat NENV * 124"

lemma round_aligned:
  assumes "unat a mod 4096 = 0" and "unat a + 4095 < 2 ^ 32"
  shows "ROUNDUP a PGSIZE = a"
proof -
  obtain q where q: "unat a = 4096 * q" using assms(1) by (auto simp: mod_eq_0_iff_dvd)
  have "(4096 * q + 4095) div 4096 = q" by simp
  then show ?thesis using assms(2) unat_ROUNDUP_PGSIZE [of a] by (simp add: word_unat_eq_iff q)
qed

lemma boot_addresses:
  assumes "KERNBASE + EXTPHYSMEM \<le> e" and "e \<le> 0xF0350000" and "n \<le> 0x10000"
  shows "unat (ROUNDUP e PGSIZE) mod 4096 = 0" and "0xF0100000 \<le> unat (ROUNDUP e PGSIZE)"
    and "unat (boot_pages e) = unat (ROUNDUP e PGSIZE) + 4096"
    and "unat (boot_envs e n) mod 4096 = 0" and "unat (boot_pages e) \<le> unat (boot_envs e n)"
    and "unat (boot_end e n) = unat (boot_envs e n) + 126976" and "unat (boot_end e n) \<le> 0xF0400000"
proof -
  have e: "0xF0100000 \<le> unat e" "unat e \<le> 0xF0350000" using assms(1,2) by (simp_all add: word_le_nat_alt jos_consts)
  then have r: "unat (ROUNDUP e PGSIZE) = (unat e + 4095) div 4096 * 4096" by (simp add: unat_ROUNDUP_PGSIZE)
  have rb: "unat e \<le> (unat e + 4095) div 4096 * 4096" "(unat e + 4095) div 4096 * 4096 \<le> unat e + 4095" by arith+
  show "unat (ROUNDUP e PGSIZE) mod 4096 = 0" by (simp add: r)
  show "0xF0100000 \<le> unat (ROUNDUP e PGSIZE)" using r rb e by simp
  show pa: "unat (boot_pages e) = unat (ROUNDUP e PGSIZE) + 4096"
    using r rb e by (simp add: boot_pages_def unat_word_ariths jos_consts)
  have n: "unat n \<le> 0x10000" using assms(3) by (simp add: word_le_nat_alt)
  have sum: "unat (boot_pages e + 8 * n) = unat (boot_pages e) + 8 * unat n"
    using pa r rb e n by (simp add: unat_word_ariths)
  then have v: "unat (boot_envs e n) = (unat (boot_pages e) + 8 * unat n + 4095) div 4096 * 4096"
    using pa r rb e n by (simp add: boot_envs_def unat_ROUNDUP_PGSIZE)
  have vb: "unat (boot_pages e) + 8 * unat n \<le> unat (boot_envs e n)" "unat (boot_envs e n) \<le> unat (boot_pages e) + 8 * unat n + 4095"
    using v by arith+
  show "unat (boot_envs e n) mod 4096 = 0" by (simp add: v)
  show "unat (boot_pages e) \<le> unat (boot_envs e n)" using vb by simp
  show b: "unat (boot_end e n) = unat (boot_envs e n) + 126976"
    using vb pa r rb e n by (simp add: boot_end_def unat_word_ariths jos_consts)
  show "unat (boot_end e n) \<le> 0xF0400000" using b vb pa r rb e n by simp
qed

lemma boot_dir_kva:
  assumes "KERNBASE + EXTPHYSMEM \<le> e" and "e \<le> 0xF0350000"
  shows "kva (boot_dir e) 0 = ROUNDUP e PGSIZE" and "0x100 \<le> unat (boot_dir e)" and "unat (boot_dir e) < 0x400"
    and "unat (boot_dir e) * 4096 + 0xF0000000 = unat (ROUNDUP e PGSIZE)"
proof -
  note ad = boot_addresses [OF assms, of 0]
  let ?r = "ROUNDUP e PGSIZE"
  have lt: "unat ?r < 0xF0400000" using ad(3,5-7) by simp
  have u: "unat (?r - KERNBASE) = unat ?r - 0xF0000000" using ad(2) by (simp add: unat_sub_if_size word_size jos_consts)
  then have d: "unat (boot_dir e) = (unat ?r - 0xF0000000) div 4096" by (simp add: boot_dir_def unat_PGNUM)
  show "0x100 \<le> unat (boot_dir e)" "unat (boot_dir e) < 0x400" using ad(2) lt by (simp_all add: d)
  have m: "(unat ?r - 0xF0000000) mod 4096 = 0" using ad(1,2) by (simp add: mod_eq_0_iff_dvd dvd_diff_nat)
  then show s: "unat (boot_dir e) * 4096 + 0xF0000000 = unat ?r" using d ad(2) by (simp add: mult.commute mod_eq_0_iff_dvd)
  have "unat (page2pa (boot_dir e)) = unat (boot_dir e) * 4096"
    using unat_word_in_page [of "boot_dir e" 0] d lt by simp
  then show "kva (boot_dir e) 0 = ?r"
    using s unsigned_less [of ?r, where ?'a = nat] by (simp add: kva_def word_unat_eq_iff unat_word_ariths KERNBASE_def)
qed

lemma detect_frame [simp]:
  "page_free_list (i386_detect_memory cmos s) = page_free_list s" "nextfree (i386_detect_memory cmos s) = nextfree s"
  "pages (i386_detect_memory cmos s) = pages s" "envs (i386_detect_memory cmos s) = envs s"
  "cpus (i386_detect_memory cmos s) = cpus s" "cpunum (i386_detect_memory cmos s) = cpunum s"
  "cons (i386_detect_memory cmos s) = cons s"
  by (simp_all add: i386_detect_memory_def nvram_read_def mc146818_read_def Let_def kprintf_def kops koutb_def)

text \<open>The state in which \<open>mem_init\<close> calls \<open>page_init\<close>.\<close>

definition boot_state :: "(u8 \<Rightarrow> u8) \<Rightarrow> u32 \<Rightarrow> kstate \<Rightarrow> kstate" where
  "boot_state cmos e s =
     (let d = i386_detect_memory cmos s; n = npages d; k = boot_dir e;
          z = kzero_page (kva k 0) (d\<lparr>kern_pgdir := kva k 0, nextfree := boot_pages e\<rparr>);
          z = kstore (kva k (PDX UVPT)) (page2pa k OR PTE_U OR PTE_P) z
      in z\<lparr>pages := (\<lambda>p. if p < n then zero_page else pages d p), nextfree := boot_end e n,
           envs := (\<lambda>i. if i < NENV then zero_env else envs d i)\<rparr>)"

lemma mem_init_boot_state:
  assumes "boot_ready cmos e bs ks s" and "n = npages (i386_detect_memory cmos s)"
  shows "mem_init cmos e bs ks s =
     obind (Some (page_init e (boot_state cmos e s))) (\<lambda>_ s.
     obind (check_page_free_list e True s) (\<lambda>_ s.
     obind (Some (map_kernel (boot_pages e) (boot_envs e n) bs ks s)) (\<lambda>_ s.
     obind (Some (PADDR (kern_pgdir s) s)) (\<lambda>pa s.
     obind (check_page_free_list e False (lcr3 pa s)) (\<lambda>_ s.
     Some (Ret (boot_pages e, boot_envs e n) s))))))"
proof -
  let ?d = "i386_detect_memory cmos s" and ?k = "boot_dir e"
  have h: "nextfree s = 0" "KERNBASE + EXTPHYSMEM \<le> e" "e \<le> 0xF0350000" "n \<le> 0x10000"
    using assms by (auto simp: boot_ready_def)
  note ad = boot_addresses [OF h(2,3,4)] and k = boot_dir_kva [OF h(2,3)]
  have nz: "kva ?k 0 \<noteq> 0" "boot_pages e \<noteq> 0" "boot_envs e n \<noteq> 0"
    using ad(2,3,5) k(1) by (auto simp: word_unat_eq_iff)
  have hi: "\<not> kva ?k 0 < KERNBASE" using ad(2) k(1) by (simp add: word_less_nat_alt jos_consts)
  have a1: "ROUNDUP (kva ?k 0 + PGSIZE) PGSIZE = boot_pages e"
    using ad(1,3,5,6,7) by (simp add: k(1) boot_pages_def [symmetric] round_aligned mod_simps)
  have a2: "ROUNDUP (boot_envs e n + of_nat NENV * 124) PGSIZE = boot_end e n"
    using ad(4,6,7) by (simp add: boot_end_def [symmetric] round_aligned mod_add_eq [symmetric])
  have b1: "boot_alloc e PGSIZE ?d = (kva ?k 0, ?d\<lparr>nextfree := boot_pages e\<rparr>)"
    using h(1) by (simp add: boot_alloc_def a1 k(1) [symmetric] Let_def)
  have b2: "boot_alloc e (8 * n) z = (boot_pages e, z\<lparr>nextfree := boot_envs e n\<rparr>)" if "nextfree z = boot_pages e" for z
    using that nz by (simp add: boot_alloc_def Let_def boot_envs_def)
  have b3: "boot_alloc e (of_nat NENV * 124) z = (boot_envs e n, z\<lparr>nextfree := boot_end e n\<rparr>)" if "nextfree z = boot_envs e n" for z
    using that nz by (simp add: boot_alloc_def Let_def a2)
  have pad: "PADDR (kva ?k 0) z = Ret (page2pa ?k) z" for z using hi by (simp add: PADDR_def) (simp add: kva_def)
  have kv: "kva ?k 0 + 4 * PDX UVPT = kva ?k (PDX UVPT)" by (simp add: kva_def)
  show ?thesis
    unfolding mem_init_def Let_def b1 prod.case
    by (simp add: pad kv b2 [unfolded assms(2)] b3 [unfolded assms(2)] assms(2) boot_state_def Let_def kops cong: if_cong)
qed

section \<open>The free list at boot\<close>

definition boot_list :: "u32 \<Rightarrow> u32 \<Rightarrow> u32 list" where
  "boot_list e n = rev (filter (boot_free ((boot_end e n - KERNBASE) div PGSIZE)) (map of_nat [0..<unat n]))"

lemma page2pa_unat: "unat p < 0x100000 \<Longrightarrow> unat (page2pa p) = unat p * 4096"
  using unat_word_in_page [of p 0] by simp

lemma low_page_iff: "unat p < 0x10000 \<Longrightarrow> low_page 1 p \<longleftrightarrow> unat p < 0x400"
  by (simp add: word_less_nat_alt unat_PDX page2pa_unat div_eq_0_iff del: word_less_1)

lemma base_page_iff: "unat p < 0x10000 \<Longrightarrow> base_page p \<longleftrightarrow> unat p < 0x100"
  by (simp add: word_less_nat_alt page2pa_unat jos_consts)

lemma boot_list_set:
  assumes "n \<le> 0x10000"
  shows "p \<in> set (boot_list e n) \<longleftrightarrow> p < n \<and> boot_free ((boot_end e n - KERNBASE) div PGSIZE) p"
proof -
  have n: "unat n \<le> 0x10000" using assms by (simp add: word_le_nat_alt)
  have "p \<in> of_nat ` {0..<unat n} \<longleftrightarrow> p < n"
  proof
    assume "p \<in> of_nat ` {0..<unat n}"
    then show "p < n" using n by (auto simp: word_less_nat_alt unsigned_of_nat take_bit_nat_eq_self)
  next
    assume "p < n"
    then have "unat p < unat n" by (simp add: word_less_nat_alt)
    moreover have "p = of_nat (unat p)" by simp
    ultimately show "p \<in> of_nat ` {0..<unat n}" by (metis atLeastLessThan_iff image_eqI zero_le)
  qed
  then show ?thesis by (auto simp: boot_list_def)
qed

lemma boot_free_unat:
  assumes "KERNBASE + EXTPHYSMEM \<le> e" and "e \<le> 0xF0350000" and "n \<le> 0x10000" and "unat p < 0x10000"
  shows "boot_free ((boot_end e n - KERNBASE) div PGSIZE) p \<longleftrightarrow>
     unat p \<noteq> 0 \<and> unat p \<noteq> 7 \<and> (unat p < 0xA0 \<or> (unat (boot_end e n) - 0xF0000000) div 4096 \<le> unat p)"
proof -
  note ad = boot_addresses [OF assms(1-3)]
  have "unat (boot_end e n - KERNBASE) = unat (boot_end e n) - 0xF0000000"
    using ad(2,3,5,6) by (simp add: unat_sub_if_size word_size jos_consts)
  then have "unat ((boot_end e n - KERNBASE) div PGSIZE) = (unat (boot_end e n) - 0xF0000000) div 4096"
    by (simp add: unat_div jos_consts)
  then show ?thesis by (auto simp: boot_free_def word_le_nat_alt word_less_nat_alt word_unat_eq_iff jos_consts)
qed

lemma boot_list_facts:
  assumes "KERNBASE + EXTPHYSMEM \<le> e" and "e \<le> 0xF0350000" and "n \<le> 0x10000" and "0x500 \<le> n"
  shows "boot_dir e \<notin> set (boot_list e n)" and "\<And>p. p \<in> set (boot_list e n) \<Longrightarrow> page_checked (boot_end e n) p"
    and "\<And>j. 8 \<le> j \<Longrightarrow> j < 0xA0 \<Longrightarrow> of_nat j \<in> set (boot_list e n)" and "0x400 \<in> set (boot_list e n)"
proof -
  note ad = boot_addresses [OF assms(1-3)] and fr = boot_free_unat [OF assms(1-3)] and k = boot_dir_kva [OF assms(1,2)]
  have n: "unat n \<le> 0x10000" "0x500 \<le> unat n" using assms(3,4) by (simp_all add: word_le_nat_alt)
  let ?b = "(unat (boot_end e n) - 0xF0000000) div 4096"
  have b: "unat (boot_dir e) < ?b" "0x101 \<le> ?b" "?b \<le> 0x400" "?b * 4096 + 0xF0000000 = unat (boot_end e n)"
  proof -
    have "unat (boot_end e n) mod 4096 = 0" using ad(4,6) by (simp add: mod_add_eq [symmetric])
    moreover have ge: "unat (boot_dir e) * 4096 + 0xF0000000 + 4096 + 126976 \<le> unat (boot_end e n)" using ad(3,5,6) k(4) by simp
    ultimately show 4: "?b * 4096 + 0xF0000000 = unat (boot_end e n)"
      by (simp add: mod_eq_0_iff_dvd dvd_diff_nat mult.commute)
    then show "unat (boot_dir e) < ?b" "0x101 \<le> ?b" "?b \<le> 0x400" using ge k(2) ad(7) by simp_all
  qed
  have mem: "p \<in> set (boot_list e n) \<longleftrightarrow> unat p < unat n \<and> unat p \<noteq> 0 \<and> unat p \<noteq> 7 \<and> (unat p < 0xA0 \<or> ?b \<le> unat p)" for p
    using boot_list_set [OF assms(3), of p e] fr [of p] n by (cases "unat p < unat n") (auto simp: word_less_nat_alt)
  show "boot_dir e \<notin> set (boot_list e n)" using mem k(2) b(1) by simp
  show "of_nat j \<in> set (boot_list e n)" if "8 \<le> j" "j < 0xA0" for j
    using that n mem [of "of_nat j"] by (simp add: unsigned_of_nat take_bit_nat_eq_self)
  show "0x400 \<in> set (boot_list e n)" using mem [of "0x400"] n b(3) by simp
  show "page_checked (boot_end e n) p" if "p \<in> set (boot_list e n)" for p
  proof -
    have p: "unat p < 0x10000" "unat p \<noteq> 0" "unat p \<noteq> 7" "unat p < 0xA0 \<or> ?b \<le> unat p" using that mem [of p] n by auto
    have u: "unat (page2pa p) = unat p * 4096" using p(1) by (simp add: page2pa_unat)
    have kv: "unat (kva p 0) = unat p * 4096 + 0xF0000000" using p(1) u by (simp add: kva_def unat_word_ariths jos_consts)
    have "page2pa p \<notin> {0, IOPHYSMEM, EXTPHYSMEM - PGSIZE, EXTPHYSMEM, MPENTRY_PADDR}"
      using p b(2) by (auto simp: word_unat_eq_iff u jos_consts)
    moreover have "boot_end e n \<le> kva p 0" if "?b \<le> unat p"
    proof -
      have "?b * 4096 \<le> unat p * 4096" using that by simp
      then show ?thesis using b(4) by (simp add: word_le_nat_alt kv)
    qed
    ultimately show ?thesis using p(4) by (auto simp: page_checked_def word_less_nat_alt u jos_consts)
  qed
qed

text \<open>The list after \<open>check_page_free_list (1)\<close>: the pages below 4 MB come first.\<close>

definition low_first :: "u32 list \<Rightarrow> u32 list" where
  "low_first fl = filter (low_page 1) fl @ filter (\<lambda>p. \<not> low_page 1 p) fl"

lemma set_low_first [simp]: "set (low_first fl) = set fl"
  by (auto simp: low_first_def)

definition no_envs :: "kstate \<Rightarrow> bool" where
  "no_envs s \<longleftrightarrow> (\<forall>e < NENV. envs s e = zero_env) \<and> curenv s = None \<and> buf_ok (cons s)"

lemma no_envs_frame: "boot_frame s t \<Longrightarrow> no_envs s \<Longrightarrow> no_envs t"
  by (simp add: boot_frame_def no_envs_def curenv_def)

lemma pde_boot_state:
  assumes "unat (boot_dir e) < 0x10000" and "unat i < 1024"
  shows "pde (boot_state cmos e s) (boot_dir e) i = (if i = PDX UVPT then page2pa (boot_dir e) OR PTE_U OR PTE_P else 0)"
proof -
  let ?z = "kzero_page (kva (boot_dir e) 0) ((i386_detect_memory cmos s)\<lparr>kern_pgdir := kva (boot_dir e) 0, nextfree := boot_pages e\<rparr>)"
  have "kload (boot_state cmos e s) = kload (kstore (kva (boot_dir e) (PDX UVPT)) (page2pa (boot_dir e) OR PTE_U OR PTE_P) ?z)"
    by (rule kload_cong) (simp add: boot_state_def Let_def)
  then show ?thesis
    using kload_kstore_kva [OF assms(1) PDX_less assms] kload_kzero_page_kva [OF assms(1) assms]
    by (simp add: pde_def)
qed

lemma boot_before_maps:
  assumes "boot_ready cmos e bs ks s" and "n = npages (i386_detect_memory cmos s)" and "k = boot_dir e"
  shows "\<exists>r t. page_init e (boot_state cmos e s) = Ret () r \<and> check_page_free_list e True r = Some (Ret () t) \<and>
    boot_inv k (low_first (boot_list e n)) t \<and> kern_pgdir t = kva k 0 \<and> npages t = n \<and> nextfree t = boot_end e n \<and> no_envs t \<and>
    (\<forall>i. unat i < 1024 \<longrightarrow> pde t k i = (if i = PDX UVPT then page2pa k OR PTE_U OR PTE_P else 0))"
proof -
  let ?b = "boot_state cmos e s" and ?fl = "boot_list e n"
  have h: "page_free_list s = None" "curenv s = None" "buf_ok (cons s)" "KERNBASE + EXTPHYSMEM \<le> e" "e \<le> 0xF0350000"
    "n \<le> 0x10000" "0x500 \<le> n" using assms(1,2) by (auto simp: boot_ready_def)
  note ad = boot_addresses [OF h(4-6)] and k = boot_dir_kva [OF h(4,5)] and fl = boot_list_facts [OF h(4-7)]
  have kb: "unat k < 0x10000" using k(3) assms(3) by simp
  have b: "npages ?b = n" "page_free_list ?b = None" "nextfree ?b = boot_end e n" "kern_pgdir ?b = kva k 0" "no_envs ?b"
    using h(1-3) assms(2,3) by (simp_all add: boot_state_def Let_def kops no_envs_def curenv_def)
  have be: "boot_end e n \<noteq> 0" "KERNBASE \<le> boot_end e n" "ROUNDUP (boot_end e n) PGSIZE = boot_end e n"
  proof -
    have 1: "0xF0100000 \<le> unat (boot_end e n)" using ad(2,3,5,6) by simp
    then show "boot_end e n \<noteq> 0" "KERNBASE \<le> boot_end e n" by (auto simp: word_le_nat_alt jos_consts)
    show "ROUNDUP (boot_end e n) PGSIZE = boot_end e n"
      by (rule round_aligned) (use ad(4,6,7) in \<open>simp_all add: mod_add_eq [symmetric]\<close>)
  qed
  have np: "npages_ok ?b" using h(6) by (simp add: npages_ok_def b(1) word_le_nat_alt)
  obtain r where r: "page_init e ?b = Ret () r" "vm_only ?b r" "phys r = phys ?b" "free_ok ?fl r"
    "\<And>p. p < n \<Longrightarrow> pp_ref (pages r p) = (if boot_free ((boot_end e n - KERNBASE) div PGSIZE) p then 0 else 1)"
  proof -
    have "vm_only (?b\<lparr>nextfree := boot_end e n\<rparr>) x = vm_only ?b x" for x by (simp add: vm_only_def b(3))
    then show ?thesis
      using page_init_ok [OF np b(2), unfolded b(1,3), OF be(1,2) refl, of e] be(3) that
      unfolding boot_list_def by auto
  qed
  have fr: "boot_frame ?b r" by (rule boot_frame_vm_only [OF r(2)])
  then have nf: "nextfree r = boot_end e n" using b(3) by (simp add: boot_frame_def)
  have chk: "\<forall>p \<in> set ?fl. page_checked (nextfree r) p" using fl(2) nf by simp
  have "base_page 8" by (simp add: base_page_iff)
  then have base: "\<exists>p \<in> set ?fl. base_page p" using fl(3) [of 8] by auto
  have "\<not> base_page 0x400" by (simp add: base_page_iff)
  then have ext: "\<exists>p \<in> set ?fl. \<not> base_page p" using fl(4) by blast
  obtain t where t: "check_page_free_list e True r = Some (Ret () t)" "free_ok (low_first ?fl) t"
    "\<forall>p. pp_ref (pages t p) = pp_ref (pages r p)" "boot_frame r t"
    "\<forall>q. unat q < 0x10000 \<longrightarrow> q \<notin> set ?fl \<longrightarrow> same_words q r t"
    using check_page_free_list_ok [OF r(4) chk _ _ base ext, of "low_first ?fl" True e] be nf by (auto simp: low_first_def)
  have ft: "boot_frame ?b t" by (rule boot_frame_trans [OF fr t(4)])
  have pd: "pde t k i = (if i = PDX UVPT then page2pa k OR PTE_U OR PTE_P else 0)" if "unat i < 1024" for i
  proof -
    have "pde t k i = pde r k i" using t(5) fl(1) kb that assms(3) by (simp add: same_words_def pde_def)
    also have "\<dots> = pde ?b k i" using r(3) by (simp add: pde_def kops)
    finally show ?thesis using pde_boot_state [OF kb [unfolded assms(3)] that] assms(3) by simp
  qed
  have "k < n" using k(3) h(7) assms(3) by (simp add: word_less_nat_alt word_le_nat_alt)
  moreover have "p \<in> set ?fl" if "p < n" "pp_ref (pages t p) = 0" for p
    using that t(3) r(5) [of p] boot_list_set [OF h(6)] by (auto split: if_splits)
  moreover have "\<not> flag (pde t k i) PTE_P" if "unat i < 1024" "i \<noteq> PDX UVPT" for i using pd [OF that(1)] that(2) by simp
  ultimately have "boot_inv k (low_first ?fl) t"
    using t(2) fl(1) ft b(1) assms(3) by (simp add: boot_inv_def boot_frame_def)
  then show ?thesis
    using r(1) t(1) pd b ft no_envs_frame [OF ft b(5)] by (intro exI [of _ r] exI [of _ t]) (simp add: boot_frame_def)
qed

section \<open>The state after mem_init\<close>

lemma boot_inv_same:
  assumes "boot_inv k fl s" and "free_ok fl t" and "npages t = npages s" and "\<forall>p. pp_ref (pages t p) = pp_ref (pages s p)"
    and "\<forall>q. unat q < 0x10000 \<longrightarrow> q \<notin> set fl \<longrightarrow> same_words q s t"
  shows "boot_inv k fl t" and "unat i < 1024 \<Longrightarrow> pde t k i = pde s k i" and "PDX va \<noteq> PDX UVPT \<Longrightarrow> vmap t k va = vmap s k va"
proof -
  note I = boot_invD [OF assms(1)]
  show pd: "pde t k i = pde s k i" if "unat i < 1024" for i
    using assms(5) I(4,5) that by (simp add: same_words_def pde_def)
  then show "boot_inv k fl t" using assms(1-4) by (simp add: boot_inv_def)
  show "vmap t k va = vmap s k va" if va: "PDX va \<noteq> PDX UVPT"
  proof (cases "flag (pde s k (PDX va)) PTE_P")
    case True
    have "same_words (PGNUM (pde s k (PDX va))) s t"
      using assms(5) I(7,9) [OF PDX_less va True] by simp
    then have "pte t k (PDX va) (PTX va) = pte s k (PDX va) (PTX va)"
      using pd [OF PDX_less] PTX_less by (simp add: pte_def same_words_def)
    then show ?thesis using pd [OF PDX_less] by (simp add: vmap_def)
  next
    case False
    then show ?thesis using pd [OF PDX_less] by (simp add: vmap_def)
  qed
qed

lemma low_first_prefix:
  assumes "\<forall>j \<in> {8..<0xA0}. of_nat j \<in> set fl" and "\<forall>p \<in> set fl. unat p < 0x10000"
    and "low_first fl = used @ rest" and "length used \<le> 75"
  shows "\<And>p. p \<in> set used \<Longrightarrow> unat p < 0x400" and "\<exists>p \<in> set rest. base_page p"
    and "p \<in> set fl \<Longrightarrow> \<not> low_page 1 p \<Longrightarrow> p \<in> set rest" and "76 \<le> length (low_first fl)"
proof -
  let ?L = "filter (low_page 1) fl" and ?X = "of_nat ` {8..<0xA0} :: u32 set"
  have u: "unat (of_nat j :: u32) = j" if "j < 0xA0" for j using that by (simp add: unsigned_of_nat take_bit_nat_eq_self)
  have inj: "inj_on (of_nat :: nat \<Rightarrow> u32) {8..<0xA0}"
    by (rule inj_on_inverseI [of _ unat]) (use u in auto)
  have cX: "card ?X = 152" using card_image [OF inj] by simp
  have "low_page 1 (of_nat j)" if "j < 0xA0" for j using low_page_iff [of "of_nat j"] u [OF that] that by simp
  then have "?X \<subseteq> set ?L" using assms(1) by auto
  then have "152 \<le> length ?L" using card_mono [of "set ?L" ?X] cX card_length [of ?L] by simp
  moreover have "take (length used) (low_first fl) = used" using assms(3) by simp
  ultimately have used: "used = take (length used) ?L" using assms(4) by (simp add: low_first_def)
  then have sub: "set used \<subseteq> set ?L" by (metis set_take_subset)
  then show "unat p < 0x400" if "p \<in> set used" for p using that assms(2) low_page_iff [of p] by auto
  show "p \<in> set rest" if "p \<in> set fl" "\<not> low_page 1 p" for p
  proof -
    have "p \<in> set (used @ rest)" using that(1) assms(3) set_low_first [of fl] by metis
    moreover have "p \<notin> set used" using that(2) sub by auto
    ultimately show ?thesis by simp
  qed
  have "card (set used) < card ?X" using card_length [of used] assms(4) cX by simp
  then obtain x where x: "x \<in> ?X" "x \<notin> set used" by (metis card_mono finite_set linorder_not_le subsetI)
  have "x \<in> set fl" using x(1) assms(1) by auto
  then have "x \<in> set (used @ rest)" using assms(3) set_low_first [of fl] by simp
  then have "x \<in> set rest" using x(2) by simp
  moreover have "base_page x" using x(1) u by (auto simp: base_page_iff)
  ultimately show "\<exists>p \<in> set rest. base_page p" by blast
  show "76 \<le> length (low_first fl)" using \<open>152 \<le> length ?L\<close> by (simp add: low_first_def)
qed

definition kernel_map :: "u32 \<Rightarrow> u32 \<Rightarrow> u32 \<Rightarrow> u32 \<Rightarrow> u32 \<Rightarrow> u32 option" where
  "kernel_map pages_at envs_at bootstack kstacks_at =
     fold map_of_region (kernel_regions pages_at envs_at bootstack kstacks_at) (\<lambda>_. None)"

lemma mem_init_ok:
  assumes "boot_ready cmos e bs ks s" and "n = npages (i386_detect_memory cmos s)" and "k = boot_dir e"
  shows "\<exists>t fl. mem_init cmos e bs ks s = Some (Ret (boot_pages e, boot_envs e n) t) \<and> boot_inv k fl t \<and>
    kern_pgdir t = kva k 0 \<and> cr3 t = page2pa k \<and> npages t = n \<and> no_envs t \<and>
    (\<forall>i. unat i < 955 \<longrightarrow> \<not> flag (pde t k i) PTE_P) \<and> pde t k (PDX UVPT) = page2pa k OR PTE_U OR PTE_P \<and>
    (\<forall>i. unat i < 1024 \<longrightarrow> flag (pde t k i) PTE_P \<longrightarrow> unat (PGNUM (pde t k i)) < 0x400) \<and>
    (\<forall>va. PDX va \<noteq> PDX UVPT \<longrightarrow> vmap t k va = kernel_map (boot_pages e) (boot_envs e n) bs ks va)"
proof -
  let ?fl = "boot_list e n"
  have h: "KERNBASE + EXTPHYSMEM \<le> e" "e \<le> 0xF0350000" "n \<le> 0x10000" "0x500 \<le> n" "KERNBASE \<le> bs" "KERNBASE \<le> ks"
    "unat ks + 8 * unat KSTKSIZE \<le> 2 ^ 32" using assms(1,2) by (auto simp: boot_ready_def)
  note ad = boot_addresses [OF h(1-3)] and k = boot_dir_kva [OF h(1,2), folded assms(3)] and bl = boot_list_facts [OF h(1-4)]
  have hi: "KERNBASE \<le> boot_pages e" "KERNBASE \<le> boot_envs e n" "\<not> kva k 0 < KERNBASE"
    using ad(2,3,5) k(1) by (auto simp: word_le_nat_alt word_less_nat_alt jos_consts)
  obtain r t where t: "page_init e (boot_state cmos e s) = Ret () r" "check_page_free_list e True r = Some (Ret () t)"
    "boot_inv k (low_first ?fl) t" "kern_pgdir t = kva k 0" "npages t = n" "nextfree t = boot_end e n" "no_envs t"
    "\<And>i. unat i < 1024 \<Longrightarrow> pde t k i = (if i = PDX UVPT then page2pa k OR PTE_U OR PTE_P else 0)"
    using boot_before_maps [OF assms] by auto
  have small: "\<forall>p \<in> set ?fl. unat p < 0x10000"
    using boot_list_set [OF h(3)] h(3) by (auto simp: word_less_nat_alt word_le_nat_alt)
  have base: "\<forall>j \<in> {8..<0xA0}. of_nat j \<in> set ?fl" using bl(3) by auto
  let ?rs = "kernel_regions (boot_pages e) (boot_envs e n) bs ks"
  have "sum_list (map region_tables ?rs) \<le> length (low_first ?fl)"
    using kernel_regions_tables [of "boot_pages e" "boot_envs e n" bs ks] low_first_prefix(4) [OF base small, of "[]"] by simp
  from map_regions_ok [OF t(3,4) kernel_regions_ok this]
  obtain u gl where u: "kfor map_one ?rs t = Ret () u" "boot_inv k gl u" "vm_only t u"
    "takes k (sum_list (map region_tables ?rs)) (low_first ?fl) t gl u"
    "\<And>i. unat i < 955 \<Longrightarrow> flag (pde u k i) PTE_P = flag (pde t k i) PTE_P" "pde u k (PDX UVPT) = pde t k (PDX UVPT)"
    "\<And>va'. PDX va' \<noteq> PDX UVPT \<Longrightarrow> vmap u k va' = fold map_of_region ?rs (vmap t k) va'" by auto
  from u(4) obtain used where used: "low_first ?fl = used @ gl" "length used \<le> 75"
    "\<And>i. unat i < 1024 \<Longrightarrow> pde u k i = pde t k i \<or> PGNUM (pde u k i) \<in> set used"
    using kernel_regions_tables [of "boot_pages e" "boot_envs e n" bs ks] unfolding takes_def by fastforce
  note pre = low_first_prefix [OF base small used(1,2)]
  let ?v = "lcr3 (page2pa k) u"
  have fu: "boot_frame t u" by (rule boot_frame_vm_only [OF u(3)])
  have v: "npages ?v = n" "nextfree ?v = boot_end e n" "kern_pgdir ?v = kva k 0" "kern_pgdir u = kva k 0" "no_envs ?v"
    using fu t(4-6) no_envs_frame [OF fu t(7)] by (simp_all add: boot_frame_def kops no_envs_def curenv_def)
  have words: "pde ?v k i = pde u k i" "vmap ?v k va = vmap u k va" for i va
    by (simp_all add: pde_def vmap_def pte_def kops)
  have "npages ?v = npages u" "pages ?v = pages u" "free_ok gl ?v = free_ok gl u"
    by (simp_all add: lcr3_def free_ok_def pl.elems_def npages_ok_def)
  then have iv: "boot_inv k gl ?v" using u(2) unfolding boot_inv_def words(1) by simp
  have sub: "set gl \<subseteq> set ?fl" using used(1) set_low_first [of ?fl] by (metis Un_upper2 set_append)
  have chk: "\<forall>p \<in> set gl. page_checked (nextfree ?v) p" using bl(2) sub v(2) by auto
  have "\<not> low_page 1 0x400" using low_page_iff [of "0x400"] by simp
  then have "0x400 \<in> set gl" by (rule pre(3) [OF bl(4)])
  moreover have "\<not> base_page 0x400" by (simp add: base_page_iff)
  ultimately have ext: "\<exists>p \<in> set gl. \<not> base_page p" by blast
  have be: "boot_end e n \<noteq> 0" "ROUNDUP (boot_end e n) PGSIZE = boot_end e n"
    using ad(2-7) round_aligned [of "boot_end e n"] by (auto simp: mod_add_eq [symmetric])
  obtain w where w: "check_page_free_list e False ?v = Some (Ret () w)" "free_ok gl w"
    "\<forall>p. pp_ref (pages w p) = pp_ref (pages ?v p)" "boot_frame ?v w"
    "\<forall>q. unat q < 0x10000 \<longrightarrow> q \<notin> set gl \<longrightarrow> same_words q ?v w"
    using check_page_free_list_ok [OF boot_invD(1) [OF iv] chk _ _ pre(2) ext, of gl False e] be v(2) by auto
  have nw: "npages w = npages ?v" using w(4) by (simp add: boot_frame_def)
  note same = boot_inv_same [OF iv w(2) nw w(3,5)]
  have pw: "pde w k i = pde u k i" if "unat i < 1024" for i using same(2) [OF that] words(1) by simp
  have t0: "vmap t k va = None" if "PDX va \<noteq> PDX UVPT" for va using t(8) [OF PDX_less] that by (simp add: vmap_def)
  have "mem_init cmos e bs ks s = Some (Ret (boot_pages e, boot_envs e n) w)"
    using mem_init_boot_state [OF assms(1,2)] t(1,2) u(1) w(1) v(4) hi(3) map_kernel_regions [OF hi(1,2) h(5-7)]
    by (simp add: PADDR_def) (simp add: kva_def)
  moreover have "vmap w k va = kernel_map (boot_pages e) (boot_envs e n) bs ks va" if "PDX va \<noteq> PDX UVPT" for va
  proof -
    have "fold map_of_region ?rs (vmap t k) va = fold map_of_region ?rs (\<lambda>_. None) va"
      by (rule fold_map_of_region [of "vmap t k"]) (rule t0 [OF that])
    then show ?thesis using same(3) [OF that] words(2) u(7) [OF that] by (simp add: kernel_map_def)
  qed
  moreover have "\<not> flag (pde w k i) PTE_P" if "unat i < 955" for i
  proof -
    have "i \<noteq> PDX UVPT" "unat i < 1024" using that by (auto simp: unat_PDX jos_consts)
    then show ?thesis using pw u(5) [OF that] t(8) by simp
  qed
  moreover have "unat (PGNUM (pde w k i)) < 0x400" if "unat i < 1024" "flag (pde w k i) PTE_P" for i
    using used(3) [OF that(1)] pre(1) pw [OF that(1)] t(8) [OF that(1)] that(2) k(3)
    by (auto simp: PGNUM_page2pa split: if_splits)
  moreover have "pde w k (PDX UVPT) = page2pa k OR PTE_U OR PTE_P" using pw [OF PDX_less] u(6) t(8) [OF PDX_less] by simp
  moreover have "cr3 w = page2pa k" "kern_pgdir w = kva k 0" "npages w = n" "no_envs w"
    using w(4) v(1,3) no_envs_frame [OF w(4) v(5)] by (simp_all add: boot_frame_def kops)
  ultimately show ?thesis using same(1) by blast
qed

end
