(* ===== verification/Boot_Inv.thy ===== *)
theory Boot_Inv
  imports Boot_Spec
begin

text \<open>
  What booting establishes: the address space that \<open>mem_init\<close> builds, given page by page, and the
  invariant of the kernel after \<open>env_init\<close>.
\<close>

section \<open>The address space\<close>

definition stack_page :: "nat \<Rightarrow> nat" where
  "stack_page c = 0xF0000 - 8 - 16 * c"

lemma stack_page_0: "stack_page 0 = 0xEFFF8"
  by (simp add: stack_page_def)

lemma map_of_stack:
  assumes "c < NCPU" and "N = unat (PGNUM va)"
  shows "map_of_region (stack_region ks c) m va =
    (if stack_page c \<le> N \<and> N < stack_page c + 8
     then Some ((ks + of_nat c * KSTKSIZE - KERNBASE + of_nat (N - stack_page c) * PGSIZE) OR PTE_P OR PTE_W) else m va)"
proof -
  have "unat (PGNUM (KSTACKTOP - KSTKSIZE - of_nat c * (KSTKSIZE + KSTKGAP))) = (0xF0000000 - 32768 - c * 65536) div 4096"
    using stack_base [OF assms(1)] by (simp add: unat_PGNUM)
  also have "\<dots> = stack_page c" using less_NCPU [OF assms(1)] by (auto simp: stack_page_def)
  finally have b: "unat (PGNUM (KSTACKTOP - KSTKSIZE - of_nat c * (KSTKSIZE + KSTKGAP))) = stack_page c" .
  have n: "region_pages KSTKSIZE = 8" by (simp add: region_pages_def jos_consts)
  show ?thesis unfolding stack_region_def map_of_region.simps map_region_def region_page_def b n assms(2) by simp
qed

lemma fold_stacks:
  assumes "m \<le> NCPU" and "N = unat (PGNUM va)"
  shows "fold map_of_region (map (stack_region ks) [0..<m]) M va =
    (if \<exists>c < m. stack_page c \<le> N \<and> N < stack_page c + 8
     then let c = (0xF0000 - 1 - N) div 16 in
       Some ((ks + of_nat c * KSTKSIZE - KERNBASE + of_nat (N - stack_page c) * PGSIZE) OR PTE_P OR PTE_W) else M va)"
  using assms(1)
proof (induction m)
  case 0
  then show ?case by simp
next
  case (Suc m)
  have m: "m < NCPU" using Suc.prems by simp
  have c: "(0xF0000 - 1 - N) div 16 = m" if "stack_page m \<le> N" "N < stack_page m + 8"
    by (rule div_nat_eqI) (use that m in \<open>simp_all add: stack_page_def NCPU_def\<close>)
  have one: "fold map_of_region (map (stack_region ks) [0..<Suc m]) M va =
      map_of_region (stack_region ks m) (fold map_of_region (map (stack_region ks) [0..<m]) M) va" by simp
  show ?case
  proof (cases "stack_page m \<le> N \<and> N < stack_page m + 8")
    case True
    then have ex: "\<exists>c < Suc m. stack_page c \<le> N \<and> N < stack_page c + 8" by blast
    show ?thesis unfolding one map_of_stack [OF m assms(2)] if_P [OF True] if_P [OF ex] Let_def c [OF conjunct1 [OF True] conjunct2 [OF True]] ..
  next
    case False
    then have ex: "(\<exists>c < Suc m. stack_page c \<le> N \<and> N < stack_page c + 8) \<longleftrightarrow> (\<exists>c < m. stack_page c \<le> N \<and> N < stack_page c + 8)"
      by (auto simp: less_Suc_eq)
    show ?thesis unfolding one map_of_stack [OF m assms(2)] if_not_P [OF False] ex using Suc.IH m by simp
  qed
qed

lemma map_const:
  assumes "N = unat (PGNUM va)"
  shows "map_of_region (UPAGES, PTSIZE, pa, perm) m va =
      (if 0xEF000 \<le> N \<and> N < 0xEF400 then Some ((pa + of_nat (N - 0xEF000) * PGSIZE) OR PTE_P OR perm) else m va)"
    and "map_of_region (UENVS, PTSIZE, pa, perm) m va =
      (if 0xEEC00 \<le> N \<and> N < 0xEF000 then Some ((pa + of_nat (N - 0xEEC00) * PGSIZE) OR PTE_P OR perm) else m va)"
    and "map_of_region (KSTACKTOP - KSTKSIZE, KSTKSIZE, pa, perm) m va =
      (if 0xEFFF8 \<le> N \<and> N < 0xF0000 then Some ((pa + of_nat (N - 0xEFFF8) * PGSIZE) OR PTE_P OR perm) else m va)"
    and "map_of_region (KERNBASE, 0xFFFFFFFF - KERNBASE, pa, perm) m va =
      (if 0xF0000 \<le> N then Some ((pa + of_nat (N - 0xF0000) * PGSIZE) OR PTE_P OR perm) else m va)"
proof -
  have n: "region_pages PTSIZE = 1024" "region_pages KSTKSIZE = 8" "region_pages (0xFFFFFFFF - KERNBASE) = 0x10000"
    by (simp_all add: region_pages_def jos_consts)
  have p: "unat (PGNUM UPAGES) = 0xEF000" "unat (PGNUM UENVS) = 0xEEC00" "unat (PGNUM (KSTACKTOP - KSTKSIZE)) = 0xEFFF8"
    "unat (PGNUM KERNBASE) = 0xF0000" by (simp_all add: unat_PGNUM jos_consts)
  have b: "unat (PGNUM va) < 0x100000" by (rule PGNUM_less)
  show "map_of_region (UPAGES, PTSIZE, pa, perm) m va =
      (if 0xEF000 \<le> N \<and> N < 0xEF400 then Some ((pa + of_nat (N - 0xEF000) * PGSIZE) OR PTE_P OR perm) else m va)"
    "map_of_region (UENVS, PTSIZE, pa, perm) m va =
      (if 0xEEC00 \<le> N \<and> N < 0xEF000 then Some ((pa + of_nat (N - 0xEEC00) * PGSIZE) OR PTE_P OR perm) else m va)"
    "map_of_region (KSTACKTOP - KSTKSIZE, KSTKSIZE, pa, perm) m va =
      (if 0xEFFF8 \<le> N \<and> N < 0xF0000 then Some ((pa + of_nat (N - 0xEFFF8) * PGSIZE) OR PTE_P OR perm) else m va)"
    "map_of_region (KERNBASE, 0xFFFFFFFF - KERNBASE, pa, perm) m va =
      (if 0xF0000 \<le> N then Some ((pa + of_nat (N - 0xF0000) * PGSIZE) OR PTE_P OR perm) else m va)"
    unfolding map_of_region.simps map_region_def region_page_def n p assms using b by simp_all
qed

text \<open>
  The kernel's address space, page by page.  \<open>N\<close> is the number of the virtual page: \<open>KERNBASE\<close> and
  \<open>KSTACKTOP\<close> are page \<open>0xF0000\<close>, \<open>UPAGES\<close> is page \<open>0xEF000\<close>, \<open>UENVS\<close> and \<open>UTOP\<close> are page \<open>0xEEC00\<close>.
  Below \<open>KSTACKTOP\<close> each of the 8 processors has 16 pages, of which the lower 8 are the guard of the
  stack in the upper 8.
\<close>

definition kernel_page :: "u32 \<Rightarrow> u32 \<Rightarrow> u32 \<Rightarrow> u32 \<Rightarrow> u32 option" where
  "kernel_page pg ev ks va =
    (let N = unat (PGNUM va) in
     if 0xF0000 \<le> N then Some (of_nat (N - 0xF0000) * PGSIZE OR PTE_P OR PTE_W)
     else if 0xEFF80 \<le> N then
       (let c = (0xF0000 - 1 - N) div 16 in
        if stack_page c \<le> N then Some ((ks + of_nat c * KSTKSIZE - KERNBASE + of_nat (N - stack_page c) * PGSIZE) OR PTE_P OR PTE_W)
        else None)
     else if 0xEF000 \<le> N \<and> N < 0xEF400 then Some ((pg - KERNBASE + of_nat (N - 0xEF000) * PGSIZE) OR PTE_P OR PTE_U)
     else if 0xEEC00 \<le> N \<and> N < 0xEF000 then Some ((ev - KERNBASE + of_nat (N - 0xEEC00) * PGSIZE) OR PTE_P OR PTE_U)
     else None)"

lemma kernel_map_page:
  assumes "N = unat (PGNUM va)"
  shows "kernel_map pg ev bs ks va = kernel_page pg ev ks va"
proof -
  let ?c = "(0xF0000 - 1 - N) div 16"
  have st: "(\<exists>c < NCPU. stack_page c \<le> N \<and> N < stack_page c + 8) \<longleftrightarrow> 0xEFF80 \<le> N \<and> N < 0xF0000 \<and> stack_page ?c \<le> N"
  proof
    assume "\<exists>c < NCPU. stack_page c \<le> N \<and> N < stack_page c + 8"
    then obtain c where c: "c < 8" "stack_page c \<le> N" "N < stack_page c + 8" by (auto simp: NCPU_def)
    then have "?c = c" by (intro div_nat_eqI) (simp_all add: stack_page_def)
    then show "0xEFF80 \<le> N \<and> N < 0xF0000 \<and> stack_page ?c \<le> N" using c by (simp add: stack_page_def) linarith
  next
    assume a: "0xEFF80 \<le> N \<and> N < 0xF0000 \<and> stack_page ?c \<le> N"
    define c where "c = ?c"
    have "0xF0000 - 1 - N < 16 * c + 16" "16 * c \<le> 0xF0000 - 1 - N" unfolding c_def by linarith+
    then have "c < 8" "N < stack_page c + 8" using a by (simp_all add: stack_page_def) (linarith+)?
    then have "?c < 8" "N < stack_page ?c + 8" unfolding c_def by auto
    then show "\<exists>c < NCPU. stack_page c \<le> N \<and> N < stack_page c + 8" using a by (auto simp: NCPU_def)
  qed
  have u: "PTE_P OR (PTE_U OR PTE_P) = PTE_P OR PTE_U" "x OR PTE_P OR (PTE_U OR PTE_P) = x OR PTE_P OR PTE_U" for x
    by (simp_all add: jos_consts or.assoc)
  show ?thesis
    unfolding kernel_map_def kernel_regions_def fold_append comp_apply fold_stacks [OF le_refl assms] fold_simps map_const [OF assms] st
    unfolding kernel_page_def Let_def assms [symmetric] by (auto simp: u stack_page_0)
qed

section \<open>env_init\<close>

lemma env_init_fold:
  assumes "distinct es" and "free_envs s fs" and "set es \<inter> set fs = {}"
  shows "\<exists>E h. fold env_init_step es s = s\<lparr>envs := E, env_free_list := h\<rparr> \<and>
    free_envs (fold env_init_step es s) (rev es @ fs) \<and>
    (\<forall>e. env_status (E e) = env_status (envs s e)) \<and> (\<forall>e. env_id (E e) = (if e \<in> set es then 0 else env_id (envs s e)))"
  using assms
proof (induction es arbitrary: s fs)
  case Nil
  show ?case by (rule exI [of _ "envs s"], rule exI [of _ "env_free_list s"]) (use Nil in simp)
next
  case (Cons e es)
  let ?u = "upd_env e (\<lambda>v. v\<lparr>env_id := 0\<rparr>) s" and ?t = "env_init_step e s"
  have "free_envs ?u fs"
  proof -
    have "(\<lambda>x. env_link (envs ?u x)) = (\<lambda>x. env_link (envs s x))" by (auto simp: kops)
    then show ?thesis using Cons.prems(2) unfolding el.elems_def by (simp add: kops)
  qed
  then have f: "free_envs ?t (e # fs)" unfolding env_init_step_def by (rule el.elems_push) (use Cons.prems(3) in simp)
  have t: "?t = s\<lparr>envs := (envs s)(e := (envs s e)\<lparr>env_id := 0, env_link := env_free_list s\<rparr>), env_free_list := Some e\<rparr>"
    by (simp add: env_init_step_def env_list_push_def kops)
  obtain E h where IH: "fold env_init_step es ?t = ?t\<lparr>envs := E, env_free_list := h\<rparr>"
    "free_envs (fold env_init_step es ?t) (rev es @ e # fs)" "\<forall>x. env_status (E x) = env_status (envs ?t x)"
    "\<forall>x. env_id (E x) = (if x \<in> set es then 0 else env_id (envs ?t x))"
    using Cons.IH [OF _ f] Cons.prems by auto
  have "fold env_init_step (e # es) s = s\<lparr>envs := E, env_free_list := h\<rparr>" using IH(1) by (simp add: t)
  moreover have "\<forall>x. env_status (E x) = env_status (envs s x)" using IH(3) by (simp add: t)
  moreover have "\<forall>x. env_id (E x) = (if x \<in> set (e # es) then 0 else env_id (envs s x))" using IH(4) by (auto simp: t)
  ultimately show ?case using IH(2) by (intro exI [of _ E] exI [of _ h]) simp
qed

lemma env_init_ok:
  assumes "t = env_init s"
  shows "\<exists>E h. t = s\<lparr>envs := E, env_free_list := h\<rparr>" and "free_envs t [0..<NENV]"
    and "env_status (envs t e) = env_status (envs s e)" and "e < NENV \<Longrightarrow> env_id (envs t e) = 0"
proof -
  have "free_envs (s\<lparr>env_free_list := None\<rparr>) []" by (simp add: el.elems_Nil)
  from env_init_fold [OF _ this, of "rev [0..<NENV]"]
  obtain E h where "t = s\<lparr>env_free_list := None\<rparr>\<lparr>envs := E, env_free_list := h\<rparr>" "free_envs t [0..<NENV]"
    "\<forall>e. env_status (E e) = env_status (envs s e)" "\<forall>e. env_id (E e) = (if e < NENV then 0 else env_id (envs s e))"
    by (auto simp: assms env_init_def)
  then show "\<exists>E h. t = s\<lparr>envs := E, env_free_list := h\<rparr>" "free_envs t [0..<NENV]"
    "env_status (envs t e) = env_status (envs s e)" "e < NENV \<Longrightarrow> env_id (envs t e) = 0" by auto
qed

lemma boot_kinv:
  assumes "boot_inv k fl s" and "no_envs s" and "kern_pgdir s = kva k 0" and "\<forall>i. unat i < 955 \<longrightarrow> \<not> flag (pde s k i) PTE_P"
    and "t = env_init s"
  shows "kinv k (\<lambda>p. unat (pp_ref (pages t p))) fl t" and "\<not> live t e"
proof -
  note I = boot_invD [OF assms(1)] and en = env_init_ok [OF assms(5)]
  from en(1) obtain E h where t: "t = s\<lparr>envs := E, env_free_list := h\<rparr>" by blast
  have free: "env_status (envs t e) = ENV_FREE" if "e < NENV" for e
    using assms(2) en(3) [of e] that by (simp add: no_envs_def zero_env_def)
  show nl: "\<not> live t e" for e using free by (auto simp: live_def)
  have d: "dirs t = {}" using nl by (simp add: dirs_def)
  have nr: "\<not> refers {} t r p" for r p by (cases r) auto
  have fo: "free_ok fl t" "npages t = npages s" "pages t = pages s" "kern_pgdir t = kern_pgdir s" "cons t = cons s" "curenv t = curenv s"
    using I(1) by (simp_all add: t free_ok_def pl.elems_def npages_ok_def curenv_def)
  have pd: "pde t k i = pde s k i" for i by (simp add: t pde_def kops)
  have vm: "vm_inv (dirs t) (\<lambda>p. unat (pp_ref (pages t p))) fl t"
    using nr fo I(2) by (simp add: d vm_inv_def pt_shape_def refs_def npages_ok_def)
  have lk: "leaks fl t = {}" using assms(1) by (auto simp: leaks_def boot_inv_def fo)
  have kd: "kern_dir_ok k t"
    using assms(3,4) I(3) by (auto simp: kern_dir_ok_def fo pd PDX_UTOP word_less_nat_alt)
  have "pp_ref (pages t k) \<noteq> 0" using assms(1) by (auto simp: boot_inv_def fo)
  then have rk: "0 < unat (pp_ref (pages t k))" by (simp add: word_neq_0_conv unat_gt_0)
  have el: "free_envs t el \<and> (\<forall>e. e \<in> set el \<longleftrightarrow> e < NENV \<and> \<not> live t e)" if "el = [0..<NENV]" for el
    using en(2) nl that by auto
  have et: "env_table_ok t"
    unfolding env_table_ok_def using nl en(4) el [OF refl] by (intro conjI) (auto simp: inj_on_def)
  show "kinv k (\<lambda>p. unat (pp_ref (pages t p))) fl t"
    unfolding kinv_def using vm lk kd rk et assms(2) fo(5,6) by (simp add: no_envs_def)
qed

section \<open>Theorems\<close>


definition demo_cmos :: "u8 \<Rightarrow> u8" where
  "demo_cmos r = (if r = NVRAM_EXT16LO + 1 then 7 else if r = NVRAM_BASELO then 0x80 else if r = NVRAM_BASELO + 1 then 2 else 0)"

lemma demo_ready: "boot_ready demo_cmos 0xF0120000 0xF0110000 0xF0118000 bss_state"
  and demo_pages: "npages (i386_detect_memory demo_cmos bss_state) = 0x8000"
  by (simp_all add: boot_ready_def demo_cmos_def i386_detect_memory_def nvram_read_def mc146818_read_def koutb_def Let_def
      bss_state_def curenv_def zero_cpu_def buf_ok_def zero_console_def jos_consts)




end
