(* ===== verification/User_Lib.thy ===== *)
theory User_Lib
  imports Syscall Kernel_Spec Pgfault_Spec
begin

text \<open>
  The library that user programs are linked with: system call stubs, page fault handling,
  copy-on-write \<open>fork\<close>, messages, the start of a program and console input (\<^verbatim>\<open>lib/syscall.c\<close>,
  \<^verbatim>\<open>lib/pgfault.c\<close>, \<^verbatim>\<open>lib/fork.c\<close>, \<^verbatim>\<open>lib/ipc.c\<close>, \<^verbatim>\<open>lib/libmain.c\<close>, \<^verbatim>\<open>lib/exit.c\<close>, \<^verbatim>\<open>lib/console.c\<close>).

  The functions run in user mode of the current environment on the state of the machine.  What the
  instruction \<open>int $T_SYSCALL\<close> does, up to the moment when the environment runs again, is the argument
  \<open>int30\<close>: it gets the number of the call and the five registers and gives the new value of \<open>%eax\<close>,
  or nothing when the environment does not run again.
\<close>

section \<open>Outcomes of user code\<close>

text \<open>
  \<open>UPanic\<close> is a call of \<open>panic\<close> with a format, which prints a message and enters the monitor by \<open>int3\<close>, for ever;
  \<open>UFault\<close> is an access that the page tables do not allow; \<open>UStopped\<close>: the environment does not
  run again.
\<close>

datatype 'a uout = UDone 'a kstate | UPanic string kstate | UFault u32 kstate | UStopped kstate

fun ubind :: "'a uout \<Rightarrow> ('a \<Rightarrow> kstate \<Rightarrow> 'b uout) \<Rightarrow> 'b uout" where
  "ubind (UDone x s) f = f x s"
| "ubind (UPanic m s) f = UPanic m s"
| "ubind (UFault a s) f = UFault a s"
| "ubind (UStopped s) f = UStopped s"

fun ufor :: "('a \<Rightarrow> kstate \<Rightarrow> unit uout) \<Rightarrow> 'a list \<Rightarrow> kstate \<Rightarrow> unit uout" where
  "ufor f [] s = UDone () s"
| "ufor f (x # xs) s = ubind (f x s) (\<lambda>_. ufor f xs)"

type_synonym sysint = "u32 \<Rightarrow> u32 \<Rightarrow> u32 \<Rightarrow> u32 \<Rightarrow> u32 \<Rightarrow> u32 \<Rightarrow> kstate \<Rightarrow> (u32 \<times> kstate) option"

text \<open>The global variables of the library, in the memory of each program.\<close>

record uvars =
  pgfault_handler :: u32
  thisenv :: nat
  binaryname :: string

text \<open>Reading a word in user mode.\<close>

definition user_load :: "u32 \<Rightarrow> kstate \<Rightarrow> u32 uout" where
  "user_load va s =
     (if flag (hw_pde s va) PTE_P \<and> flag (hw_pde s va) PTE_U \<and> flag (hw_pte s va) PTE_P \<and> flag (hw_pte s va) PTE_U
      then UDone (phys s (vpa s va)) s else UFault va s)"

text \<open>
  \<open>memmove(dst, src, PGSIZE)\<close> between two whole pages: every byte of the source page is read before
  it could be overwritten (\<open>String_Spec\<close>), so the words are copied at once.
\<close>

definition user_copy_page :: "u32 \<Rightarrow> u32 \<Rightarrow> kstate \<Rightarrow> unit uout" where
  "user_copy_page dst src s =
     ubind (user_load src s) (\<lambda>_ s. ubind (user_load dst s) (\<lambda>_ s.
       if flag (hw_pde s dst) PTE_W \<and> flag (hw_pte s dst) PTE_W
       then UDone () (kcopy_page (PTE_ADDR (hw_pte s dst) + KERNBASE) (PTE_ADDR (hw_pte s src) + KERNBASE) s)
       else UFault dst s))"

definition user_store8 :: "u32 \<Rightarrow> u8 \<Rightarrow> kstate \<Rightarrow> unit uout" where
  "user_store8 va b s =
     (if flag (hw_pde s va) PTE_P \<and> flag (hw_pde s va) PTE_U \<and> flag (hw_pde s va) PTE_W \<and>
         flag (hw_pte s va) PTE_P \<and> flag (hw_pte s va) PTE_U \<and> flag (hw_pte s va) PTE_W
      then UDone () (pput8 (vpa s va) b s) else UFault va s)"

section \<open>System call stubs\<close>

definition user_syscall :: "sysint \<Rightarrow> u32 \<Rightarrow> bool \<Rightarrow> u32 \<Rightarrow> u32 \<Rightarrow> u32 \<Rightarrow> u32 \<Rightarrow> u32 \<Rightarrow> kstate \<Rightarrow> u32 uout" where
  "user_syscall int30 num check a1 a2 a3 a4 a5 s =
     (case int30 num a1 a2 a3 a4 a5 s of
        None \<Rightarrow> UStopped s
      | Some (ret, s) \<Rightarrow> if check \<and> 0 < sint ret then UPanic ''syscall %d returned %d (> 0)'' s else UDone ret s)"

definition user_cputs :: "sysint \<Rightarrow> u32 \<Rightarrow> u32 \<Rightarrow> kstate \<Rightarrow> unit uout" where
  "user_cputs int30 p len s = ubind (user_syscall int30 SYS_cputs False p len 0 0 0 s) (\<lambda>_. UDone ())"

definition user_cgetc :: "sysint \<Rightarrow> kstate \<Rightarrow> u32 uout" where
  "user_cgetc int30 s = user_syscall int30 SYS_cgetc False 0 0 0 0 0 s"

definition user_env_destroy :: "sysint \<Rightarrow> u32 \<Rightarrow> kstate \<Rightarrow> u32 uout" where
  "user_env_destroy int30 envid s = user_syscall int30 SYS_env_destroy True envid 0 0 0 0 s"

definition user_getenvid :: "sysint \<Rightarrow> kstate \<Rightarrow> u32 uout" where
  "user_getenvid int30 s = user_syscall int30 SYS_getenvid False 0 0 0 0 0 s"

definition user_yield :: "sysint \<Rightarrow> kstate \<Rightarrow> unit uout" where
  "user_yield int30 s = ubind (user_syscall int30 SYS_yield False 0 0 0 0 0 s) (\<lambda>_. UDone ())"

definition user_page_alloc :: "sysint \<Rightarrow> u32 \<Rightarrow> u32 \<Rightarrow> u32 \<Rightarrow> kstate \<Rightarrow> u32 uout" where
  "user_page_alloc int30 envid va perm s = user_syscall int30 SYS_page_alloc True envid va perm 0 0 s"

definition user_page_map :: "sysint \<Rightarrow> u32 \<Rightarrow> u32 \<Rightarrow> u32 \<Rightarrow> u32 \<Rightarrow> u32 \<Rightarrow> kstate \<Rightarrow> u32 uout" where
  "user_page_map int30 srcenv srcva dstenv dstva perm s = user_syscall int30 SYS_page_map True srcenv srcva dstenv dstva perm s"

definition user_page_unmap :: "sysint \<Rightarrow> u32 \<Rightarrow> u32 \<Rightarrow> kstate \<Rightarrow> u32 uout" where
  "user_page_unmap int30 envid va s = user_syscall int30 SYS_page_unmap True envid va 0 0 0 s"

definition user_env_set_status :: "sysint \<Rightarrow> u32 \<Rightarrow> u32 \<Rightarrow> kstate \<Rightarrow> u32 uout" where
  "user_env_set_status int30 envid status s = user_syscall int30 SYS_env_set_status True envid status 0 0 0 s"

definition user_env_set_pgfault_upcall :: "sysint \<Rightarrow> u32 \<Rightarrow> u32 \<Rightarrow> kstate \<Rightarrow> u32 uout" where
  "user_env_set_pgfault_upcall int30 envid upcall s = user_syscall int30 SYS_env_set_pgfault_upcall True envid upcall 0 0 0 s"

definition user_ipc_try_send :: "sysint \<Rightarrow> u32 \<Rightarrow> u32 \<Rightarrow> u32 \<Rightarrow> u32 \<Rightarrow> kstate \<Rightarrow> u32 uout" where
  "user_ipc_try_send int30 envid v srcva perm s = user_syscall int30 SYS_ipc_try_send False envid v srcva perm 0 s"

definition user_ipc_recv :: "sysint \<Rightarrow> u32 \<Rightarrow> kstate \<Rightarrow> u32 uout" where
  "user_ipc_recv int30 dstva s = user_syscall int30 SYS_ipc_recv True dstva 0 0 0 0 s"

text \<open>\<open>sys_exofork\<close> (\<^verbatim>\<open>inc/lib.h\<close>) sets no register but \<open>%eax\<close>; the other five have whatever values.\<close>

definition user_exofork :: "sysint \<Rightarrow> kstate \<Rightarrow> u32 uout" where
  "user_exofork int30 s =
     (case int30 SYS_exofork 0 0 0 0 0 s of None \<Rightarrow> UStopped s | Some (ret, s) \<Rightarrow> UDone ret s)"

text \<open>\<open>if ((r = call) < 0) panic(msg);\<close>\<close>

definition or_panic :: "string \<Rightarrow> u32 uout \<Rightarrow> unit uout" where
  "or_panic msg m = ubind m (\<lambda>r s. if sint r < 0 then UPanic msg s else UDone () s)"

section \<open>Page faults\<close>

definition set_pgfault_handler :: "sysint \<Rightarrow> u32 \<Rightarrow> u32 \<Rightarrow> uvars \<Rightarrow> kstate \<Rightarrow> uvars uout" where
  "set_pgfault_handler int30 upcall handler u s =
     ubind (if pgfault_handler u = 0
       then ubind (user_getenvid int30 s) (\<lambda>eid s.
            ubind (or_panic ''set_pgfault_handler: %e'' (user_page_alloc int30 eid (UXSTACKTOP - PGSIZE) (PTE_U OR PTE_P OR PTE_W) s)) (\<lambda>_ s.
            or_panic ''set_pgfault_handler: %e'' (user_env_set_pgfault_upcall int30 eid upcall s)))
       else UDone () s) (\<lambda>_ s. UDone (u\<lparr>pgfault_handler := handler\<rparr>) s)"

definition PTE_COW :: u32 where [jos_consts]: "PTE_COW = 0x800"
definition PTE_SHARE :: u32 where [jos_consts]: "PTE_SHARE = 0x400"

text \<open>The page tables and the directory as the program sees them (\<^verbatim>\<open>lib/entry.S\<close>).\<close>

definition uvpt :: "u32 \<Rightarrow> kstate \<Rightarrow> u32 uout" where
  "uvpt pn s = user_load (UVPT + 4 * pn) s"

definition uvpd :: "u32 \<Rightarrow> kstate \<Rightarrow> u32 uout" where
  "uvpd i s = user_load (UVPT + PGNUM UVPT * 4 + 4 * i) s"

definition pgfault :: "sysint \<Rightarrow> u32 \<Rightarrow> u32 \<Rightarrow> kstate \<Rightarrow> unit uout" where
  "pgfault int30 fault_va err s =
     ubind (if flag err FEC_WR then ubind (uvpt (PGNUM fault_va) s) (\<lambda>e. UDone (flag e PTE_COW)) else UDone False s) (\<lambda>cow s.
       if \<not> cow then UPanic ''pgfault():not cow'' s
       else let addr = ROUNDDOWN fault_va PGSIZE in
         ubind (or_panic ''sys_page_map: %e'' (user_page_map int30 0 addr 0 PFTEMP (PTE_U OR PTE_P) s)) (\<lambda>_ s.
         ubind (or_panic ''sys_page_alloc: %e'' (user_page_alloc int30 0 addr (PTE_P OR PTE_U OR PTE_W) s)) (\<lambda>_ s.
         ubind (user_copy_page addr PFTEMP s) (\<lambda>_ s.
         or_panic ''sys_page_unmap: %e'' (user_page_unmap int30 0 PFTEMP s)))))"

section \<open>fork\<close>

text \<open>The message of the two panics of \<open>duppage\<close> has a full-width colon in the source.\<close>

definition duppage :: "sysint \<Rightarrow> u32 \<Rightarrow> u32 \<Rightarrow> kstate \<Rightarrow> u32 uout" where
  "duppage int30 envid pn s =
     (let addr = pn * PGSIZE in
      ubind (uvpt pn s) (\<lambda>e s.
        if flag e PTE_SHARE then ubind (user_page_map int30 0 addr envid addr PTE_SYSCALL s) (\<lambda>_. UDone 0)
        else ubind (uvpt pn s) (\<lambda>e s. ubind (if flag e PTE_W then UDone True s else ubind (uvpt pn s) (\<lambda>e. UDone (flag e PTE_COW))) (\<lambda>w s.
          if w then
            ubind (or_panic ''sys_page_map: %e'' (user_page_map int30 0 addr envid addr (PTE_COW OR PTE_U OR PTE_P) s)) (\<lambda>_ s.
            ubind (or_panic ''sys_page_map: %e'' (user_page_map int30 0 addr 0 addr (PTE_COW OR PTE_U OR PTE_P) s)) (\<lambda>_. UDone 0))
          else ubind (user_page_map int30 0 addr envid addr (PTE_U OR PTE_P) s) (\<lambda>_. UDone 0)))))"

text \<open>The body of the loop of \<open>fork\<close> for the page at \<open>addr\<close>.\<close>

definition fork_page :: "sysint \<Rightarrow> u32 \<Rightarrow> u32 \<Rightarrow> kstate \<Rightarrow> unit uout" where
  "fork_page int30 envid addr s =
     ubind (uvpd (PDX addr) s) (\<lambda>d s.
       if \<not> flag d PTE_P then UDone () s
       else ubind (uvpt (PGNUM addr) s) (\<lambda>e s.
         if \<not> flag e PTE_P then UDone () s
         else ubind (uvpt (PGNUM addr) s) (\<lambda>e s.
           if \<not> flag e PTE_U then UDone () s
           else ubind (duppage int30 envid (PGNUM addr) s) (\<lambda>_. UDone ()))))"

definition user_pages :: "u32 list" where
  "user_pages = map (\<lambda>i. of_nat i * PGSIZE) [0..<unat (USTACKTOP div PGSIZE)]"

text \<open>\<open>upcall\<close> and \<open>handler\<close> are the addresses of \<open>_pgfault_upcall\<close> and \<open>pgfault\<close>.\<close>

definition fork :: "sysint \<Rightarrow> u32 \<Rightarrow> u32 \<Rightarrow> uvars \<Rightarrow> kstate \<Rightarrow> (u32 \<times> uvars) uout" where
  "fork int30 upcall handler u s =
     ubind (set_pgfault_handler int30 upcall handler u s) (\<lambda>u s.
     ubind (user_exofork int30 s) (\<lambda>envid s.
       if envid = 0 then ubind (user_getenvid int30 s) (\<lambda>id. UDone (0, u\<lparr>thisenv := ENVX id\<rparr>))
       else if sint envid < 0 then UPanic ''sys_exofork: %e'' s
       else ubind (ufor (fork_page int30 envid) user_pages s) (\<lambda>_ s.
         ubind (or_panic ''sys_page_alloc: %e'' (user_page_alloc int30 envid (UXSTACKTOP - PGSIZE) (PTE_P OR PTE_W OR PTE_U) s)) (\<lambda>_ s.
         ubind (user_env_set_pgfault_upcall int30 envid upcall s) (\<lambda>_ s.
         ubind (or_panic ''sys_env_set_status: %e'' (user_env_set_status int30 envid (status_code ENV_RUNNABLE) s)) (\<lambda>_.
         UDone (envid, u)))))))"

definition sfork :: "kstate \<Rightarrow> u32 uout" where
  "sfork s = UPanic ''sfork not implemented'' s"

section \<open>Messages\<close>

text \<open>
  \<open>from_env_store\<close> and \<open>perm_store\<close> say which of the two pointers is not \<open>NULL\<close>; what is stored through
  them is part of the result.  The \<open>NULL\<close> of \<open>pg\<close> is 0.
\<close>

definition ipc_recv :: "sysint \<Rightarrow> uvars \<Rightarrow> bool \<Rightarrow> u32 \<Rightarrow> bool \<Rightarrow> kstate \<Rightarrow> (u32 \<times> u32 option \<times> u32 option) uout" where
  "ipc_recv int30 u from_env_store pg perm_store s =
     (let pg = (if pg = 0 then -1 else pg);
          store = (\<lambda>nonnull v. if nonnull then Some v else None) in
      ubind (user_ipc_recv int30 pg s) (\<lambda>r s.
        if sint r < 0 then UDone (r, store from_env_store 0, store perm_store 0) s
        else let v = envs s (thisenv u) in
          UDone (env_ipc_value v, store from_env_store (env_ipc_from v), store perm_store (env_ipc_perm v)) s))"

partial_function (option) ipc_send_loop :: "sysint \<Rightarrow> u32 \<Rightarrow> u32 \<Rightarrow> u32 \<Rightarrow> u32 \<Rightarrow> kstate \<Rightarrow> unit uout option" where
  "ipc_send_loop int30 to_env v pg perm s =
     (case user_ipc_try_send int30 to_env v pg perm s of
        UDone r s \<Rightarrow>
          if r = 0 then Some (UDone () s)
          else if r = neg_errno E_IPC_NOT_RECV then
            (case user_yield int30 s of
               UDone _ s \<Rightarrow> ipc_send_loop int30 to_env v pg perm s
             | m \<Rightarrow> Some m)
          else Some (UPanic ''ipc_send():%e'' s)
      | UPanic m s \<Rightarrow> Some (UPanic m s)
      | UFault a s \<Rightarrow> Some (UFault a s)
      | UStopped s \<Rightarrow> Some (UStopped s))"

definition ipc_send :: "sysint \<Rightarrow> u32 \<Rightarrow> u32 \<Rightarrow> u32 \<Rightarrow> u32 \<Rightarrow> kstate \<Rightarrow> unit uout option" where
  "ipc_send int30 to_env v pg perm s = ipc_send_loop int30 to_env v (if pg = 0 then -1 else pg) perm s"

definition ipc_find_env :: "EnvType \<Rightarrow> kstate \<Rightarrow> u32" where
  "ipc_find_env type s =
     (case find (\<lambda>i. env_type (envs s i) = type) [0..<NENV] of Some i \<Rightarrow> env_id (envs s i) | None \<Rightarrow> 0)"

section \<open>Start and end of a program, console\<close>

definition user_exit :: "sysint \<Rightarrow> kstate \<Rightarrow> unit uout" where
  "user_exit int30 s = ubind (user_env_destroy int30 0 s) (\<lambda>_. UDone ())"

text \<open>\<open>umain\<close> is the program.\<close>

definition libmain ::
  "sysint \<Rightarrow> (u32 \<Rightarrow> string list \<Rightarrow> uvars \<Rightarrow> kstate \<Rightarrow> unit uout) \<Rightarrow> u32 \<Rightarrow> string list \<Rightarrow> uvars \<Rightarrow> kstate \<Rightarrow> unit uout" where
  "libmain int30 umain argc argv u s =
     ubind (user_getenvid int30 s) (\<lambda>envid s.
       let u = u\<lparr>thisenv := ENVX envid\<rparr>;
           u = (if 0 < sint argc then u\<lparr>binaryname := hd argv\<rparr> else u) in
       ubind (umain argc argv u s) (\<lambda>_ s. user_exit int30 s))"

text \<open>\<open>at\<close> is where the local variable \<open>c\<close> lies on the stack.\<close>

definition user_cputchar :: "sysint \<Rightarrow> u32 \<Rightarrow> u32 \<Rightarrow> kstate \<Rightarrow> unit uout" where
  "user_cputchar int30 at ch s = ubind (user_store8 at (ucast ch) s) (\<lambda>_ s. user_cputs int30 at 1 s)"

partial_function (option) user_getchar :: "sysint \<Rightarrow> kstate \<Rightarrow> u32 uout option" where
  "user_getchar int30 s =
     (case user_cgetc int30 s of
        UDone r s \<Rightarrow>
          if r = 0 then (case user_yield int30 s of
              UDone _ s \<Rightarrow> user_getchar int30 s
            | UPanic m s \<Rightarrow> Some (UPanic m s)
            | UFault a s \<Rightarrow> Some (UFault a s)
            | UStopped s \<Rightarrow> Some (UStopped s))
          else Some (UDone r s)
      | m \<Rightarrow> Some m)"

end
