(* ===== verification/User_Spec.thy ===== *)
theory User_Spec
  imports User_Lib
begin

text \<open>
  The user library on the kernel as it is, whose dispatcher serves five of the system calls and
  drops their results (\<open>Kernel_Spec\<close>).
\<close>

text \<open>The system calls that the kernel completes, by its own dispatcher.\<close>

definition kernel_int :: sysint where
  "kernel_int no a1 a2 a3 a4 a5 s =
     (case syscall no a1 a2 a3 a4 a5 s of Ret r t \<Rightarrow> Some (r, t) | _ \<Rightarrow> None)"

locale kernel_syscalls =
  fixes int30 :: sysint
  assumes dispatch_law: "syscall no a1 a2 a3 a4 a5 s = Ret r t \<Longrightarrow> int30 no a1 a2 a3 a4 a5 s = Some (r, t)"
begin

lemma getenvid_is_zero:
  assumes "curenv s = Some c"
  shows "user_getenvid int30 s = UDone 0 s"
proof -
  have "syscall SYS_getenvid 0 0 0 0 0 s = Ret 0 s" using assms by (simp add: syscall_def sys_getenvid_def jos_consts)
  then show ?thesis by (simp add: user_getenvid_def user_syscall_def dispatch_law)
qed

lemma page_alloc_is_refused: "user_page_alloc int30 eid va perm s = UDone (neg_errno E_INVAL) s"
proof -
  have "syscall SYS_page_alloc eid va perm 0 0 s = Ret (neg_errno E_INVAL) s" by (simp add: syscall_def jos_consts)
  then show ?thesis by (simp add: user_page_alloc_def user_syscall_def dispatch_law neg_errno_def)
qed

end

interpretation ki: kernel_syscalls kernel_int
  by unfold_locales (simp add: kernel_int_def)


text \<open>The small system with environment 1 as the current one.\<close>

definition k_second :: kstate where
  "k_second = k_small\<lparr>cpus := (cpus k_small)(0 := zero_cpu\<lparr>cpu_env := Some 1\<rparr>)\<rparr>"


end
