(* ===== verification/Cow_Steps.thy ===== *)
theory Cow_Steps
  imports User_Lib
begin

text \<open>
  Copy-on-write in the user library: the steps of \<open>pgfault\<close> and \<open>duppage\<close> (\<^verbatim>\<open>lib/fork.c\<close>), over the
  interface of the three system calls that they use.
\<close>

section \<open>The page system calls\<close>

text \<open>What a system call handler returns, as the value of \<open>%eax\<close>.\<close>

fun eax_of :: "jerror + u32 \<Rightarrow> u32" where
  "eax_of (Inl e) = neg_errno e"
| "eax_of (Inr v) = v"

text \<open>
  The interface that the library relies on: \<open>int $T_SYSCALL\<close> with the number of one of the three page
  calls runs its handler in the kernel and returns the handler's result.
\<close>

locale page_syscalls =
  fixes int30 :: sysint
  assumes alloc_law: "sys_page_alloc e va perm s = Ret r t \<Longrightarrow> int30 SYS_page_alloc e va perm 0 0 s = Some (eax_of r, t)"
    and map_law: "sys_page_map e va e' va' perm s = Ret r t \<Longrightarrow> int30 SYS_page_map e va e' va' perm s = Some (eax_of r, t)"
    and unmap_law: "sys_page_unmap e va s = Ret r t \<Longrightarrow> int30 SYS_page_unmap e va 0 0 0 s = Some (eax_of r, t)"
begin

lemma neg_errno_sign: "sint (neg_errno err) < 0"
  by (cases err) (simp_all add: neg_errno_def)

lemma alloc_stub:
  "sys_page_alloc e va perm s = Ret (Inr 0) t \<Longrightarrow> user_page_alloc int30 e va perm s = UDone 0 t"
  "sys_page_alloc e va perm s = Ret (Inl err) t \<Longrightarrow> user_page_alloc int30 e va perm s = UDone (neg_errno err) t"
  using neg_errno_sign [of err] by (simp_all add: user_page_alloc_def user_syscall_def alloc_law)

lemma map_stub:
  "sys_page_map e va e' va' perm s = Ret (Inr 0) t \<Longrightarrow> user_page_map int30 e va e' va' perm s = UDone 0 t"
  "sys_page_map e va e' va' perm s = Ret (Inl err) t \<Longrightarrow> user_page_map int30 e va e' va' perm s = UDone (neg_errno err) t"
  using neg_errno_sign [of err] by (simp_all add: user_page_map_def user_syscall_def map_law)

lemma unmap_stub:
  "sys_page_unmap e va s = Ret (Inr 0) t \<Longrightarrow> user_page_unmap int30 e va s = UDone 0 t"
  by (simp add: user_page_unmap_def user_syscall_def unmap_law)

end

text \<open>A kernel that passes these three calls on to the handlers of \<^verbatim>\<open>kern/syscall.c\<close> provides it.\<close>

definition handlers_int :: sysint where
  "handlers_int no a1 a2 a3 a4 a5 s =
     (case (if no = SYS_page_alloc then sys_page_alloc a1 a2 a3 s
            else if no = SYS_page_map then sys_page_map a1 a2 a3 a4 a5 s
            else if no = SYS_page_unmap then sys_page_unmap a1 a2 s
            else Ret (Inl E_INVAL) s) of
        Ret r t \<Rightarrow> Some (eax_of r, t) | _ \<Rightarrow> None)"

interpretation hi: page_syscalls handlers_int
  by unfold_locales (simp_all add: handlers_int_def jos_consts)

section \<open>The address space of the running environment\<close>

text \<open>
  Environment \<open>c\<close> runs in its own address space, with its directory mapped read-only at \<open>UVPT\<close> (as
  \<open>env_setup_vm\<close> leaves it), and its page tables do not restrict what their entries allow (as
  \<open>pgdir_walk\<close> creates them).
\<close>

definition user_runs :: "kstate \<Rightarrow> nat \<Rightarrow> bool" where
  "user_runs s c \<longleftrightarrow> (let q = env_dir s c in
     curenv s = Some c \<and> cr3 s = page2pa q \<and> pde s q (PDX UVPT) = page2pa q OR PTE_P OR PTE_U \<and>
     (\<forall>i < PDX UTOP. flag (pde s q i) PTE_P \<longrightarrow> flag (pde s q i) PTE_U \<and> flag (pde s q i) PTE_W))"

lemma user_runs_step:
  assumes "user_runs s c" and "env_dir s c \<in> dirs s" and "vm_only s t" and "dirs_grow (dirs s) s t"
  shows "user_runs t c" and "env_dir t c = env_dir s c"
proof -
  let ?q = "env_dir s c"
  have e: "env_dir t c = ?q" "cr3 t = cr3 s" "curenv t = curenv s"
    using assms(3) by (simp_all add: vm_only_def env_dir_def curenv_def)
  have gr: "pde t ?q i = pde s ?q i \<or> (i < PDX UTOP \<and> pde_grow (pde s ?q i) (pde t ?q i))" if "unat i < 1024" for i
    using assms(2,4) that by (auto simp: dirs_grow_def)
  have "pde t ?q (PDX UVPT) = pde s ?q (PDX UVPT)"
    using gr [of "PDX UVPT"] by (simp add: PDX_def jos_consts)
  moreover have "flag (pde t ?q i) PTE_U \<and> flag (pde t ?q i) PTE_W" if i: "i < PDX UTOP" "flag (pde t ?q i) PTE_P" for i
    using gr [OF upde_less [OF i(1)]] assms(1) i unfolding user_runs_def Let_def pde_grow_def by auto
  ultimately show "user_runs t c" using assms(1) by (simp add: user_runs_def Let_def e)
  show "env_dir t c = ?q" by (rule e(1))
qed

text \<open>Through the directory that maps itself, \<open>uvpt\<close> is the array of all page table entries.\<close>

lemma uvpt_address:
  "PDX (UVPT + 4 * PGNUM va) = PDX UVPT" "PTX (UVPT + 4 * PGNUM va) = PDX va" "PGOFF (UVPT + 4 * PGNUM va) = 4 * PTX va"
proof -
  have n: "unat (PGNUM va) < 0x100000" by (rule PGNUM_less)
  then have "unat (4 * PGNUM va) = 4 * unat (PGNUM va)" by (simp add: unat_word_ariths)
  then have u: "unat (UVPT + 4 * PGNUM va) = 0xEF400000 + 4 * (unat va div 4096)"
    using n by (simp add: unat_word_ariths unat_PGNUM jos_consts)
  show "PDX (UVPT + 4 * PGNUM va) = PDX UVPT"
    using n by (simp add: word_unat_eq_iff addr_simps u) (simp add: unat_PGNUM jos_consts)
  show "PTX (UVPT + 4 * PGNUM va) = PDX va"
  proof -
    have "(0xEF400000 + 4 * m) div 4096 mod 1024 = m div 1024 mod 1024" for m :: nat
    proof -
      have "(0xEF400000 + 4 * m) div 4096 = 1024 * 957 + m div 1024" by linarith
      then show ?thesis by (simp only: mod_mult_self4)
    qed
    from this [of "unat va div 4096"] show ?thesis by (simp add: word_unat_eq_iff addr_simps u div_mult2_eq [symmetric])
  qed
  show "PGOFF (UVPT + 4 * PGNUM va) = 4 * PTX va"
  proof -
    have "unat (4 * PTX va) = 4 * unat (PTX va)" using PTX_less [of va] by (simp add: unat_word_ariths)
    moreover have "(0xEF400000 + 4 * m) mod 4096 = 4 * (m mod 1024)" for m :: nat
      using mod_mult_self4 [of 4096 979968 "4 * m"] by (simp add: mult_mod_right)
    ultimately show ?thesis by (simp only: word_unat_eq_iff unat_PGOFF u unat_PTX)
  qed
qed


lemma kinv_runs:
  assumes "kinv k R fl s" and "user_runs s c"
  shows "live s c" and "env_dir s c \<in> dirs s" and "PTE_ADDR (cr3 s) = page2pa (env_dir s c)"
    and "envid2env 0 True s = Ret (Inr (Some c)) s"
proof -
  have c: "curenv s = Some c" "cr3 s = page2pa (env_dir s c)" using assms(2) by (simp_all add: user_runs_def Let_def)
  then show l: "live s c" by (intro kinvD(7) [OF assms(1)])
  then show q: "env_dir s c \<in> dirs s" by (rule live_dir)
  have "unat (env_dir s c) < 0x100000" using dir_bound [OF vm_inv_shape [OF kinvD(1) [OF assms(1)]] q] by simp
  then show "PTE_ADDR (cr3 s) = page2pa (env_dir s c)" using c(2) page2pa_PGNUM PGNUM_page2pa by metis
  show "envid2env 0 True s = Ret (Inr (Some c)) s" using c(1) by (simp add: envid2env_def)
qed

lemma uvpt_reads:
  assumes "kinv k R fl s" and "user_runs s c" and "va < UTOP" and "flag (pde s (env_dir s c) (PDX va)) PTE_P"
  shows "uvpt (PGNUM va) s = UDone (pte s (env_dir s c) (PDX va) (PTX va)) s"
proof -
  let ?q = "env_dir s c" and ?va = "UVPT + 4 * PGNUM va"
  note r = kinv_runs [OF assms(1,2)] and sh = vm_inv_shape [OF kinvD(1) [OF assms(1)]]
  note i = PDX_user [OF assms(3)]
  have self: "pde s ?q (PDX UVPT) = page2pa ?q OR PTE_P OR PTE_U" using assms(2) by (simp add: user_runs_def Let_def)
  have qb: "unat ?q < 0x10000" by (rule dir_bound [OF sh r(2)])
  have "PGNUM (pde s ?q (PDX UVPT)) = ?q" unfolding self using qb by (simp add: PGNUM_page2pa)
  then have d: "hw_pde s ?va = page2pa ?q OR PTE_P OR PTE_U" "hw_pte s ?va = pde s ?q (PDX va)"
    by (simp_all only: hw_entries [OF r(3)] uvpt_address self pte_def pde_def [of s ?q "PDX va"])
  have "vpa s ?va = page2pa (PGNUM (pde s ?q (PDX va))) + 4 * PTX va"
    using word_in_page_split(2) [OF table_bound [OF sh r(2) i assms(4)] PTX_less]
    by (simp add: vpa_def d uvpt_address page2pa_PGNUM)
  moreover have "flag (pde s ?q (PDX va)) PTE_U" using assms(2,4) i by (simp add: user_runs_def Let_def)
  ultimately show ?thesis
    using assms(4) by (simp add: uvpt_def user_load_def d pte_def kload_def kva_offset)
qed


section \<open>Data pages\<close>

lemma mapped_data:
  assumes "kinv k R fl s" and "q \<in> dirs s" and "va < UTOP" and "vmap s q va = Some x"
  shows "no_table (dirs s) s (PGNUM x)" and "PGNUM x \<notin> set fl" and "PGNUM x < npages s" and "flag x PTE_P"
    and "refers (dirs s) s (PageRef q (PDX va) (PTX va)) (PGNUM x)"
proof -
  note inv = kinvD(1) [OF assms(1)] and sh = vm_inv_shape [OF kinvD(1) [OF assms(1)]]
  show r: "refers (dirs s) s (PageRef q (PDX va) (PTX va)) (PGNUM x)"
    using assms(2-4) by (auto simp: vmap_def PDX_user split: if_splits)
  show "no_table (dirs s) s (PGNUM x)" unfolding no_table_def using pt_shape_sole [OF sh _ _ r] by (metis is_table.simps(3))
  show "PGNUM x \<notin> set fl" by (rule vm_inv_referred_not_free [OF inv r])
  show "PGNUM x < npages s" by (rule pt_shape_valid [OF sh r])
  show "flag x PTE_P" using assms(4) by (auto simp: vmap_def split: if_splits)
qed

lemma page_addr:
  assumes "va < UTOP"
  shows "PGNUM (ROUNDDOWN va PGSIZE) = PGNUM va" and "\<not> bad_va (ROUNDDOWN va PGSIZE)" and "ROUNDDOWN va PGSIZE < UTOP"
proof -
  show n: "PGNUM (ROUNDDOWN va PGSIZE) = PGNUM va"
    by (simp add: word_unat_eq_iff unat_PGNUM unat_ROUNDDOWN_PGSIZE)
  have "ROUNDDOWN va PGSIZE \<le> va" by (simp add: word_le_nat_alt unat_ROUNDDOWN_PGSIZE)
  then show l: "ROUNDDOWN va PGSIZE < UTOP" using assms by (rule order_le_less_trans)
  have "ROUNDDOWN (ROUNDDOWN va PGSIZE) PGSIZE = ROUNDDOWN va PGSIZE"
    by (simp add: word_unat_eq_iff unat_ROUNDDOWN_PGSIZE)
  then show "\<not> bad_va (ROUNDDOWN va PGSIZE)" using l by (simp add: bad_va_def not_le)
qed

lemma vmap_page: "PGNUM a = PGNUM b \<Longrightarrow> vmap s q a = vmap s q b"
  using same_page [of a b] by (simp add: vmap_def)

lemma data_page_vmap:
  assumes "pt_shape D s" and "no_table D s z" and "confined z s t" and "q \<in> D" and "va < UTOP"
  shows "vmap t q va = vmap s q va"
  using data_page_entries [OF assms(1-4) PDX_user [OF assms(5)]] PTX_word_less [of va] by (auto simp: vmap_def)

lemma data_page_grow:
  assumes "pt_shape D s" and "no_table D s z" and "confined z s t"
  shows "dirs_grow D s t"
proof (rule dirs_grow_same)
  fix q i assume q: "q \<in> D" "unat (i :: u32) < 1024"
  have "q \<noteq> z" using no_tableD(1) [OF assms(2) q(1)] by simp
  then show "pde t q i = pde s q i"
    using confined_kload [OF assms(3) dir_bound [OF assms(1) q(1)] q(2)] by (simp add: pde_def)
qed

lemma user_copy_ok:
  assumes "kinv k R fl s" and "user_runs s c" and "a < UTOP" and "b < UTOP"
    and "vmap s (env_dir s c) a = Some x" and "flag x PTE_U" and "flag x PTE_W" and "R (PGNUM x) = 0"
    and "vmap s (env_dir s c) b = Some y" and "flag y PTE_U"
  obtains t where "user_copy_page a b s = UDone () t" and "kinv k R fl t" and "vm_only s t" and "confined (PGNUM x) s t"
    and "\<And>j. unat j < 1024 \<Longrightarrow> kload t (kva (PGNUM x) j) = kload s (kva (PGNUM y) j)"
proof -
  let ?q = "env_dir s c" and ?t = "kcopy_page (kva (PGNUM x) 0) (kva (PGNUM y) 0) s"
  note r = kinv_runs [OF assms(1,2)] and inv = kinvD [OF assms(1)]
  note sh = vm_inv_shape [OF inv(1)]
  note dx = mapped_data [OF assms(1) r(2) assms(3,5)] and dy = mapped_data [OF assms(1) r(2) assms(4,9)]
  have e: "hw_pte s a = x" "hw_pte s b = y" "flag (hw_pde s a) PTE_P" "flag (hw_pde s b) PTE_P"
    using assms(5,9) by (auto simp: hw_entries [OF r(3)] vmap_def split: if_splits)
  then have f: "flag (hw_pde s a) PTE_U" "flag (hw_pde s a) PTE_W" "flag (hw_pde s b) PTE_U"
    using assms(2) PDX_user [OF assms(3)] PDX_user [OF assms(4)] by (simp_all add: hw_entries [OF r(3)] user_runs_def Let_def)
  have bx: "unat (PGNUM x) < 0x10000" "unat (PGNUM y) < 0x10000"
    using page_bound [OF pt_shape_npages_ok [OF sh]] dx(3) dy(3) by auto
  have "PTE_ADDR z + KERNBASE = kva (PGNUM z) 0" for z by (simp add: kva_def page2pa_PGNUM)
  then have run: "user_copy_page a b s = UDone () ?t"
    using dx(4) dy(4) assms(6,7,10) e f by (simp add: user_copy_page_def user_load_def)
  have conf: "confined (PGNUM x) s ?t" using bx PGNUM_kva [of "PGNUM x" 0] by (simp add: confined_def kcopy_page_def)
  have "k \<noteq> PGNUM x" using inv(4) assms(8) by auto
  from data_page_kinv [OF assms(1) dx(1) this conf] have "kinv k R fl ?t" by (simp add: kcopy_page_def)
  moreover have "vm_only s ?t" by (simp add: vm_only_def kcopy_page_def)
  ultimately show thesis using that [OF run _ _ conf] kload_kcopy_page [OF bx] by blast
qed


text \<open>The contents of all pages that any environment maps.\<close>

definition keeps_data :: "kstate \<Rightarrow> kstate \<Rightarrow> bool" where
  "keeps_data s t \<longleftrightarrow> (\<forall>q \<in> dirs s. \<forall>va y. va < UTOP \<longrightarrow> vmap s q va = Some y \<longrightarrow> same_words (PGNUM y) s t)"

lemma keeps_dataI:
  assumes "kinv k R fl s" and "\<And>y. no_table (dirs s) s y \<Longrightarrow> y \<notin> set fl \<Longrightarrow> y < npages s \<Longrightarrow> same_words y s t"
  shows "keeps_data s t"
  unfolding keeps_data_def using assms(2) mapped_data [OF assms(1)] by blast

lemma keeps_data_trans:
  assumes "keeps_data s t" and "keeps_data t u" and "dirs t = dirs s"
    and "\<And>q va y. q \<in> dirs s \<Longrightarrow> va < UTOP \<Longrightarrow> vmap s q va = Some y \<Longrightarrow> 
      \<exists>q' \<in> dirs s. \<exists>va' y'. va' < UTOP \<and> vmap t q' va' = Some y' \<and> PGNUM y' = PGNUM y"
  shows "keeps_data s u"
  unfolding keeps_data_def
proof (intro ballI allI impI)
  fix q va y assume y: "q \<in> dirs s" "va < UTOP" "vmap s q va = Some y"
  obtain q' va' y' where "q' \<in> dirs s" "va' < UTOP" "vmap t q' va' = Some y'" "PGNUM y' = PGNUM y"
    using assms(4) [OF y] by blast
  then have "same_words (PGNUM y) t u" using assms(2,3) unfolding keeps_data_def by metis
  then show "same_words (PGNUM y) s u" using assms(1) y by (auto simp: keeps_data_def intro: same_words_trans)
qed

section \<open>A write to a copy-on-write page\<close>

lemma temp_mapping:
  assumes "q0 \<in> dirs s" and "vmap s q0 a = Some x" and "vmap s q0 b = None" and "b < UTOP" and "PGNUM a \<noteq> PGNUM b"
    and "PGNUM y' = PGNUM x"
    and v: "\<And>q va. q \<in> dirs s \<Longrightarrow> va < UTOP \<Longrightarrow> vmap v q va = (if q = q0 \<and> PGNUM va = PGNUM a then Some z
       else if q = q0 \<and> PGNUM va = PGNUM b then Some y' else vmap s q va)"
    and y: "q \<in> dirs s" "va < UTOP" "vmap s q va = Some y"
  shows "\<exists>q' \<in> dirs s. \<exists>va' y'. va' < UTOP \<and> vmap v q' va' = Some y' \<and> PGNUM y' = PGNUM y"
proof (cases "q = q0 \<and> PGNUM va = PGNUM a")
  case True
  then have "y = x" using y(3) assms(2) vmap_page [of va a s q0] by simp
  then show ?thesis using assms(1,4,5,6) v [OF assms(1,4)] by (intro bexI exI [of _ b] exI [of _ y']) auto
next
  case False
  then have "vmap v q va = Some y" using y v [OF y(1,2)] assms(3) vmap_page [of va b s q0] by auto
  then show ?thesis using y by blast
qed

context page_syscalls
begin

lemma pgfault_maps:
  assumes "kinv k R fl s" and "user_runs s c" and "a < UTOP" and "\<not> bad_va a" and "2 \<le> length fl" and "counts_fit s"
    and "vmap s (env_dir s c) a = Some x" and "PGNUM a \<noteq> PGNUM PFTEMP" and "vmap s (env_dir s c) PFTEMP = None"
  obtains t u p fl' where "user_page_map int30 0 a 0 PFTEMP (PTE_U OR PTE_P) s = UDone 0 t"
    and "user_page_alloc int30 0 a (PTE_P OR PTE_U OR PTE_W) t = UDone 0 u"
    and "kinv k R fl' u" and "vm_only s u" and "user_runs u c" and "R p = 0" and "unat p < 0x10000"
    and "\<And>q va. q \<in> dirs s \<Longrightarrow> va < UTOP \<Longrightarrow> vmap u q va =
      (if q = env_dir s c \<and> PGNUM va = PGNUM a then Some (page2pa p OR PTE_P OR PTE_U OR PTE_W)
       else if q = env_dir s c \<and> PGNUM va = PGNUM PFTEMP then Some (page2pa (PGNUM x) OR PTE_U OR PTE_P)
       else vmap s q va)"
    and "\<And>q va y. q \<in> dirs s \<Longrightarrow> va < UTOP \<Longrightarrow> vmap s q va = Some y \<Longrightarrow> PGNUM y \<noteq> p"
    and "keeps_data s u"
proof -
  note r = kinv_runs [OF assms(1,2)]
  let ?q = "env_dir s c"
  have pf: "\<not> bad_va PFTEMP" "PFTEMP < UTOP" by (simp_all add: bad_va_def ROUNDDOWN_def jos_consts)
  have pm: "\<not> bad_perm (PTE_U OR PTE_P)" "PGNUM (PTE_U OR PTE_P) = 0" "\<not> flag (PTE_U OR PTE_P) PTE_W"
    "\<not> bad_perm (PTE_P OR PTE_U OR PTE_W)" "PGNUM (PTE_P OR PTE_U OR PTE_W) = 0"
    by (simp_all add: bad_perm_def PGNUM_def flag_def jos_consts)
  obtain t gl where t: "sys_page_map 0 a 0 PFTEMP (PTE_U OR PTE_P) s = Ret (Inr 0) t" "kinv k R gl t" "vm_only s t"
    "\<And>q va. q \<in> dirs s \<Longrightarrow> va < UTOP \<Longrightarrow> vmap t q va = (if q = ?q \<and> PGNUM va = PGNUM PFTEMP
        then Some (page2pa (PGNUM x) OR (PTE_U OR PTE_P) OR PTE_P) else vmap s q va)"
    "\<And>y. no_table (dirs s) s y \<Longrightarrow> y \<notin> set fl \<Longrightarrow> y < npages s \<Longrightarrow> same_words y s t"
    "dirs_grow (dirs s) s t" "length fl \<le> length gl + (if flag (pde s ?q (PDX PFTEMP)) PTE_P then 0 else 1)"
    by (rule sys_page_map_ok [OF assms(1) r(4,1,4,1) assms(4) pf(1) pm(1,2) assms(7) _ counts_fitD [OF assms(6)]]) (use pm(3) assms(5) in auto)
  obtain p hl where gl: "gl = p # hl" using t(7) assms(5) by (cases gl) (auto split: if_splits)
  note tr = user_runs_step [OF assms(2) r(2) t(3,6)]
  note kt = t(2) [unfolded gl]
  note r' = kinv_runs [OF kt tr(1)]
  have D: "dirs t = dirs s" using t(3) by (intro dirs_cong) (simp add: vm_only_def)
  have va: "vmap t ?q a = Some x" using t(4) [OF r(2) assms(3)] assms(7,8) by simp
  then have pd: "flag (pde t (env_dir t c) (PDX a)) PTE_P" unfolding tr(2) by (auto simp: vmap_def split: if_splits)
  obtain u fl' where u: "sys_page_alloc 0 a (PTE_P OR PTE_U OR PTE_W) t = Ret (Inr 0) u" "kinv k R fl' u" "vm_only t u"
    "\<And>q va'. q \<in> dirs s \<Longrightarrow> va' < UTOP \<Longrightarrow> vmap u q va' =
      (if q = ?q \<and> PGNUM va' = PGNUM a then Some (page2pa p OR (PTE_P OR PTE_U OR PTE_W) OR PTE_P) else vmap t q va')"
    "\<And>y. no_table (dirs t) t y \<Longrightarrow> y \<notin> set (p # hl) \<Longrightarrow> y < npages t \<Longrightarrow> same_words y t u" "dirs_grow (dirs t) t u"
    by (rule sys_page_alloc_ok [OF kt r'(4,1) assms(4) pm(4,5)]) (use pd in \<open>auto simp: D tr(2)\<close>)
  note free = vm_inv_free_page [OF kinvD(1) [OF kt], of p, simplified]
  have nm: "PGNUM y \<noteq> p" if "q \<in> dirs s" "va' < UTOP" "vmap s q va' = Some y" for q va' y
  proof -
    have "vmap t q va' = Some y" using t(4) [OF that(1,2)] that assms(9) vmap_page [of va' PFTEMP s ?q] by auto
    from mapped_data(2) [OF kt _ that(2) this] that(1) show ?thesis by (auto simp: D)
  qed
  have or: "x OR (PTE_U OR PTE_P) OR PTE_P = x OR PTE_U OR PTE_P" "x OR (PTE_P OR PTE_U OR PTE_W) OR PTE_P = x OR PTE_P OR PTE_U OR PTE_W" for x :: u32
    by (simp_all add: or.assoc jos_consts)
  have "keeps_data s t" "keeps_data t u" by (rule keeps_dataI [OF assms(1) t(5)] keeps_dataI [OF kt u(5)], assumption+)+
  from keeps_data_trans [OF this D] have kd: "keeps_data s u"
    using t(4) assms(9) vmap_page [of _ PFTEMP s ?q] by (metis option.distinct(1))
  show thesis
  proof (rule that [OF map_stub(1) [OF t(1)] alloc_stub(1) [OF u(1)] u(2)])
    show "vm_only s u" by (rule vm_only_trans [OF t(3) u(3)])
    show "user_runs u c" by (rule user_runs_step(1) [OF tr(1) r'(2) u(3,6)])
    show "R p = 0" by (rule free(3))
    show "unat p < 0x10000" using page_bound [OF pt_shape_npages_ok [OF vm_inv_shape [OF kinvD(1) [OF kt]]] free(1)] .
    show "vmap u q va =
      (if q = env_dir s c \<and> PGNUM va = PGNUM a then Some (page2pa p OR PTE_P OR PTE_U OR PTE_W)
       else if q = env_dir s c \<and> PGNUM va = PGNUM PFTEMP then Some (page2pa (PGNUM x) OR PTE_U OR PTE_P)
       else vmap s q va)" if "q \<in> dirs s" "va < UTOP" for q va
      by (simp only: u(4) [OF that] t(4) [OF that] or)
  qed (use nm kd in \<open>simp_all\<close>)
qed

lemma pgfault_copies:
  assumes "kinv k R fl s" and "user_runs s c" and "a < UTOP" and "\<not> bad_va a" and "2 \<le> length fl" and "counts_fit s"
    and "vmap s (env_dir s c) a = Some x" and "PGNUM a \<noteq> PGNUM PFTEMP" and "vmap s (env_dir s c) PFTEMP = None"
  obtains t u v p gl where "user_page_map int30 0 a 0 PFTEMP (PTE_U OR PTE_P) s = UDone 0 t"
    and "user_page_alloc int30 0 a (PTE_P OR PTE_U OR PTE_W) t = UDone 0 u"
    and "user_copy_page a PFTEMP u = UDone () v"
    and "kinv k R gl v" and "vm_only s v" and "user_runs v c" and "unat p < 0x10000"
    and "\<And>q va. q \<in> dirs s \<Longrightarrow> va < UTOP \<Longrightarrow> vmap v q va =
      (if q = env_dir s c \<and> PGNUM va = PGNUM a then Some (page2pa p OR PTE_P OR PTE_U OR PTE_W)
       else if q = env_dir s c \<and> PGNUM va = PGNUM PFTEMP then Some (page2pa (PGNUM x) OR PTE_U OR PTE_P)
       else vmap s q va)"
    and "\<And>q va y. q \<in> dirs s \<Longrightarrow> va < UTOP \<Longrightarrow> vmap s q va = Some y \<Longrightarrow> PGNUM y \<noteq> p"
    and "\<And>j. unat j < 1024 \<Longrightarrow> kload v (kva p j) = kload s (kva (PGNUM x) j)" and "keeps_data s v"
proof -
  let ?q = "env_dir s c"
  note r = kinv_runs [OF assms(1,2)] and sh = vm_inv_shape [OF kinvD(1) [OF assms(1)]]
  obtain t u p gl where t: "user_page_map int30 0 a 0 PFTEMP (PTE_U OR PTE_P) s = UDone 0 t"
    "user_page_alloc int30 0 a (PTE_P OR PTE_U OR PTE_W) t = UDone 0 u"
    and u: "kinv k R gl u" "vm_only s u" "user_runs u c" "R p = 0" "unat p < 0x10000"
    and vu: "\<And>q va. q \<in> dirs s \<Longrightarrow> va < UTOP \<Longrightarrow> vmap u q va =
      (if q = ?q \<and> PGNUM va = PGNUM a then Some (page2pa p OR PTE_P OR PTE_U OR PTE_W)
       else if q = ?q \<and> PGNUM va = PGNUM PFTEMP then Some (page2pa (PGNUM x) OR PTE_U OR PTE_P)
       else vmap s q va)"
    and nm: "\<And>q va y. q \<in> dirs s \<Longrightarrow> va < UTOP \<Longrightarrow> vmap s q va = Some y \<Longrightarrow> PGNUM y \<noteq> p"
    and kd: "keeps_data s u"
    by (rule pgfault_maps [OF assms]) blast
  have e: "dirs u = dirs s" "env_dir u c = ?q" using u(2) by (simp_all add: vm_only_def dirs_def live_def env_dir_def)
  have yb: "unat (PGNUM y) < 0x10000" if "q \<in> dirs s" "b < UTOP" "vmap s q b = Some y" for q b y
    using page_bound [OF pt_shape_npages_ok [OF sh] mapped_data(3) [OF assms(1) that]] .
  have pg: "PGNUM (page2pa p) = p" "PGNUM (page2pa (PGNUM x)) = PGNUM x"
    using u(5) yb [OF r(2) assms(3,7)] by (simp_all add: PGNUM_page2pa)
  have pf: "PFTEMP < UTOP" by (simp add: jos_consts)
  have ma: "vmap u (env_dir u c) a = Some (page2pa p OR PTE_P OR PTE_U OR PTE_W)"
    "vmap u (env_dir u c) PFTEMP = Some (page2pa (PGNUM x) OR PTE_U OR PTE_P)"
    using vu [OF r(2) assms(3)] vu [OF r(2) pf] assms(8) by (auto simp: e)
  obtain v where v: "user_copy_page a PFTEMP u = UDone () v" "kinv k R gl v" "vm_only u v" "confined p u v"
    "\<And>j. unat j < 1024 \<Longrightarrow> kload v (kva p j) = kload u (kva (PGNUM x) j)"
    by (rule user_copy_ok [OF u(1,3) assms(3) pf ma(1) _ _ _ ma(2)]) (use u(4) in \<open>simp_all add: pg\<close>)
  have mu: "no_table (dirs s) u p" "pt_shape (dirs s) u"
    using mapped_data(1) [OF u(1) _ assms(3) ma(1)] vm_inv_shape [OF kinvD(1) [OF u(1)]] r(2) by (simp_all add: e pg)
  have sw: "same_words (PGNUM y) s v" if "q \<in> dirs s" "b < UTOP" "vmap s q b = Some y" for q b y
  proof -
    have "same_words (PGNUM y) u v" using confined_kload [OF v(4) yb [OF that] _ nm [OF that]] by (simp add: same_words_def)
    then show ?thesis using kd that by (auto simp: keeps_data_def intro: same_words_trans)
  qed
  show thesis
  proof (rule that [OF t v(1,2) vm_only_trans [OF u(2) v(3)] _ u(5) _ nm])
    show "user_runs v c"
      using user_runs_step(1) [OF u(3) _ v(3)] data_page_grow [OF mu(2,1) v(4)] r(2) by (simp add: e)
    show "kload v (kva p j) = kload s (kva (PGNUM x) j)" if "unat j < 1024" for j
      using v(5) [OF that] kd r(2) assms(3,7) that by (auto simp: keeps_data_def same_words_def)
  qed (use data_page_vmap [OF mu(2,1) v(4)] vu sw in \<open>auto simp: keeps_data_def\<close>)
qed

lemma pgfault_unmaps:
  assumes "kinv k R fl s" and "user_runs s c" and "a < UTOP" and "\<not> bad_va a" and "2 \<le> length fl" and "counts_fit s"
    and "vmap s (env_dir s c) a = Some x" and "PGNUM a \<noteq> PGNUM PFTEMP" and "vmap s (env_dir s c) PFTEMP = None"
  obtains t u v w p gl where "user_page_map int30 0 a 0 PFTEMP (PTE_U OR PTE_P) s = UDone 0 t"
    and "user_page_alloc int30 0 a (PTE_P OR PTE_U OR PTE_W) t = UDone 0 u"
    and "user_copy_page a PFTEMP u = UDone () v" and "user_page_unmap int30 0 PFTEMP v = UDone 0 w"
    and "kinv k R gl w" and "user_runs w c"
    and "\<And>q va. q \<in> dirs s \<Longrightarrow> va < UTOP \<Longrightarrow> vmap w q va =
      (if q = env_dir s c \<and> PGNUM va = PGNUM a then Some (page2pa p OR PTE_P OR PTE_U OR PTE_W) else vmap s q va)"
    and "\<And>q va y. q \<in> dirs s \<Longrightarrow> va < UTOP \<Longrightarrow> vmap s q va = Some y \<Longrightarrow> PGNUM y \<noteq> p"
    and "\<And>j. unat j < 1024 \<Longrightarrow> kload w (kva p j) = kload s (kva (PGNUM x) j)" and "keeps_data s w"
proof -
  let ?q = "env_dir s c"
  note r = kinv_runs [OF assms(1,2)]
  obtain t u v p gl where t: "user_page_map int30 0 a 0 PFTEMP (PTE_U OR PTE_P) s = UDone 0 t"
    "user_page_alloc int30 0 a (PTE_P OR PTE_U OR PTE_W) t = UDone 0 u" "user_copy_page a PFTEMP u = UDone () v"
    and v: "kinv k R gl v" "vm_only s v" "user_runs v c" "unat p < 0x10000"
    and vv: "\<And>q va. q \<in> dirs s \<Longrightarrow> va < UTOP \<Longrightarrow> vmap v q va =
      (if q = ?q \<and> PGNUM va = PGNUM a then Some (page2pa p OR PTE_P OR PTE_U OR PTE_W)
       else if q = ?q \<and> PGNUM va = PGNUM PFTEMP then Some (page2pa (PGNUM x) OR PTE_U OR PTE_P)
       else vmap s q va)"
    and nm: "\<And>q va y. q \<in> dirs s \<Longrightarrow> va < UTOP \<Longrightarrow> vmap s q va = Some y \<Longrightarrow> PGNUM y \<noteq> p"
    and cp: "\<And>j. unat j < 1024 \<Longrightarrow> kload v (kva p j) = kload s (kva (PGNUM x) j)" and kd: "keeps_data s v"
    by (rule pgfault_copies [OF assms]) blast
  have e: "dirs v = dirs s" "env_dir v c = ?q" using v(2) by (simp_all add: vm_only_def dirs_def live_def env_dir_def)
  have pf: "\<not> bad_va PFTEMP" "PFTEMP < UTOP" by (simp_all add: bad_va_def ROUNDDOWN_def jos_consts)
  note rr = kinv_runs [OF v(1,3)]
  obtain w hl where w: "sys_page_unmap 0 PFTEMP v = Ret (Inr 0) w" "kinv k R hl w" "vm_only v w"
    "\<And>q b. q \<in> dirs s \<Longrightarrow> b < UTOP \<Longrightarrow> vmap w q b = (if q = ?q \<and> PGNUM b = PGNUM PFTEMP then None else vmap v q b)"
    "\<And>y. no_table (dirs v) v y \<Longrightarrow> y < npages v \<Longrightarrow> same_words y v w" "dirs_grow (dirs v) v w"
    by (rule sys_page_unmap_ok [OF v(1) rr(4,1) pf(1)]) (auto simp: e)
  have kw: "keeps_data v w" by (rule keeps_dataI [OF v(1) w(5)])
  have pgx: "PGNUM (page2pa (PGNUM x) OR PTE_U OR PTE_P) = PGNUM x" "PGNUM (page2pa p OR PTE_P OR PTE_U OR PTE_W) = p"
    using v(4) PGNUM_less [of x] by (simp_all add: PGNUM_page2pa)
  have "vmap v ?q a = Some (page2pa p OR PTE_P OR PTE_U OR PTE_W)" using vv [OF r(2) assms(3)] by simp
  note pw = kw [unfolded keeps_data_def e, rule_format, OF r(2) assms(3) this, unfolded pgx(2)]
  show thesis
  proof (rule that [OF t unmap_stub [OF w(1)] w(2) user_runs_step(1) [OF v(3) rr(2) w(3,6)] _ nm])
    show "kload w (kva p j) = kload s (kva (PGNUM x) j)" if "unat j < 1024" for j
      using pw cp [OF that] that by (simp add: same_words_def)
    show "keeps_data s w"
      by (rule keeps_data_trans [OF kd kw e(1) temp_mapping [OF r(2) assms(7,9) pf(2) assms(8) pgx(1) vv]])
    show "vmap w q b = (if q = ?q \<and> PGNUM b = PGNUM a then Some (page2pa p OR PTE_P OR PTE_U OR PTE_W) else vmap s q b)"
      if "q \<in> dirs s" "b < UTOP" for q b
      using w(4) [OF that] vv [OF that] assms(8,9) vmap_page [of b PFTEMP s ?q] by auto
  qed
qed

lemma pgfault_ok:
  assumes "kinv k R fl s" and "user_runs s c" and "va < UTOP" and "flag err FEC_WR"
    and "vmap s (env_dir s c) va = Some x" and "flag x PTE_COW" and "PGNUM va \<noteq> PGNUM PFTEMP"
    and "vmap s (env_dir s c) PFTEMP = None" and "2 \<le> length fl" and "counts_fit s"
  shows "\<exists>t fl' p. pgfault int30 va err s = UDone () t \<and> kinv k R fl' t \<and> user_runs t c \<and>
     (\<forall>q \<in> dirs s. \<forall>a < UTOP. vmap t q a = (if q = env_dir s c \<and> PGNUM a = PGNUM va
        then Some (page2pa p OR PTE_P OR PTE_U OR PTE_W) else vmap s q a)) \<and>
     (\<forall>q \<in> dirs s. \<forall>a < UTOP. \<forall>y. vmap s q a = Some y \<longrightarrow> PGNUM y \<noteq> p) \<and>
     (\<forall>j. unat j < 1024 \<longrightarrow> kload t (kva p j) = kload s (kva (PGNUM x) j)) \<and> keeps_data s t"
proof -
  let ?a = "ROUNDDOWN va PGSIZE"
  note a = page_addr [OF assms(3)]
  have xa: "vmap s (env_dir s c) ?a = Some x" using assms(5) vmap_page [OF a(1)] by simp
  have rd: "uvpt (PGNUM va) s = UDone x s"
    using uvpt_reads [OF assms(1,2,3)] assms(5) by (auto simp: vmap_def split: if_splits)
  show ?thesis
  proof (rule pgfault_unmaps [OF assms(1,2) a(3,2) assms(9,10) xa])
    fix t u v w p gl
    assume run: "user_page_map int30 0 ?a 0 PFTEMP (PTE_U OR PTE_P) s = UDone 0 t"
      "user_page_alloc int30 0 ?a (PTE_P OR PTE_U OR PTE_W) t = UDone 0 u"
      "user_copy_page ?a PFTEMP u = UDone () v" "user_page_unmap int30 0 PFTEMP v = UDone 0 w"
    then have "pgfault int30 va err s = UDone () w" using rd assms(4,6) by (simp add: pgfault_def Let_def or_panic_def)
    moreover assume "kinv k R gl w" "user_runs w c" "\<And>j. unat j < 1024 \<Longrightarrow> kload w (kva p j) = kload s (kva (PGNUM x) j)"
      "keeps_data s w" "\<And>q va. q \<in> dirs s \<Longrightarrow> va < UTOP \<Longrightarrow> vmap w q va =
      (if q = env_dir s c \<and> PGNUM va = PGNUM ?a then Some (page2pa p OR PTE_P OR PTE_U OR PTE_W) else vmap s q va)"
      "\<And>q va y. q \<in> dirs s \<Longrightarrow> va < UTOP \<Longrightarrow> vmap s q va = Some y \<Longrightarrow> PGNUM y \<noteq> p"
    ultimately show ?thesis unfolding a(1) by blast
  qed (use a(1) assms(7,8) in simp_all)
qed

end


section \<open>Sharing a page\<close>

lemma count_after_map:
  assumes "kinv k R fl s" and "kinv k R fl' t" and "vm_only s t"
    and "q0 \<in> dirs s" and "a < UTOP" and "vmap s q0 a = Some x" and "PGNUM z = PGNUM x"
    and v: "\<And>q va. q \<in> dirs s \<Longrightarrow> va < UTOP \<Longrightarrow> vmap t q va = (if q = q1 \<and> PGNUM va = PGNUM b then Some z else vmap s q va)"
  shows "unat (pp_ref (pages t (PGNUM x))) \<le> Suc (unat (pp_ref (pages s (PGNUM x))))"
proof -
  let ?n = "PGNUM x" and ?r = "PageRef q1 (PDX b) (PTX b)"
  have e: "dirs t = dirs s" "npages t = npages s" using assms(3) by (simp_all add: vm_only_def dirs_def live_def env_dir_def)
  note m = mapped_data [OF assms(1,4-6)]
  obtain x' where x': "vmap t q0 a = Some x'" "PGNUM x' = ?n"
    using v [OF assms(4,5)] assms(6,7) by (cases "q0 = q1 \<and> PGNUM a = PGNUM b") auto
  have nt: "no_table (dirs s) t ?n" using mapped_data(1) [OF assms(2) _ assms(5) x'(1)] assms(4) by (simp add: e x'(2))
  have "r = ?r \<or> r \<in> refs (dirs s) s ?n" if "r \<in> refs (dirs s) t ?n" for r
  proof -
    have r: "refers (dirs s) t r ?n" using that by (simp add: refs_def)
    have "\<not> is_table r" using nt r unfolding no_table_def by blast
    then obtain q i j where rq: "r = PageRef q i j" by (cases r) auto
    let ?va = "PGADDR i j 0"
    have ij: "q \<in> dirs s" "i < PDX UTOP" "j < 1024" using r rq by auto
    note ix = PGADDR_index [OF upde_less [OF ij(2)], of j] and jl = ij(3) [unfolded word1024_less]
    have va: "?va < UTOP" by (rule user_less) (simp add: ix(1) [OF jl] ij(2))
    have vt: "vmap t q ?va = Some (pte t q i j)" using r rq ix jl by (auto simp: vmap_def)
    show ?thesis
    proof (cases "q = q1 \<and> PGNUM ?va = PGNUM b")
      case True
      then show ?thesis using same_page [of ?va b] ix jl rq by auto
    next
      case False
      then have "vmap s q ?va = Some (pte t q i j)" using v [OF ij(1) va] vt by auto
      from mapped_data(5) [OF assms(1) ij(1) va this] show ?thesis using r rq ix jl by (auto simp: refs_def)
    qed
  qed
  then have "refs (dirs s) t ?n \<subseteq> insert ?r (refs (dirs s) s ?n)" by blast
  then have "card (refs (dirs s) t ?n) \<le> Suc (card (refs (dirs s) s ?n))"
    using card_mono [OF finite_vref, of "refs (dirs s) t ?n" "insert ?r (refs (dirs s) s ?n)"] by (simp add: card_insert_if split: if_splits)
  then show ?thesis
    using vm_inv_count [OF kinvD(1) [OF assms(1)] m(3)] vm_inv_count [OF kinvD(1) [OF assms(2)], of ?n] m(3) by (simp add: e)
qed

lemma page_number:
  assumes "\<not> bad_va a"
  shows "PGNUM a * PGSIZE = a"
proof -
  have "unat a < 0xEEC00000" using assms by (auto simp: bad_va_def not_le word_less_nat_alt jos_consts)
  moreover have "unat a div 4096 * 4096 = unat a" using assms unat_ROUNDDOWN_PGSIZE [of a] by (simp add: bad_va_def)
  ultimately show ?thesis by (simp add: word_unat_eq_iff unat_word_ariths unat_PGNUM jos_consts)
qed

context page_syscalls
begin

lemma map_cow:
  assumes "kinv k R fl s" and "user_runs s c" and "\<not> bad_va a" and "vmap s (env_dir s c) a = Some x"
    and "envid2env envid True s = Ret (Inr (Some e)) s" and "live s e" and "pp_ref (pages s (PGNUM x)) \<noteq> 0xFFFF"
  defines "perm \<equiv> PTE_COW OR PTE_U OR PTE_P" and "z \<equiv> page2pa (PGNUM x) OR PTE_COW OR PTE_U OR PTE_P"
  obtains (no_mem) "fl = []" and "\<not> flag (pde s (env_dir s e) (PDX a)) PTE_P"
      and "user_page_map int30 0 a envid a perm s = UDone (neg_errno E_NO_MEM) s"
  | (ok) t fl' where "user_page_map int30 0 a envid a perm s = UDone 0 t" and "kinv k R fl' t" and "vm_only s t" and "user_runs t c"
      and "\<And>q va. q \<in> dirs s \<Longrightarrow> va < UTOP \<Longrightarrow> vmap t q va = (if q = env_dir s e \<and> PGNUM va = PGNUM a then Some z else vmap s q va)"
      and "keeps_data s t" and "dirs_grow (dirs s) s t"
      and "length fl \<le> length fl' + (if flag (pde s (env_dir s e) (PDX a)) PTE_P then 0 else 1)"
proof -
  note r = kinv_runs [OF assms(1,2)]
  have pm: "\<not> bad_perm perm" "PGNUM perm = 0" "\<not> flag perm PTE_W" by (simp_all add: perm_def bad_perm_def PGNUM_def flag_def jos_consts)
  have z: "page2pa (PGNUM x) OR perm OR PTE_P = z" by (simp add: perm_def z_def or.assoc jos_consts)
  show thesis
  proof (rule sys_page_map_ok [OF assms(1) r(4,1) assms(5,6,3,3) pm(1,2) assms(4) _ assms(7)])
    assume "fl = []" "\<not> flag (pde s (env_dir s e) (PDX a)) PTE_P" "sys_page_map 0 a envid a perm s = Ret (Inl E_NO_MEM) s"
    then show thesis using no_mem map_stub(2) by blast
  next
    fix t gl
    assume t: "sys_page_map 0 a envid a perm s = Ret (Inr 0) t" "kinv k R gl t" "vm_only s t"
      and vt: "\<And>q va. q \<in> dirs s \<Longrightarrow> va < UTOP \<Longrightarrow> vmap t q va =
        (if q = env_dir s e \<and> PGNUM va = PGNUM a then Some (page2pa (PGNUM x) OR perm OR PTE_P) else vmap s q va)"
      and sw: "\<And>y. no_table (dirs s) s y \<Longrightarrow> y \<notin> set fl \<Longrightarrow> y < npages s \<Longrightarrow> same_words y s t"
      and gr: "dirs_grow (dirs s) s t"
      and len: "length fl \<le> length gl + (if flag (pde s (env_dir s e) (PDX a)) PTE_P then 0 else 1)"
    show thesis
      by (rule ok [OF map_stub(1) [OF t(1)] t(2,3) user_runs_step(1) [OF assms(2) r(2) t(3) gr] vt [unfolded z] keeps_dataI [OF assms(1) sw] gr len])
  qed (use pm(3) in simp)
qed

lemma duppage_ok:
  assumes "kinv k R fl s" and "user_runs s c" and "\<not> bad_va a" and "vmap s (env_dir s c) a = Some x"
    and "\<not> flag x PTE_SHARE" and "flag x PTE_W \<or> flag x PTE_COW"
    and "envid2env envid True s = Ret (Inr (Some e)) s" and "live s e"
    and "vmap s (env_dir s e) a = None" and "unat (pp_ref (pages s (PGNUM x))) < 0xFFFE"
  shows "(fl = [] \<and> \<not> flag (pde s (env_dir s e) (PDX a)) PTE_P \<and> duppage int30 envid (PGNUM a) s = UPanic ''sys_page_map: %e'' s) \<or>
     (\<exists>t fl'. duppage int30 envid (PGNUM a) s = UDone 0 t \<and> kinv k R fl' t \<and> user_runs t c \<and> vm_only s t \<and>
       dirs_grow (dirs s) s t \<and> length fl \<le> length fl' + (if flag (pde s (env_dir s e) (PDX a)) PTE_P then 0 else 1) \<and>
       (\<forall>q \<in> dirs s. \<forall>b < UTOP. vmap t q b = (if q \<in> {env_dir s c, env_dir s e} \<and> PGNUM b = PGNUM a
          then Some (page2pa (PGNUM x) OR PTE_COW OR PTE_U OR PTE_P) else vmap s q b)) \<and> keeps_data s t)"
proof -
  let ?q = "env_dir s c" and ?p = "PTE_COW OR PTE_U OR PTE_P" and ?z = "page2pa (PGNUM x) OR PTE_COW OR PTE_U OR PTE_P"
  note r = kinv_runs [OF assms(1,2)]
  have a: "a < UTOP" using assms(3) by (simp add: bad_va_def not_le)
  have zn: "PGNUM ?z = PGNUM x"
  proof -
    have "PGNUM ?p = 0" by (simp add: PGNUM_def jos_consts)
    then show ?thesis using PGNUM_less [of x] by (simp add: PGNUM_page2pa)
  qed
  have rd: "uvpt (PGNUM a) s = UDone x s"
    using uvpt_reads [OF assms(1,2) a] assms(4) by (auto simp: vmap_def split: if_splits)
  have run: "duppage int30 envid (PGNUM a) s =
      ubind (or_panic ''sys_page_map: %e'' (user_page_map int30 0 a envid a ?p s)) (\<lambda>_ s.
      ubind (or_panic ''sys_page_map: %e'' (user_page_map int30 0 a 0 a ?p s)) (\<lambda>_. UDone 0))"
    using assms(5,6) by (auto simp: duppage_def rd page_number [OF assms(3)] Let_def)
  have "pp_ref (pages s (PGNUM x)) \<noteq> 0xFFFF" using assms(10) by auto
  with assms(1-4,7,8) show ?thesis
  proof (cases rule: map_cow)
    case no_mem
    then show ?thesis using neg_errno_sign [of E_NO_MEM] by (simp add: run or_panic_def)
  next
    case (ok t gl)
    note t = ok
    have e: "dirs t = dirs s" "env_dir t c = ?q" using t(3) by (simp_all add: vm_only_def dirs_def live_def env_dir_def)
    have ne: "\<not> (q = env_dir s e \<and> PGNUM b = PGNUM a)" if "vmap s q b = Some y" for q b y
      using that assms(9) vmap_page [of b a s "env_dir s e"] by auto
    have keep: "vmap t q b = Some y" if "q \<in> dirs s" "b < UTOP" "vmap s q b = Some y" for q b y
      using t(5) [OF that(1,2)] ne [OF that(3)] that(3) by auto
    note rt = kinv_runs [OF t(2,4)]
    have x': "vmap t (env_dir t c) a = Some x" using keep [OF r(2) a assms(4)] by (simp add: e)
    have ct: "pp_ref (pages t (PGNUM x)) \<noteq> 0xFFFF"
      using count_after_map [OF assms(1) t(2,3) r(2) a assms(4) zn t(5)] assms(10) by auto
    from t(2,4) assms(3) x' rt(4,1) ct show ?thesis
    proof (cases rule: map_cow)
      case no_mem
      then show ?thesis using x' by (auto simp: vmap_def split: if_splits)
    next
      case (ok u hl)
      have "duppage int30 envid (PGNUM a) s = UDone 0 u" using t(1) ok(1) by (simp add: run or_panic_def)
      moreover have "keeps_data s u"
        by (rule keeps_data_trans [OF t(6) ok(6) e(1)]) (use keep in blast)
      moreover have "vmap u q b = (if q \<in> {?q, env_dir s e} \<and> PGNUM b = PGNUM a then Some ?z else vmap s q b)"
        if "q \<in> dirs s" "b < UTOP" for q b
        using ok(5) [of q b] t(5) [OF that] that by (auto simp: e)
      moreover have "flag (pde t (env_dir t c) (PDX a)) PTE_P" using x' by (auto simp: vmap_def split: if_splits)
      then have "length fl \<le> length hl + (if flag (pde s (env_dir s e) (PDX a)) PTE_P then 0 else 1)" using t(8) ok(8) by simp
      moreover have "vm_only s u" "dirs_grow (dirs s) s u"
        using vm_only_trans [OF t(3) ok(3)] dirs_grow_trans [OF t(7)] ok(7) by (simp_all add: e)
      ultimately show ?thesis using ok(2,4) by blast
    qed
  qed
qed

end

end
