(* ===== verification/Fork_Loop.thy ===== *)
theory Fork_Loop
  imports Cow_Steps
begin

text \<open>
  The loop of \<open>fork\<close> over all pages of the parent (\<^verbatim>\<open>lib/fork.c\<close>): the child gets the whole address
  space, copy-on-write.
\<close>

section \<open>Reading the page directory\<close>

lemma uvpd_address:
  assumes "unat i < 1024"
  shows "PDX (UVPT + PGNUM UVPT * 4 + 4 * i) = PDX UVPT" "PTX (UVPT + PGNUM UVPT * 4 + 4 * i) = PDX UVPT"
    "PGOFF (UVPT + PGNUM UVPT * 4 + 4 * i) = 4 * i"
proof -
  have c: "UVPT + PGNUM UVPT * 4 = 0xEF7BD000" "PDX UVPT = 957" by (simp_all add: PGNUM_def PDX_def jos_consts)
  have f: "unat (4 * i) = 4 * unat i" using assms by (simp add: unat_word_ariths)
  then have u: "unat (0xEF7BD000 + 4 * i) = 0xEF7BD000 + 4 * unat i" using assms by (simp add: unat_word_ariths)
  show "PDX (UVPT + PGNUM UVPT * 4 + 4 * i) = PDX UVPT"
    unfolding c using assms by (simp add: word_unat_eq_iff unat_PDX u)
  show "PTX (UVPT + PGNUM UVPT * 4 + 4 * i) = PDX UVPT"
  proof -
    have "(0xEF7BD000 + 4 * unat i) div 4096 = 0xEF7BD" using assms by linarith
    then show ?thesis unfolding c by (simp add: word_unat_eq_iff unat_PTX u)
  qed
  show "PGOFF (UVPT + PGNUM UVPT * 4 + 4 * i) = 4 * i"
    unfolding c using assms mod_mult_self4 [of 4096 980925 "4 * unat i"] by (simp add: word_unat_eq_iff unat_PGOFF u f)
qed

lemma uvpd_reads:
  assumes "kinv k R fl s" and "user_runs s c" and "unat i < 1024"
  shows "uvpd i s = UDone (pde s (env_dir s c) i) s"
proof -
  let ?q = "env_dir s c" and ?va = "UVPT + PGNUM UVPT * 4 + 4 * i"
  note r = kinv_runs [OF assms(1,2)] and sh = vm_inv_shape [OF kinvD(1) [OF assms(1)]]
  have self: "pde s ?q (PDX UVPT) = page2pa ?q OR PTE_P OR PTE_U" using assms(2) by (simp add: user_runs_def Let_def)
  have qb: "unat ?q < 0x10000" by (rule dir_bound [OF sh r(2)])
  then have n: "PGNUM (pde s ?q (PDX UVPT)) = ?q" unfolding self by (simp add: PGNUM_page2pa)
  then have d: "hw_pde s ?va = page2pa ?q OR PTE_P OR PTE_U" "hw_pte s ?va = page2pa ?q OR PTE_P OR PTE_U"
    using self by (simp_all only: hw_entries [OF r(3)] uvpd_address [OF assms(3)] pte_def pde_def [symmetric])
  have "PTE_ADDR (page2pa ?q OR PTE_P OR PTE_U) = page2pa ?q" using n unfolding self by (metis page2pa_PGNUM)
  then have "vpa s ?va = page2pa ?q + 4 * i"
    using word_in_page_split(2) [OF qb assms(3)] by (simp add: vpa_def d uvpd_address [OF assms(3)])
  then show ?thesis by (simp add: uvpd_def user_load_def d pde_def kload_def kva_offset)
qed

section \<open>The state between two pages\<close>

definition cow_entry :: "u32 \<Rightarrow> u32" where
  "cow_entry x = page2pa (PGNUM x) OR PTE_COW OR PTE_U OR PTE_P"

lemma PGNUM_cow_entry: "PGNUM (cow_entry x) = PGNUM x"
proof -
  have "PGNUM PTE_COW = 0" by (simp add: PGNUM_def jos_consts)
  then show ?thesis using PGNUM_less [of x] by (simp add: cow_entry_def PGNUM_page2pa)
qed

text \<open>
  The pages in \<open>B\<close> are shared: both directories, of the parent and the child, map copy-on-write what
  the parent mapped before.
\<close>

definition shares :: "u32 \<Rightarrow> u32 \<Rightarrow> u32 set \<Rightarrow> kstate \<Rightarrow> kstate \<Rightarrow> bool" where
  "shares q q' B s t \<longleftrightarrow> (\<forall>d \<in> dirs s. \<forall>b < UTOP. vmap t d b =
     (if d \<in> {q, q'} \<and> PGNUM b \<in> B then map_option cow_entry (vmap s q b) else vmap s d b))"

lemma shares_mapped:
  assumes "shares q q' B s t" and "q \<in> dirs s" and "\<And>b. b < UTOP \<Longrightarrow> vmap s q' b = None"
    and "d \<in> dirs s" and "b < UTOP" and "vmap s d b = Some y"
  shows "\<exists>d' \<in> dirs s. \<exists>b' y'. b' < UTOP \<and> vmap t d' b' = Some y' \<and> PGNUM y' = PGNUM y"
proof -
  have "vmap t d b = (if d = q \<and> PGNUM b \<in> B then Some (cow_entry y) else Some y)"
    using assms(1,4-6) assms(3) [OF assms(5)] by (auto simp: shares_def)
  then show ?thesis using assms(4,5) PGNUM_cow_entry [of y] by (metis (full_types))
qed

lemma shares_count:
  assumes "kinv k R fl s" and "kinv k R fl' t" and "vm_only s t" and "shares q q' B s t"
    and "q \<in> dirs s" and "\<And>b. b < UTOP \<Longrightarrow> vmap s q' b = None" and "a < UTOP" and "vmap s q a = Some x"
  shows "unat (pp_ref (pages t (PGNUM x))) \<le> 2 * unat (pp_ref (pages s (PGNUM x)))"
proof -
  let ?n = "PGNUM x" and ?f = "\<lambda>r. case r of PageRef _ i j \<Rightarrow> PageRef q' i j | r \<Rightarrow> r"
  have e: "dirs t = dirs s" "npages t = npages s" using assms(3) by (simp_all add: vm_only_def dirs_def live_def env_dir_def)
  note m = mapped_data [OF assms(1,5,7,8)]
  obtain d' b' y' where y': "d' \<in> dirs s" "b' < UTOP" "vmap t d' b' = Some y'" "PGNUM y' = ?n"
    using shares_mapped [OF assms(4-6) assms(5,7,8)] by blast
  have nt: "no_table (dirs s) t ?n" using mapped_data(1) [OF assms(2) _ y'(2,3)] y'(1,4) by (simp add: e)
  have "r \<in> refs (dirs s) s ?n \<union> ?f ` refs (dirs s) s ?n" if "r \<in> refs (dirs s) t ?n" for r
  proof -
    have r: "refers (dirs s) t r ?n" using that by (simp add: refs_def)
    have "\<not> is_table r" using nt r unfolding no_table_def by blast
    then obtain d i j where rq: "r = PageRef d i j" by (cases r) auto
    let ?va = "PGADDR i j 0"
    have ij: "d \<in> dirs s" "i < PDX UTOP" "j < 1024" using r rq by auto
    note jl = ij(3) [unfolded word1024_less]
    note ix = PGADDR_index [OF upde_less [OF ij(2)] jl]
    have va: "?va < UTOP" by (rule user_less) (simp add: ix(1) ij(2))
    have vt: "vmap t d ?va = Some (pte t d i j)" "PGNUM (pte t d i j) = ?n" using r rq ix by (auto simp: vmap_def)
    show ?thesis
    proof (cases "d \<in> {q, q'} \<and> PGNUM ?va \<in> B")
      case True
      then obtain z where z: "vmap s q ?va = Some z" "pte t d i j = cow_entry z"
        using vt assms(4) ij(1) va by (auto simp: shares_def)
      have "PageRef q i j \<in> refs (dirs s) s ?n"
        using mapped_data(5) [OF assms(1,5) va z(1)] vt(2) by (simp add: refs_def ix z(2) PGNUM_cow_entry del: refers.simps)
      then show ?thesis using True rq by (force simp: image_iff)
    next
      case False
      then have "vmap s d ?va = Some (pte t d i j)" using vt(1) assms(4) ij(1) va by (auto simp: shares_def)
      from mapped_data(5) [OF assms(1) ij(1) va this] show ?thesis using vt(2) rq by (simp add: refs_def ix del: refers.simps)
    qed
  qed
  then have "refs (dirs s) t ?n \<subseteq> refs (dirs s) s ?n \<union> ?f ` refs (dirs s) s ?n" by blast
  from card_mono [OF finite_vref this] have "card (refs (dirs s) t ?n) \<le> card (refs (dirs s) s ?n) + card (?f ` refs (dirs s) s ?n)"
    using card_Un_le order_trans by blast
  moreover have "card (?f ` refs (dirs s) s ?n) \<le> card (refs (dirs s) s ?n)" by (rule card_image_le) simp
  ultimately show ?thesis
    using vm_inv_count [OF kinvD(1) [OF assms(1)] m(3)] vm_inv_count [OF kinvD(1) [OF assms(2)], of ?n] m(3) by (simp add: e)
qed

lemma dirs_grow_present:
  "dirs_grow D s t \<Longrightarrow> q \<in> D \<Longrightarrow> unat i < 1024 \<Longrightarrow> flag (pde s q i) PTE_P \<Longrightarrow> flag (pde t q i) PTE_P"
  unfolding dirs_grow_def pde_grow_def by (metis insertI1)

section \<open>One page\<close>

text \<open>
  When \<open>fork\<close> can copy everything: the child is a live environment that the parent may change and has
  no pages yet; all pages of the parent are ordinary writable or copy-on-write pages of the user, and no
  count is near its limit.
\<close>

definition forkable :: "kstate \<Rightarrow> nat \<Rightarrow> u32 \<Rightarrow> nat \<Rightarrow> bool" where
  "forkable s c envid e \<longleftrightarrow> envid2env envid True s = Ret (Inr (Some e)) s \<and> live s e \<and>
     (\<forall>b < UTOP. vmap s (env_dir s e) b = None) \<and>
     (\<forall>b < USTACKTOP. \<forall>x. vmap s (env_dir s c) b = Some x \<longrightarrow>
        flag x PTE_U \<and> \<not> flag x PTE_SHARE \<and> (flag x PTE_W \<or> flag x PTE_COW)) \<and>
     (\<forall>p. unat (pp_ref (pages s p)) < 0x7FFF)"

text \<open>The page tables that the parent has and the child still lacks.\<close>

definition lacking :: "u32 \<Rightarrow> u32 \<Rightarrow> kstate \<Rightarrow> kstate \<Rightarrow> u32 set" where
  "lacking q q' s t = {i. i < PDX UTOP \<and> flag (pde s q i) PTE_P \<and> \<not> flag (pde t q' i) PTE_P}"

definition forking :: "u32 \<Rightarrow> (u32 \<Rightarrow> nat) \<Rightarrow> nat \<Rightarrow> nat \<Rightarrow> nat \<Rightarrow> u32 set \<Rightarrow> kstate \<Rightarrow> kstate \<Rightarrow> u32 list \<Rightarrow> bool" where
  "forking k R c e n B s t fl \<longleftrightarrow> kinv k R fl t \<and> user_runs t c \<and> vm_only s t \<and> dirs_grow (dirs s) s t \<and> keeps_data s t \<and>
     shares (env_dir s c) (env_dir s e) B s t \<and> n + card (lacking (env_dir s c) (env_dir s e) s t) \<le> length fl"

lemma lacking_finite [simp]: "finite (lacking q q' s t)"
  unfolding lacking_def by (rule finite_subset [OF subset_UNIV]) simp

lemma lacking_step:
  assumes "dirs_grow D t u" and "q' \<in> D" and "i < PDX UTOP" and "flag (pde s q i) PTE_P" and "flag (pde u q' i) PTE_P"
    and "n + card (lacking q q' s t) \<le> length fl" and "length fl \<le> length gl + (if flag (pde t q' i) PTE_P then 0 else 1)"
  shows "n + card (lacking q q' s u) \<le> length gl"
proof (cases "flag (pde t q' i) PTE_P")
  case True
  have "lacking q q' s u \<subseteq> lacking q q' s t"
    using dirs_grow_present [OF assms(1,2)] upde_less by (auto simp: lacking_def)
  from card_mono [OF lacking_finite this] show ?thesis using True assms(6,7) by simp
next
  case False
  then have i: "i \<in> lacking q q' s t" using assms(3,4) by (simp add: lacking_def)
  have "lacking q q' s u \<subseteq> lacking q q' s t - {i}"
    using dirs_grow_present [OF assms(1,2)] upde_less assms(5) by (auto simp: lacking_def)
  from card_mono [OF _ this] have "card (lacking q q' s u) \<le> card (lacking q q' s t) - 1" using i by simp
  moreover have "0 < card (lacking q q' s t)" using i by (metis card_gt_0_iff empty_iff lacking_finite)
  ultimately show ?thesis using False assms(6,7) by simp
qed

lemma envid2env_vm_only:
  assumes "vm_only s t" and "envid2env envid True s = Ret (Inr (Some e)) s"
  shows "envid2env envid True t = Ret (Inr (Some e)) t"
proof -
  have "envs t = envs s" "curenv t = curenv s" using assms(1) by (simp_all add: vm_only_def curenv_def)
  then show ?thesis using assms(2) by (auto simp: envid2env_def with_env_def kernel_fault_def Let_def split: if_splits option.splits)
qed

lemma USTACKTOP_below: "a < USTACKTOP \<Longrightarrow> a < UTOP"
  using less_trans [of a USTACKTOP UTOP] by (simp add: jos_consts)

lemma forking_parent:
  assumes "user_runs s c" and "kinv k R fl0 s" and "forking k R c e n B s t fl" and "forkable s c envid e"
  shows "env_dir t c = env_dir s c" and "env_dir t e = env_dir s e" and "env_dir s c \<in> dirs s" and "env_dir s e \<in> dirs s"
    and "dirs t = dirs s" and "live t e" and "envid2env envid True t = Ret (Inr (Some e)) t"
    and "kinv k R fl t" and "user_runs t c" and "shares (env_dir s c) (env_dir s e) B s t" and "vm_only s t"
    and "\<And>b. b < UTOP \<Longrightarrow> vmap s (env_dir s e) b = None"
  using assms(3,4) kinv_runs(2) [OF assms(2,1)] live_dir [of s e] envid2env_vm_only [of s t envid e]
  by (auto simp: forking_def forkable_def vm_only_def env_dir_def dirs_def live_def)

lemma forking_skip:
  assumes "user_runs s c" and "kinv k R fl0 s" and "forking k R c e n B s t fl" and "forkable s c envid e"
    and "a < UTOP" and "vmap t (env_dir s c) a = None" and "PGNUM a \<notin> B"
  shows "forking k R c e n (insert (PGNUM a) B) s t fl"
proof -
  note p = forking_parent [OF assms(1-4)]
  have "vmap s (env_dir s c) a = None" using p(3,10) assms(5-7) by (auto simp: shares_def)
  then have n: "vmap s (env_dir s c) b = None" if "PGNUM b = PGNUM a" for b using vmap_page [OF that] by simp
  have "shares (env_dir s c) (env_dir s e) (insert (PGNUM a) B) s t"
    unfolding shares_def
  proof (intro ballI allI impI)
    fix d b assume d: "d \<in> dirs s" "b < UTOP"
    have "vmap t d b = (if d \<in> {env_dir s c, env_dir s e} \<and> PGNUM b \<in> B then map_option cow_entry (vmap s (env_dir s c) b) else vmap s d b)"
      using p(10) d unfolding shares_def by blast
    then show "vmap t d b = (if d \<in> {env_dir s c, env_dir s e} \<and> PGNUM b \<in> insert (PGNUM a) B
        then map_option cow_entry (vmap s (env_dir s c) b) else vmap s d b)"
      using n [of b] p(12) [OF d(2)] assms(7) by (cases "PGNUM b = PGNUM a") auto
  qed
  then show ?thesis using assms(3) by (simp add: forking_def)
qed

context page_syscalls
begin

lemma fork_page_reads:
  assumes "kinv k R fl t" and "user_runs t c" and "a < UTOP"
  shows "fork_page int30 envid a t = (case vmap t (env_dir t c) a of
       None \<Rightarrow> UDone () t
     | Some x \<Rightarrow> if flag x PTE_U then ubind (duppage int30 envid (PGNUM a) t) (\<lambda>_. UDone ()) else UDone () t)"
proof (cases "flag (pde t (env_dir t c) (PDX a)) PTE_P")
  case True
  then show ?thesis
    using uvpd_reads [OF assms(1,2) PDX_less, of a] uvpt_reads [OF assms True] by (simp add: fork_page_def vmap_def)
next
  case False
  then show ?thesis using uvpd_reads [OF assms(1,2) PDX_less, of a] by (simp add: fork_page_def vmap_def)
qed

lemma fork_page_step:
  assumes "user_runs s c" and "kinv k R fl0 s" and "forking k R c e n B s t fl" and "forkable s c envid e"
    and "\<not> bad_va a" and "a < USTACKTOP" and "PGNUM a \<notin> B"
  shows "\<exists>u fl'. fork_page int30 envid a t = UDone () u \<and> forking k R c e n (insert (PGNUM a) B) s u fl'"
proof -
  let ?q = "env_dir s c" and ?q' = "env_dir s e"
  note p = forking_parent [OF assms(1-4)] and ua = USTACKTOP_below [OF assms(6)]
  note run = fork_page_reads [OF p(8,9) ua, of envid, unfolded p(1)]
  show ?thesis
  proof (cases "vmap t ?q a")
    case None
    then show ?thesis using run forking_skip [OF assms(1-4) ua None assms(7)] by auto
  next
    case (Some x)
    have x: "vmap s ?q a = Some x" "vmap t ?q' a = None" using Some p(3,4,10) p(12) [OF ua] ua assms(7) by (auto simp: shares_def)
    have fl: "flag x PTE_U" "\<not> flag x PTE_SHARE" "flag x PTE_W \<or> flag x PTE_COW" "unat (pp_ref (pages s (PGNUM x))) < 0x7FFF"
      using assms(4,6) x(1) by (auto simp: forkable_def)
    have cnt: "unat (pp_ref (pages t (PGNUM x))) < 0xFFFE"
      using shares_count [OF assms(2) p(8,11,10,3,12) ua x(1)] fl(4) by simp
    have pd: "flag (pde s ?q (PDX a)) PTE_P" using x(1) by (auto simp: vmap_def split: if_splits)
    have lack: "\<not> (fl = [] \<and> \<not> flag (pde t ?q' (PDX a)) PTE_P)"
    proof
      assume n: "fl = [] \<and> \<not> flag (pde t ?q' (PDX a)) PTE_P"
      then have "PDX a \<in> lacking ?q ?q' s t" using pd PDX_user [OF ua] by (simp add: lacking_def)
      then show False using assms(3) n by (simp add: forking_def)
    qed
    from duppage_ok [OF p(8,9) assms(5) _ fl(2,3) p(7,6) _ cnt] Some x(2) lack obtain u gl where
      u: "duppage int30 envid (PGNUM a) t = UDone 0 u" "kinv k R gl u" "user_runs u c" "vm_only t u" "dirs_grow (dirs s) t u"
        "length fl \<le> length gl + (if flag (pde t ?q' (PDX a)) PTE_P then 0 else 1)" "keeps_data t u"
      and vu: "\<And>d b. d \<in> dirs s \<Longrightarrow> b < UTOP \<Longrightarrow> vmap u d b = (if d \<in> {?q, ?q'} \<and> PGNUM b = PGNUM a
          then Some (cow_entry x) else vmap t d b)"
      unfolding p(1,2,5) cow_entry_def by blast
    have "vmap u ?q' a = Some (cow_entry x)" using vu [OF p(4) ua] by simp
    then have "flag (pde u ?q' (PDX a)) PTE_P" by (auto simp: vmap_def split: if_splits)
    with assms(3) have "n + card (lacking ?q ?q' s u) \<le> length gl"
      using lacking_step [OF u(5) p(4) PDX_user [OF ua] pd _ _ u(6)] by (simp add: forking_def)
    moreover have "keeps_data s u"
      using keeps_data_trans [OF _ u(7) p(5) shares_mapped [OF p(10,3,12)]] assms(3) by (auto simp: forking_def)
    moreover have "shares ?q ?q' (insert (PGNUM a) B) s u"
      unfolding shares_def
    proof (intro ballI allI impI)
      fix d b assume d: "d \<in> dirs s" "b < UTOP"
      have "vmap t d b = (if d \<in> {?q, ?q'} \<and> PGNUM b \<in> B then map_option cow_entry (vmap s ?q b) else vmap s d b)"
        using p(10) d unfolding shares_def by blast
      then show "vmap u d b = (if d \<in> {?q, ?q'} \<and> PGNUM b \<in> insert (PGNUM a) B then map_option cow_entry (vmap s ?q b) else vmap s d b)"
        using vu [OF d] x(1) vmap_page [of b a s ?q] by (cases "PGNUM b = PGNUM a") auto
    qed
    moreover have "vm_only s u" "dirs_grow (dirs s) s u"
      using vm_only_trans [OF p(11) u(4)] dirs_grow_trans [OF _ u(5)] assms(3) by (auto simp: forking_def)
    ultimately show ?thesis using run Some fl(1) u(1-3) by (auto simp: forking_def)
  qed
qed

lemma fork_loop:
  assumes "user_runs s c" and "kinv k R fl0 s" and "forkable s c envid e"
  shows "forking k R c e n B s t fl \<Longrightarrow> (\<And>a. a \<in> set as \<Longrightarrow> \<not> bad_va a \<and> a < USTACKTOP) \<Longrightarrow> distinct (map PGNUM as) \<Longrightarrow>
    PGNUM ` set as \<inter> B = {} \<Longrightarrow> \<exists>u fl'. ufor (fork_page int30 envid) as t = UDone () u \<and> forking k R c e n (B \<union> PGNUM ` set as) s u fl'"
proof (induction as arbitrary: B t fl)
  case Nil
  then show ?case by auto
next
  case (Cons a as)
  have "\<not> bad_va a" "a < USTACKTOP" "PGNUM a \<notin> B" using Cons.prems by auto
  from fork_page_step [OF assms(1,2) Cons.prems(1) assms(3) this] obtain v gl where
    v: "fork_page int30 envid a t = UDone () v" "forking k R c e n (insert (PGNUM a) B) s v gl" by blast
  have "\<exists>u fl'. ufor (fork_page int30 envid) as v = UDone () u \<and> forking k R c e n (insert (PGNUM a) B \<union> PGNUM ` set as) s u fl'"
    by (rule Cons.IH [OF v(2)]) (use Cons.prems in auto)
  then show ?case using v(1) by simp
qed

end

section \<open>All pages\<close>

lemma user_page_addr:
  assumes "i < 0xEEBFE"
  shows "unat (of_nat i * PGSIZE :: u32) = i * 4096" and "PGNUM (of_nat i * PGSIZE) = of_nat i"
proof -
  show u: "unat (of_nat i * PGSIZE :: u32) = i * 4096"
    using assms by (simp add: unat_word_ariths unsigned_of_nat take_bit_nat_eq_self jos_consts)
  show "PGNUM (of_nat i * PGSIZE) = of_nat i"
    using assms u by (simp add: word_unat_eq_iff unat_PGNUM unsigned_of_nat take_bit_nat_eq_self)
qed

lemma user_pages_eq: "user_pages = map (\<lambda>i. of_nat i * PGSIZE) [0..<0xEEBFE]"
  unfolding user_pages_def by (simp add: jos_consts)

lemma user_pages_ok:
  shows "a \<in> set user_pages \<Longrightarrow> \<not> bad_va a \<and> a < USTACKTOP" and "distinct (map PGNUM user_pages)"
    and "PGNUM b \<in> PGNUM ` set user_pages \<longleftrightarrow> b < USTACKTOP"
proof -
  show "\<not> bad_va a \<and> a < USTACKTOP" if "a \<in> set user_pages"
  proof -
    obtain i where i: "i < 0xEEBFE" "a = of_nat i * PGSIZE" using \<open>a \<in> set user_pages\<close> unfolding user_pages_eq by auto
    then have u: "unat a = i * 4096" by (simp add: user_page_addr)
    then have "a < USTACKTOP" using i(1) by (simp add: word_less_nat_alt jos_consts)
    moreover have "ROUNDDOWN a PGSIZE = a" by (simp add: word_unat_eq_iff unat_ROUNDDOWN_PGSIZE u)
    ultimately show ?thesis using USTACKTOP_below [of a] by (simp add: bad_va_def not_le)
  qed
  have m: "map PGNUM user_pages = map of_nat [0..<0xEEBFE]"
    unfolding user_pages_eq map_map by (rule map_cong [OF refl]) (simp add: user_page_addr del: upt_rec_numeral)
  have "inj_on (of_nat :: nat \<Rightarrow> u32) (set [0..<0xEEBFE])"
    by (rule inj_onI) (subst (asm) word_of_nat_eq_iff_bounded, simp_all del: upt_rec_numeral)
  then show "distinct (map PGNUM user_pages)" unfolding m by (simp add: distinct_map del: upt_rec_numeral)
  have "PGNUM ` set user_pages = of_nat ` {0..<0xEEBFE}" using arg_cong [OF m, of set] by (simp del: upt_rec_numeral)
  moreover have "(p :: u32) \<in> of_nat ` {0..<0xEEBFE} \<longleftrightarrow> unat p < 0xEEBFE" for p
  proof
    show "unat p < 0xEEBFE" if "p \<in> of_nat ` {0..<0xEEBFE}"
      using that by (auto simp: unsigned_of_nat take_bit_nat_eq_self)
    show "p \<in> of_nat ` {0..<0xEEBFE}" if "unat p < 0xEEBFE"
      using that by (intro image_eqI [of _ _ "unat p"]) simp_all
  qed
  moreover have "unat b div 4096 < 0xEEBFE \<longleftrightarrow> b < USTACKTOP"
    by (simp add: word_less_nat_alt jos_consts) linarith
  ultimately show "PGNUM b \<in> PGNUM ` set user_pages \<longleftrightarrow> b < USTACKTOP" by (simp add: unat_PGNUM)
qed

lemma fork_loop_ok:
  assumes "page_syscalls int30" and "kinv k R fl s" and "user_runs s c" and "forkable s c envid e"
    and "n + card (lacking (env_dir s c) (env_dir s e) s s) \<le> length fl"
  shows "\<exists>t fl'. ufor (fork_page int30 envid) user_pages s = UDone () t \<and> kinv k R fl' t \<and> user_runs t c \<and> vm_only s t \<and> n \<le> length fl' \<and>
     (\<forall>d \<in> dirs s. \<forall>b < UTOP. vmap t d b = (if d \<in> {env_dir s c, env_dir s e} \<and> b < USTACKTOP
        then map_option cow_entry (vmap s (env_dir s c) b) else vmap s d b)) \<and> keeps_data s t"
proof -
  have "forking k R c e n {} s s fl"
    using assms(2,3,5) dirs_grow_phys [OF refl] by (simp add: forking_def shares_def keeps_data_def)
  from page_syscalls.fork_loop [OF assms(1,3,2,4) this user_pages_ok(1,2)] obtain t fl' where
    "ufor (fork_page int30 envid) user_pages s = UDone () t" "forking k R c e n (PGNUM ` set user_pages) s t fl'" by auto
  then show ?thesis unfolding forking_def shares_def user_pages_ok(3) using add_leD1 by blast
qed

end
