(* ===== verification/Cow_Spec.thy ===== *)
theory Cow_Spec
  imports Cow_Steps
begin

text \<open>Copy-on-write sharing by the user library, with an example.\<close>

section \<open>A parent and its child\<close>

text \<open>
  Environment 0 (directory in page 2) runs and maps page 5 copy-on-write at \<open>0x800000\<close>, by a table
  in page 4; environment 1 (directory in page 3) is its empty child.
\<close>

definition k_cow :: kstate where
  "k_cow = k_small\<lparr>npages := 10, cr3 := 0x2000,
     phys := (\<lambda>_. 0)(0x2008 := 0x4007, 0x2EF4 := 0x2005, 0x4000 := 0x5805), page_free_list := Some 6,
     pages := (\<lambda>p. if p < 6 then \<lparr>pp_link = None, pp_ref = 1\<rparr>
                   else if p < 9 then \<lparr>pp_link = Some (p + 1), pp_ref = 0\<rparr> else zero_page),
     envs := (envs k_small)(1 := zero_env\<lparr>env_id := 0x1001, env_parent_id := 0x1000,
       env_status := ENV_NOT_RUNNABLE, env_pgdir := kva 3 0\<rparr>), env_free_list := Some 2\<rparr>"

lemma k_cow_misc [simp]:
  "npages k_cow = 10" "curenv k_cow = Some 0" "cr3 k_cow = 0x2000" "kern_pgdir k_cow = kva 1 0" "cons k_cow = zero_console"
  "kernel_lock k_cow = kernel_lock k_small" "cpunum k_cow = 0"
  by (simp_all add: k_cow_def curenv_def) (simp_all add: k_small_def bss_state_def)

lemma k_cow_live [simp]: "live k_cow e \<longleftrightarrow> e = 0 \<or> e = 1"
  using k_small_live [of e] by (auto simp: live_def k_cow_def zero_env_def jos_consts)

lemma k_cow_dir [simp]: "env_dir k_cow 0 = 2" "env_dir k_cow (Suc 0) = 3"
  using k_small_dir by (simp_all add: env_dir_def k_cow_def)

lemma k_cow_dirs [simp]: "dirs k_cow = {2, 3}"
proof -
  have "Collect (live k_cow) = {0, 1}" by auto
  then show ?thesis by (simp add: dirs_def del: k_cow_live)
qed

lemma k_cow_word:
  assumes "unat p < 0x10000" and "unat n < 1024"
  shows "kload k_cow (kva p n) = (if p = 2 \<and> n = 2 then 0x4007 else if p = 2 \<and> n = 957 then 0x2005
     else if p = 4 \<and> n = 0 then 0x5805 else 0)"
proof -
  have "kva 2 2 - KERNBASE = 0x2008" "kva 2 957 - KERNBASE = 0x2EF4" "kva 4 0 - KERNBASE = 0x4000"
    by (simp_all add: kva_offset page2pa_def)
  then have "kva p n - KERNBASE = 0x2008 \<longleftrightarrow> p = 2 \<and> n = 2" "kva p n - KERNBASE = 0x2EF4 \<longleftrightarrow> p = 2 \<and> n = 957"
    "kva p n - KERNBASE = 0x4000 \<longleftrightarrow> p = 4 \<and> n = 0"
    using kva_eq_iff [of p n 2 2] kva_eq_iff [of p n 2 957] kva_eq_iff [of p n 4 0] assms by simp_all
  then show ?thesis by (auto simp: kload_def k_cow_def)
qed

lemma k_cow_flags [simp]: "flag (0x4007::u32) PTE_P" "flag (0x2005::u32) PTE_P" "flag (0x5805::u32) PTE_P"
  by (simp_all add: flag_def jos_consts)

lemma k_cow_pde: "unat p < 0x10000 \<Longrightarrow> p \<noteq> 4 \<Longrightarrow> unat n < 1024 \<Longrightarrow>
    pde k_cow p n = (if p = 2 \<and> n = 2 then 0x4007 else if p = 2 \<and> n = 957 then 0x2005 else 0)"
  and k_cow_pte: "unat n < 1024 \<Longrightarrow> pte k_cow 2 2 n = (if n = 0 then 0x5805 else 0)"
  by (auto simp: pde_def pte_def k_cow_word PGNUM_def)

lemma k_cow_refers:
  "refers {2, 3} k_cow r p \<longleftrightarrow> r = DirRef 2 \<and> p = 2 \<or> r = DirRef 3 \<and> p = 3 \<or> r = TabRef 2 2 \<and> p = 4 \<or> r = PageRef 2 2 0 \<and> p = 5"
proof -
  have "unat n < 1024" if "n < PDX UTOP" for n :: u32 using that by (rule upde_less)
  then show ?thesis
    by (cases r) (auto simp: k_cow_pde k_cow_pte word1024_less PGNUM_def PDX_UTOP split: if_splits)
qed

lemma k_cow_vm: "vm_inv {2, 3} small_refs [6, 7, 8, 9] k_cow" and k_cow_leaks: "leaks [6, 7, 8, 9] k_cow = {}"
proof -
  have refs: "refs {2, 3} k_cow p = (if p = 2 then {DirRef 2} else if p = 3 then {DirRef 3} else if p = 4 then {TabRef 2 2}
      else if p = 5 then {PageRef 2 2 0} else {})" for p by (auto simp: refs_def k_cow_refers)
  have pr: "pp_ref (pages k_cow p) = (if p < 6 then 1 else 0)" for p by (simp add: k_cow_def zero_page_def)
  have lt6: "p < 6 \<longleftrightarrow> p = 0 \<or> p = 1 \<or> p = 2 \<or> p = 3 \<or> p = 4 \<or> p = 5" for p :: u32
    by (auto simp: word_less_nat_alt word_unat_eq_iff)
  have lt10: "p < 6" if "p < 10" "p \<notin> {6, 7, 8, 9}" for p :: u32
    using that by (auto simp: word_less_nat_alt word_unat_eq_iff)
  then show "leaks [6, 7, 8, 9] k_cow = {}" by (auto simp: leaks_def pr)
  have "free_ok [6, 7, 8, 9] k_cow"
    using lt10 by (auto simp: free_ok_def npages_ok_def pl.elems_def) (auto simp: k_cow_def zero_page_def)
  moreover have "pt_shape {2, 3} k_cow"
    by (auto simp: pt_shape_def npages_ok_def k_cow_refers k_cow_pte word1024_less simp del: refers.simps)
  ultimately show "vm_inv {2, 3} small_refs [6, 7, 8, 9] k_cow"
    by (auto simp: vm_inv_def k_cow_refers refs pr small_refs_def lt6 simp del: refers.simps)
qed

lemma k_cow_table: "env_table_ok k_cow"
proof -
  have "chain (\<lambda>e. if Suc e < 1024 then Some (Suc e) else None) (Some 2) [2..<1024] =
      chain (\<lambda>e. env_link (envs k_cow e)) (Some 2) [2..<1024]"
    by (rule chain_cong) (auto simp: k_cow_def k_small_def zero_env_def simp del: upt_rec_numeral)
  then have "free_envs k_cow [2..<1024]" using chain_upto [of 2 1024] by (simp add: el.elems_def k_cow_def del: upt_rec_numeral)
  moreover have "nth_env_id 1 0 = 0x1000" "nth_env_id 1 1 = 0x1001" by (simp_all add: nth_env_id_def)
  moreover have "env_id (envs k_cow e) = (if e = 0 then 0x1000 else if e = 1 then 0x1001 else 0)" for e
    by (simp add: k_cow_def k_small_def zero_env_def)
  moreover have "\<exists>g. 0 < g \<and> g < 524288 \<and> (0x1000 :: u32) = nth_env_id g 0" "\<exists>g. 0 < g \<and> g < 524288 \<and> (0x1001 :: u32) = nth_env_id g 1"
    using calculation(2,3) by (auto intro!: exI [of _ 1])
  moreover have "inj_on (env_dir k_cow) (Collect (live k_cow))" by (auto simp: inj_on_def)
  moreover have "env_pgdir (envs k_cow 0) = kva 2 0" "env_pgdir (envs k_cow (Suc 0)) = kva 3 0"
    using k_small_misc(11) by (simp_all add: k_cow_def)
  ultimately show ?thesis
    unfolding env_table_ok_def by (auto simp: jos_consts intro!: exI [of _ "[2..<1024]"] simp del: upt_rec_numeral)
qed

lemma k_cow_kinv: "kinv 1 small_refs [6, 7, 8, 9] k_cow"
proof -
  have "kern_dir_ok 1 k_cow" by (simp add: kern_dir_ok_def k_cow_pde upde_less)
  then show ?thesis
    using kinvD(4,6) [OF k_small_kinv] k_cow_vm k_cow_leaks k_cow_table by (simp add: kinv_def)
qed

lemma k_cow_runs: "user_runs k_cow 0"
proof -
  have "PDX UVPT = 957" by (simp add: PDX_def jos_consts)
  then show ?thesis
    by (auto simp: user_runs_def k_cow_pde upde_less PDX_UTOP) (auto simp: page2pa_def flag_def jos_consts split: if_splits)
qed

lemma k_cow_vmap: "vmap k_cow 2 0x800000 = Some 0x5805" "vmap k_cow 2 0x800123 = Some 0x5805" "vmap k_cow 2 PFTEMP = None"
  "vmap k_cow 3 0x800000 = None"
  by (simp_all add: vmap_def PDX_def PTX_def k_cow_pde k_cow_pte jos_consts) (simp_all add: flag_def)

section \<open>Properties\<close>





end
