(* ===== verification/Fork_Spec.thy ===== *)
theory Fork_Spec
  imports Fork_Loop Cow_Spec
begin

text \<open>
  \<open>fork\<close> as a whole (\<^verbatim>\<open>lib/fork.c\<close>): a new environment with a copy-on-write copy of the address space,
  its own exception stack and the parent's registers.
\<close>

section \<open>The system calls of fork\<close>

locale fork_syscalls = page_syscalls +
  assumes exofork_law: "sys_exofork s = Ret r t \<Longrightarrow> int30 SYS_exofork 0 0 0 0 0 s = Some (eax_of r, t)"
    and upcall_law: "sys_env_set_pgfault_upcall e f s = Ret r t \<Longrightarrow>
      int30 SYS_env_set_pgfault_upcall e f 0 0 0 s = Some (eax_of r, t)"
    and status_law: "sys_env_set_status e st s = Ret r t \<Longrightarrow> int30 SYS_env_set_status e st 0 0 0 s = Some (eax_of r, t)"
begin

lemma exofork_stub: "sys_exofork s = Ret (Inr v) t \<Longrightarrow> user_exofork int30 s = UDone v t"
  by (simp add: user_exofork_def exofork_law)

lemma upcall_stub:
  "sys_env_set_pgfault_upcall e f s = Ret (Inr 0) t \<Longrightarrow> user_env_set_pgfault_upcall int30 e f s = UDone 0 t"
  by (simp add: user_env_set_pgfault_upcall_def user_syscall_def upcall_law)

lemma status_stub: "sys_env_set_status e st s = Ret (Inr 0) t \<Longrightarrow> user_env_set_status int30 e st s = UDone 0 t"
  by (simp add: user_env_set_status_def user_syscall_def status_law)

end

definition fork_int :: sysint where
  "fork_int no a1 a2 a3 a4 a5 s =
     (if no = SYS_exofork then (case sys_exofork s of Ret r t \<Rightarrow> Some (eax_of r, t) | _ \<Rightarrow> None)
      else if no = SYS_env_set_pgfault_upcall then (case sys_env_set_pgfault_upcall a1 a2 s of Ret r t \<Rightarrow> Some (eax_of r, t) | _ \<Rightarrow> None)
      else if no = SYS_env_set_status then (case sys_env_set_status a1 a2 s of Ret r t \<Rightarrow> Some (eax_of r, t) | _ \<Rightarrow> None)
      else handlers_int no a1 a2 a3 a4 a5 s)"

interpretation fi: fork_syscalls fork_int
  by unfold_locales (simp_all add: fork_int_def handlers_int_def jos_consts)

section \<open>The child\<close>

text \<open>What \<open>fork\<close> needs of the parent.\<close>

definition copyable :: "kstate \<Rightarrow> nat \<Rightarrow> bool" where
  "copyable s c \<longleftrightarrow> (\<forall>b < USTACKTOP. \<forall>x. vmap s (env_dir s c) b = Some x \<longrightarrow>
        flag x PTE_U \<and> \<not> flag x PTE_SHARE \<and> (flag x PTE_W \<or> flag x PTE_COW)) \<and>
     (\<forall>p. unat (pp_ref (pages s p)) < 0x7FFF)"

definition tables :: "u32 \<Rightarrow> kstate \<Rightarrow> u32 set" where
  "tables q s = {i. i < PDX UTOP \<and> flag (pde s q i) PTE_P}"

lemma tables_finite [simp]: "finite (tables q s)"
  unfolding tables_def by (rule finite_subset [OF subset_UNIV]) simp

lemma new_env_dirs:
  assumes "kinv k R fl t" and "\<not> live s e" and "\<And>x. live t x \<longleftrightarrow> live s x \<or> x = e" and "\<And>x. x \<noteq> e \<Longrightarrow> envs t x = envs s x"
  shows "live s x \<Longrightarrow> env_dir t x = env_dir s x" and "dirs t = insert (env_dir t e) (dirs s)" and "env_dir t e \<notin> dirs s"
proof -
  show ed: "env_dir t x = env_dir s x" if "live s x" for x
  proof -
    have "x \<noteq> e" using that assms(2) by blast
    then show ?thesis by (simp add: env_dir_def assms(4))
  qed
  show "dirs t = insert (env_dir t e) (dirs s)"
  proof -
    have "{x. live t x} = insert e {x. live s x}" using assms(3) by blast
    moreover have "env_dir t ` {x. live s x} = env_dir s ` {x. live s x}" by (rule image_cong) (use ed in auto)
    ultimately show ?thesis by (simp add: dirs_def)
  qed
  show "env_dir t e \<notin> dirs s"
  proof
    assume "env_dir t e \<in> dirs s"
    then obtain x where x: "live s x" "env_dir t e = env_dir s x" by (auto simp: dirs_def)
    have "inj_on (env_dir t) {x. live t x}" using kinvD(5) [OF assms(1)] by (simp add: env_table_ok_def)
    then have "e = x" by (rule inj_onD) (use x ed [OF x(1)] assms(3) in auto)
    then show False using x(1) assms(2) by simp
  qed
qed

lemma exofork_child:
  assumes "kinv k R (q # fl) s" and "user_runs s c" and "env_free_list s = Some e" and "copyable s c"
  obtains t where "sys_exofork s = Ret (Inr (env_id (envs t e))) t" and "kinv k R fl t" and "user_runs t c"
    and "forkable t c (env_id (envs t e)) e" and "0 < sint (env_id (envs t e))" and "\<not> live s e"
    and "env_tf (envs t e) = (env_tf (envs s c))\<lparr>tf_regs := (tf_regs (env_tf (envs s c)))\<lparr>reg_eax := 0\<rparr>\<rparr>"
    and "\<And>x. x \<noteq> e \<Longrightarrow> envs t x = envs s x" and "\<And>x. live t x \<longleftrightarrow> live s x \<or> x = e"
    and "dirs t = insert (env_dir t e) (dirs s)" and "env_dir t e \<notin> dirs s"
    and "\<And>d b. d \<in> dirs s \<Longrightarrow> b < UTOP \<Longrightarrow> vmap t d b = vmap s d b" and "keeps_data s t"
    and "tables (env_dir s c) t = tables (env_dir s c) s"
proof -
  note r = kinv_runs [OF assms(1,2)] and inv = kinvD [OF assms(1)]
  note sh = vm_inv_shape [OF inv(1)] and z = vm_inv_free_page [OF inv(1), of q, simplified]
  have cur: "curenv s = Some c" using assms(2) by (simp add: user_runs_def Let_def)
  obtain t where t: "sys_exofork s = Ret (Inr (env_id (envs t e))) t" "kinv k R fl t" "\<not> live s e"
    "\<And>x. live t x \<longleftrightarrow> live s x \<or> x = e" "curenv t = curenv s" "\<And>x. x \<noteq> e \<Longrightarrow> envs t x = envs s x"
    "env_parent_id (envs t e) = env_id (envs s c)"
    "env_tf (envs t e) = (env_tf (envs s c))\<lparr>tf_regs := (tf_regs (env_tf (envs s c)))\<lparr>reg_eax := 0\<rparr>\<rparr>"
    "\<And>x va. live s x \<Longrightarrow> va < UTOP \<Longrightarrow> vmap t (env_dir t x) va = vmap s (env_dir s x) va"
    "\<And>va. va < UTOP \<Longrightarrow> vmap t (env_dir t e) va = None" "dir_made q s t"
    by (rule sys_exofork_ok [OF assms(1) cur assms(3)]) blast
  have dd: "\<And>x. live s x \<Longrightarrow> env_dir t x = env_dir s x" "dirs t = insert (env_dir t e) (dirs s)" "env_dir t e \<notin> dirs s"
    using new_env_dirs [OF t(2,3,4)] t(6) by blast+
  have cf: "confined q s t" "cr3 t = cr3 s" "\<And>p. pp_ref (pages t p) = (if p = q then 1 else pp_ref (pages s p))"
    using t(11) by (simp_all add: dir_made_def)
  have pd: "pde t d i = pde s d i" if "d \<in> dirs s" "unat i < 1024" for d i
  proof -
    have "d \<noteq> q" using z(2) that(1) by (auto simp: refs_def dest: spec [of _ "DirRef d"])
    then show ?thesis using confined_kload [OF cf(1) dir_bound [OF sh that(1)] that(2)] by (simp add: pde_def)
  qed
  have ru: "user_runs t c"
    using assms(2) pd [OF r(2)] PDX_less upde_less by (simp add: user_runs_def Let_def dd(1) [OF r(1)] cf(2) t(5))
  obtain g where g: "0 < g" "g < 524288" "env_id (envs t e) = nth_env_id g e" and en: "e < NENV"
    using kinvD(5) [OF t(2)] t(4) [of e] by (auto simp: env_table_ok_def live_def)
  note id = env_id_shape [OF en g(1,2), folded g(3)]
  have vm: "vmap t d b = vmap s d b" if "d \<in> dirs s" "b < UTOP" for d b by (rule confined_vmap [OF sh z(2) cf(1) that])
  have ce: "c \<noteq> e" using r(1) t(3) by blast
  have "envid2env (env_id (envs t e)) True t = Ret (Inr (Some e)) t"
    using id t(4) [of e] t(7) t(6) [OF ce] ce cur by (auto simp: envid2env_def Let_def live_def t(5))
  moreover have "unat (if p = q then 1 else pp_ref (pages s p)) < 0x7FFF" for p
    using assms(4) by (simp add: copyable_def)
  ultimately have fk: "forkable t c (env_id (envs t e)) e"
    using assms(4) t(4,10) vm [OF r(2)] USTACKTOP_below by (auto simp: forkable_def copyable_def cf(3) dd(1) [OF r(1)])
  have kd: "keeps_data s t"
    unfolding keeps_data_def
  proof (intro ballI allI impI)
    fix d b y assume y: "d \<in> dirs s" "b < UTOP" "vmap s d b = Some y"
    note m = mapped_data [OF assms(1) y]
    show "same_words (PGNUM y) s t"
      using confined_kload [OF cf(1) page_bound [OF pt_shape_npages_ok [OF sh] m(3)]] m(2) by (auto simp: same_words_def)
  qed
  have tb: "tables (env_dir s c) t = tables (env_dir s c) s" using pd [OF r(2)] upde_less by (auto simp: tables_def)
  show thesis by (rule that [OF t(1,2) ru fk id(2) t(3,8,6,4) dd(2,3) vm kd tb])
qed

section \<open>The end of fork\<close>

context fork_syscalls
begin

lemma fork_finish:
  assumes "kinv k R fl v" and "curenv v = Some c" and "envid2env envid True v = Ret (Inr (Some e)) v" and "live v e" and "2 \<le> length fl"
  obtains w x z p gl where "user_page_alloc int30 envid (UXSTACKTOP - PGSIZE) (PTE_P OR PTE_W OR PTE_U) v = UDone 0 w"
    and "user_env_set_pgfault_upcall int30 envid upcall w = UDone 0 x"
    and "user_env_set_status int30 envid (status_code ENV_RUNNABLE) x = UDone 0 z"
    and "kinv k R gl z"
    and "envs z = (envs v)(e := (envs v e)\<lparr>env_pgfault_upcall := upcall, env_status := ENV_RUNNABLE\<rparr>)"
    and "\<And>d b. d \<in> dirs v \<Longrightarrow> b < UTOP \<Longrightarrow> vmap z d b = (if d = env_dir v e \<and> PGNUM b = PGNUM (UXSTACKTOP - PGSIZE)
      then Some (page2pa p OR PTE_P OR PTE_W OR PTE_U) else vmap v d b)"
    and "\<And>j. unat j < 1024 \<Longrightarrow> kload z (kva p j) = 0"
    and "\<And>d b y. d \<in> dirs v \<Longrightarrow> b < UTOP \<Longrightarrow> vmap v d b = Some y \<Longrightarrow> PGNUM y \<noteq> p" and "keeps_data v z"
proof -
  obtain p hl where fl: "fl = p # hl" "hl \<noteq> []"
  proof (cases fl)
    case (Cons p hl)
    then show ?thesis using that [of p hl] assms(5) by (cases hl) auto
  qed (use assms(5) in simp)
  note inv = assms(1) [unfolded fl(1)]
  have va: "\<not> bad_va (UXSTACKTOP - PGSIZE)" by (simp add: bad_va_def ROUNDDOWN_def jos_consts)
  have pm: "\<not> bad_perm (PTE_P OR PTE_W OR PTE_U)" "PGNUM (PTE_P OR PTE_W OR PTE_U) = 0"
    by (simp_all add: bad_perm_def PGNUM_def jos_consts)
  have or: "y OR (PTE_P OR PTE_W OR PTE_U) OR PTE_P = y OR PTE_P OR PTE_W OR PTE_U" for y :: u32 by (simp add: or.assoc jos_consts)
  obtain w gl where w: "sys_page_alloc envid (UXSTACKTOP - PGSIZE) (PTE_P OR PTE_W OR PTE_U) v = Ret (Inr 0) w" "kinv k R gl w" "vm_only v w"
    "\<And>d b. d \<in> dirs v \<Longrightarrow> b < UTOP \<Longrightarrow> vmap w d b = (if d = env_dir v e \<and> PGNUM b = PGNUM (UXSTACKTOP - PGSIZE)
      then Some (page2pa p OR (PTE_P OR PTE_W OR PTE_U) OR PTE_P) else vmap v d b)"
    "\<And>j. unat j < 1024 \<Longrightarrow> kload w (kva p j) = 0"
    "\<And>y. no_table (dirs v) v y \<Longrightarrow> y \<notin> set (p # hl) \<Longrightarrow> y < npages v \<Longrightarrow> same_words y v w"
    by (rule sys_page_alloc_ok [OF inv assms(3,4) va pm]) (use fl(2) in auto)
  have id: "envid2env envid True w = Ret (Inr (Some e)) w" by (rule envid2env_vm_only [OF w(3) assms(3)])
  have ew: "envs w = envs v" "curenv w = Some c" using w(3) assms(2) by (simp_all add: vm_only_def curenv_def)
  define x where "x = upd_env e (\<lambda>v. v\<lparr>env_pgfault_upcall := upcall\<rparr>) w"
  define z where "z = upd_env e (\<lambda>v. v\<lparr>env_status := ENV_RUNNABLE\<rparr>) x"
  have x: "sys_env_set_pgfault_upcall envid upcall w = Ret (Inr 0) x" using id by (simp add: sys_env_set_pgfault_upcall_def x_def)
  have "envid2env envid True x = Ret (Inr (Some e)) x"
    using id ew by (auto simp: envid2env_def x_def kops curenv_def with_env_def kernel_fault_def Let_def split: if_splits option.splits)
  then have z: "sys_env_set_status envid (status_code ENV_RUNNABLE) x = Ret (Inr 0) z" by (simp add: sys_env_set_status_def z_def)
  have "env_status (envs w e) \<noteq> ENV_FREE" using assms(4) by (simp add: live_def ew)
  then have K: "kinv k R gl z" unfolding z_def x_def by (intro kinv_upd_env w(2)) (simp_all add: kops)
  have ph: "phys z = phys w" by (simp add: z_def x_def kops)
  show thesis
  proof (rule that [OF alloc_stub(1) [OF w(1)] upcall_stub [OF x] status_stub [OF z] K])
    show "envs z = (envs v)(e := (envs v e)\<lparr>env_pgfault_upcall := upcall, env_status := ENV_RUNNABLE\<rparr>)"
      by (simp add: z_def x_def kops ew)
    show "keeps_data v z"
      using keeps_dataI [OF inv w(6)] by (simp add: keeps_data_def same_words_def kload_cong [OF ph])
    show "PGNUM y \<noteq> p" if "d \<in> dirs v" "b < UTOP" "vmap v d b = Some y" for d b y
      using mapped_data(2) [OF inv that] by auto
  qed (use w(4,5) in \<open>simp_all add: vmap_phys [OF ph] kload_cong [OF ph] or\<close>)
qed

lemma fork_runs:
  assumes "pgfault_handler u \<noteq> 0" and "user_exofork int30 s = UDone envid t" and "0 < sint envid"
    and "ufor (fork_page int30 envid) user_pages t = UDone () v"
    and "user_page_alloc int30 envid (UXSTACKTOP - PGSIZE) (PTE_P OR PTE_W OR PTE_U) v = UDone 0 w"
    and "user_env_set_pgfault_upcall int30 envid upcall w = UDone 0 x"
    and "user_env_set_status int30 envid (status_code ENV_RUNNABLE) x = UDone 0 z"
  shows "fork int30 upcall handler u s = UDone (envid, u\<lparr>pgfault_handler := handler\<rparr>) z"
proof -
  have "envid \<noteq> 0" using assms(3) by auto
  then show ?thesis using assms by (simp add: fork_def set_pgfault_handler_def or_panic_def)
qed

lemma fork_steps:
  assumes "kinv k R (q # fl) s" and "user_runs s c" and "env_free_list s = Some e" and "copyable s c"
    and "pgfault_handler u \<noteq> 0" and "card (tables (env_dir s c) s) + 2 \<le> length fl"
  obtains t z p gl where "fork int30 upcall handler u s = UDone (env_id (envs t e), u\<lparr>pgfault_handler := handler\<rparr>) z"
    and "kinv k R gl z" and "\<not> live s e" and "\<And>x. live t x \<longleftrightarrow> live s x \<or> x = e" and "\<And>x. x \<noteq> e \<Longrightarrow> envs t x = envs s x"
    and "env_tf (envs t e) = (env_tf (envs s c))\<lparr>tf_regs := (tf_regs (env_tf (envs s c)))\<lparr>reg_eax := 0\<rparr>\<rparr>"
    and "envs z = (envs t)(e := (envs t e)\<lparr>env_pgfault_upcall := upcall, env_status := ENV_RUNNABLE\<rparr>)"
    and "env_dir t e \<notin> dirs s"
    and "\<And>d b. d \<in> dirs s \<Longrightarrow> b < UTOP \<Longrightarrow> vmap z d b =
      (if d = env_dir s c \<and> b < USTACKTOP then map_option cow_entry (vmap s (env_dir s c) b) else vmap s d b)"
    and "\<And>b. b < UTOP \<Longrightarrow> vmap z (env_dir t e) b = (if PGNUM b = PGNUM (UXSTACKTOP - PGSIZE) then Some (page2pa p OR PTE_P OR PTE_W OR PTE_U)
      else if b < USTACKTOP then map_option cow_entry (vmap s (env_dir s c) b) else None)"
    and "\<And>j. unat j < 1024 \<Longrightarrow> kload z (kva p j) = 0"
    and "\<And>d b y. d \<in> dirs s \<Longrightarrow> b < UTOP \<Longrightarrow> vmap s d b = Some y \<Longrightarrow> PGNUM y \<noteq> p" and "keeps_data s z"
proof -
  let ?q = "env_dir s c"
  note r = kinv_runs [OF assms(1,2)]
  obtain t where t: "sys_exofork s = Ret (Inr (env_id (envs t e))) t" "kinv k R fl t" "user_runs t c"
    "forkable t c (env_id (envs t e)) e" "0 < sint (env_id (envs t e))" "\<not> live s e"
    "env_tf (envs t e) = (env_tf (envs s c))\<lparr>tf_regs := (tf_regs (env_tf (envs s c)))\<lparr>reg_eax := 0\<rparr>\<rparr>"
    "\<And>x. x \<noteq> e \<Longrightarrow> envs t x = envs s x" "\<And>x. live t x \<longleftrightarrow> live s x \<or> x = e"
    "dirs t = insert (env_dir t e) (dirs s)" "env_dir t e \<notin> dirs s"
    "\<And>d b. d \<in> dirs s \<Longrightarrow> b < UTOP \<Longrightarrow> vmap t d b = vmap s d b" "keeps_data s t" "tables ?q t = tables ?q s"
    by (rule exofork_child [OF assms(1-4)]) blast
  have "c \<noteq> e" using r(1) t(6) by blast
  then have tc: "env_dir t c = ?q" by (simp add: env_dir_def t(8))
  have "lacking ?q (env_dir t e) t t \<subseteq> tables ?q s" using t(14) by (auto simp: lacking_def tables_def)
  from card_mono [OF tables_finite this] have "2 + card (lacking (env_dir t c) (env_dir t e) t t) \<le> length fl" using assms(6) by (simp add: tc)
  from fork_loop_ok [OF page_syscalls_axioms t(2,3,4) this] obtain v fl' where
    v: "ufor (fork_page int30 (env_id (envs t e))) user_pages t = UDone () v" "kinv k R fl' v" "user_runs v c" "vm_only t v" "2 \<le> length fl'"
    "keeps_data t v" and vv: "\<And>d b. d \<in> dirs t \<Longrightarrow> b < UTOP \<Longrightarrow> vmap v d b =
      (if d \<in> {?q, env_dir t e} \<and> b < USTACKTOP then map_option cow_entry (vmap t ?q b) else vmap t d b)"
    unfolding tc by blast
  have ev: "envs v = envs t" "dirs v = dirs t" "env_dir v e = env_dir t e"
    using v(4) by (simp_all add: vm_only_def dirs_def live_def env_dir_def)
  have fe: "envid2env (env_id (envs t e)) True t = Ret (Inr (Some e)) t" "live t e" "\<And>b. b < UTOP \<Longrightarrow> vmap t (env_dir t e) b = None"
    using t(4) by (simp_all add: forkable_def)
  have cv: "curenv v = Some c" using v(3) by (simp add: user_runs_def Let_def)
  have lv: "live v e" using fe(2) by (simp add: live_def ev(1))
  obtain w x z p gl where z: "user_page_alloc int30 (env_id (envs t e)) (UXSTACKTOP - PGSIZE) (PTE_P OR PTE_W OR PTE_U) v = UDone 0 w"
    "user_env_set_pgfault_upcall int30 (env_id (envs t e)) upcall w = UDone 0 x"
    "user_env_set_status int30 (env_id (envs t e)) (status_code ENV_RUNNABLE) x = UDone 0 z" "kinv k R gl z"
    "envs z = (envs t)(e := (envs t e)\<lparr>env_pgfault_upcall := upcall, env_status := ENV_RUNNABLE\<rparr>)"
    "\<And>d b. d \<in> dirs t \<Longrightarrow> b < UTOP \<Longrightarrow> vmap z d b = (if d = env_dir t e \<and> PGNUM b = PGNUM (UXSTACKTOP - PGSIZE)
      then Some (page2pa p OR PTE_P OR PTE_W OR PTE_U) else vmap v d b)"
    "\<And>j. unat j < 1024 \<Longrightarrow> kload z (kva p j) = 0"
    "\<And>d b y. d \<in> dirs t \<Longrightarrow> b < UTOP \<Longrightarrow> vmap v d b = Some y \<Longrightarrow> PGNUM y \<noteq> p" "keeps_data v z"
    by (rule fork_finish [OF v(2) cv envid2env_vm_only [OF v(4) fe(1)] lv v(5), of upcall, unfolded ev]) blast
  have sv: "\<exists>y'. vmap v d b = Some y' \<and> PGNUM y' = PGNUM y" if "d \<in> dirs t" "b < UTOP" "vmap t d b = Some y" for d b y
    using vv [OF that(1,2)] that(3) fe(3) [OF that(2)] PGNUM_cow_entry [of y] by auto
  have kz: "keeps_data t z" by (rule keeps_data_trans [OF v(6) z(9) ev(2)]) (use sv in blast)
  show thesis
  proof (rule that [OF fork_runs [OF assms(5) exofork_stub [OF t(1)] t(5) v(1) z(1-3)] z(4) t(6,9,8,7) z(5) t(11)])
    show "keeps_data s z"
      unfolding keeps_data_def
    proof (intro ballI allI impI)
      fix d b y assume y: "d \<in> dirs s" "b < UTOP" "vmap s d b = Some y"
      then show "same_words (PGNUM y) s z"
        using t(13) kz t(10) t(12) [OF y(1,2)] unfolding keeps_data_def by (metis insertCI same_words_trans)
    qed
    show "PGNUM y \<noteq> p" if y: "d \<in> dirs s" "b < UTOP" "vmap s d b = Some y" for d b y
      using sv [of d b y] z(8) [of d b] y t(10) t(12) [OF y(1,2)] by auto
    show "vmap z d b = (if d = ?q \<and> b < USTACKTOP then map_option cow_entry (vmap s ?q b) else vmap s d b)"
      if "d \<in> dirs s" "b < UTOP" for d b
      using z(6) [of d b] vv [of d b] t(10,11) t(12) [OF that] t(12) [OF r(2) that(2)] that by auto
    show "vmap z (env_dir t e) b = (if PGNUM b = PGNUM (UXSTACKTOP - PGSIZE) then Some (page2pa p OR PTE_P OR PTE_W OR PTE_U)
      else if b < USTACKTOP then map_option cow_entry (vmap s ?q b) else None)" if "b < UTOP" for b
      using z(6) [of "env_dir t e" b] vv [of "env_dir t e" b] t(10) t(12) [OF r(2) that] fe(3) [OF that] that by auto
  qed (use z(7) in auto)
qed

end

section \<open>Properties\<close>


lemma k_cow_copyable: "copyable k_cow 0"
proof -
  have "x = 0x5805" if "vmap k_cow 2 b = Some x" "b < USTACKTOP" for b x
    using that PDX_user [OF USTACKTOP_below [OF that(2)]]
    by (auto simp: vmap_def k_cow_pde k_cow_pte PDX_less PTX_less PDX_UTOP split: if_splits)
  moreover have "flag 0x5805 PTE_U" "\<not> flag 0x5805 PTE_SHARE" "flag 0x5805 PTE_COW" by (simp_all add: flag_def jos_consts)
  moreover have "unat (pp_ref (pages k_cow p)) < 0x7FFF" for p by (simp add: k_cow_def zero_page_def)
  ultimately show ?thesis by (auto simp: copyable_def)
qed


end
