(* ===== verification/Init.thy ===== *)
theory Init
  imports Boot_Inv Descriptors Mpconfig Monitor Console_Buffer
begin

text \<open>
  The start of the kernel (\<^verbatim>\<open>kern/init.c\<close>): initialisation of the console devices, the order of all
  initialisations on the boot processor, the start of the other processors, and kernel panics.
\<close>

section \<open>Console devices\<close>

definition MONO_BASE :: u32 where [jos_consts]: "MONO_BASE = 0x3B4"
definition CGA_BASE :: u32 where [jos_consts]: "CGA_BASE = 0x3D4"
definition IRQ_KBD :: nat where [jos_consts]: "IRQ_KBD = 1"
definition COM_DLL :: u32 where [jos_consts]: "COM_DLL = 0"
definition COM_DLM :: u32 where [jos_consts]: "COM_DLM = 1"
definition COM_IER :: u32 where [jos_consts]: "COM_IER = 1"
definition COM_IER_RDI :: u8 where [jos_consts]: "COM_IER_RDI = 0x01"
definition COM_FCR :: u32 where [jos_consts]: "COM_FCR = 2"
definition COM_LCR :: u32 where [jos_consts]: "COM_LCR = 3"
definition COM_LCR_DLAB :: u8 where [jos_consts]: "COM_LCR_DLAB = 0x80"
definition COM_LCR_WLEN8 :: u8 where [jos_consts]: "COM_LCR_WLEN8 = 0x03"
definition COM_MCR :: u32 where [jos_consts]: "COM_MCR = 4"

text \<open>
  The display adapter: whether the word written to \<open>CGA_BUF\<close> can be read back, the two screen
  memories, and the bytes that the controller returns for the cursor.
\<close>

record display =
  has_cga :: bool
  cga_mem :: "u16 list"
  mono_mem :: "u16 list"
  cursor_hi :: u8
  cursor_lo :: u8

definition cga_init :: "display \<Rightarrow> console \<Rightarrow> console" where
  "cga_init v c =
     (let base = (if has_cga v then CGA_BASE else MONO_BASE);
          c = c\<lparr>addr_6845 := base\<rparr>;
          c = outb base 14 c;
          c = outb base 15 c;
          pos = push_bit 8 (ucast (cursor_hi v)) OR ucast (cursor_lo v) :: u32
      in c\<lparr>crt_buf := (if has_cga v then cga_mem v else mono_mem v), crt_pos := ucast pos\<rparr>)"

definition kbd_init :: "kstate \<Rightarrow> kstate option" where
  "kbd_init s =
     Option.bind (kbd_intr (cons s)) (\<lambda>c.
       let s = s\<lparr>cons := c\<rparr> in
       Some (irq_setmask_8259A (irq_mask_8259A s AND NOT (push_bit IRQ_KBD 1)) s))"

text \<open>
  \<open>lsr\<close> is what the device returns for the line status; the last of the three reads takes a
  received byte, if there is one.
\<close>

definition serial_init :: "u8 \<Rightarrow> console \<Rightarrow> console" where
  "serial_init lsr c =
     (let c = outb (COM1 + COM_FCR) 0 c;
          c = outb (COM1 + COM_LCR) COM_LCR_DLAB c;
          c = outb (COM1 + COM_DLL) (115200 div 9600) c;
          c = outb (COM1 + COM_DLM) 0 c;
          c = outb (COM1 + COM_LCR) (COM_LCR_WLEN8 AND NOT COM_LCR_DLAB) c;
          c = outb (COM1 + COM_MCR) 0 c;
          c = outb (COM1 + COM_IER) COM_IER_RDI c
      in c\<lparr>serial_exists := lsr \<noteq> 0xFF, ser_in := tl (ser_in c)\<rparr>)"

definition cons_init :: "display \<Rightarrow> u8 \<Rightarrow> kstate \<Rightarrow> kstate option" where
  "cons_init v lsr s =
     (let s = s\<lparr>cons := cga_init v (cons s)\<rparr> in
      Option.bind (kbd_init s) (\<lambda>s.
        let s = s\<lparr>cons := serial_init lsr (cons s)\<rparr> in
        Some (if \<not> serial_exists (cons s) then kprintf (''Serial port does not exist!'' @ newline) [] s else s)))"

section \<open>Panics and warnings\<close>

text \<open>A \<open>Panic\<close> of the other theories ends here.  The result is what the loop around \<open>monitor\<close> ends with.\<close>

partial_function (option) panic_loop :: "ksyms \<Rightarrow> kstate \<Rightarrow> (unit, kstate) outcome option" where
  "panic_loop sy s =
     (case monitor sy None s of
        Ret _ s \<Rightarrow> panic_loop sy s
      | m \<Rightarrow> Some m)"

definition kernel_panic :: "ksyms \<Rightarrow> string \<Rightarrow> u32 \<Rightarrow> string \<Rightarrow> varg list \<Rightarrow> kstate \<Rightarrow> (unit, kstate) outcome option" where
  "kernel_panic sy file line fmt ap s =
     (if panicstr s \<noteq> None then panic_loop sy s
      else
        let s = s\<lparr>panicstr := Some fmt\<rparr>;
            s = kprintf ''kernel panic on CPU %d at %s:%d: '' [VInt (of_nat (cpunum s)), VString file, VInt line] s;
            s = kprintf fmt ap s;
            s = kprintf newline [] s
        in panic_loop sy s)"

definition kernel_warn :: "string \<Rightarrow> u32 \<Rightarrow> string \<Rightarrow> varg list \<Rightarrow> kstate \<Rightarrow> kstate" where
  "kernel_warn file line fmt ap s =
     (let s = kprintf ''kernel warning at %s:%d: '' [VString file, VInt line] s;
          s = kprintf fmt ap s
      in kprintf newline [] s)"

lemma panic_loop_ends:
  assumes "buf_ok (cons s)"
  shows "\<exists>t. panic_loop sy s = Some (Leave InMonitor t) \<and> panicstr t = panicstr s"
proof -
  obtain t where t: "monitor sy None s = Leave InMonitor t" "console_only s t" using monitor_waits [OF assms] by blast
  have "panicstr t = panicstr s" using t(2) unfolding console_only_def by auto
  then show ?thesis by (subst panic_loop.simps) (simp add: t(1))
qed

text \<open>A panic never returns, whatever is typed: it ends with the monitor waiting for input.\<close>

lemma kernel_panic_ends:
  assumes "buf_ok (cons s)"
  shows "\<exists>t. kernel_panic sy file line fmt ap s = Some (Leave InMonitor t) \<and> panicstr t \<noteq> None"
proof (cases "panicstr s")
  case (Some m)
  then show ?thesis using panic_loop_ends [OF assms, of sy] by (auto simp: kernel_panic_def)
next
  case None
  define u where "u = kprintf newline [] (kprintf fmt ap (kprintf ''kernel panic on CPU %d at %s:%d: ''
    [VInt (of_nat (cpunum (s\<lparr>panicstr := Some fmt\<rparr>))), VString file, VInt line] (s\<lparr>panicstr := Some fmt\<rparr>)))"
  have "buf_ok (cons u)" "panicstr u = Some fmt" using assms by (simp_all add: u_def)
  moreover have "kernel_panic sy file line fmt ap s = panic_loop sy u" using None by (simp only: kernel_panic_def u_def Let_def if_False simp_thms)
  ultimately show ?thesis using panic_loop_ends [of u sy] by auto
qed

section \<open>Processors\<close>

text \<open>
  \<open>env_init_percpu\<close> loads the descriptor table and the segment registers; only the former is part of
  the state.  What the linker and the devices give the kernel at boot is a record.
\<close>

definition env_init_percpu :: "u32 \<Rightarrow> dtables \<Rightarrow> dtables" where
  "env_init_percpu gdt_at d = d\<lparr>gdtr := gdt_pd gdt_at\<rparr>"

record machine =
  adapter :: display
  line_status :: u8
  cmos_regs :: "u8 \<Rightarrow> u8"
  imcr_reg :: u8
  lapic_ver :: u32
  end_at :: u32
  bootstack_at :: u32
  percpu_kstacks_at :: u32
  cpus_at :: u32
  idt_at :: u32
  gdt_at :: u32
  handler_at :: "nat \<Rightarrow> u32"
  syscall_handler_at :: u32
  mpentry_code :: "u8 list"
  user_primes_at :: u32

definition dout :: "'a \<Rightarrow> ('a \<times> kstate) option \<Rightarrow> ('a, kstate) outcome option" where
  "dout d m = (case m of None \<Rightarrow> None | Some (d, s) \<Rightarrow> Some (Ret d s))"

text \<open>
  The part of \<open>mp_main\<close> before the kernel lock.  The processor that runs it is \<open>cpunum\<close>, and \<open>cr3\<close>, the
  TLB and the registers of the tables in \<open>d\<close> are its own.
\<close>

definition mp_setup :: "machine \<Rightarrow> dtables \<Rightarrow> kstate \<Rightarrow> (dtables, kstate) outcome option" where
  "mp_setup w d s =
     obind (Some (PADDR (kern_pgdir s) s)) (\<lambda>pa s.
       let s = lcr3 pa s;
           s = kprintf (''SMP: CPU %d starting'' @ newline) [VInt (of_nat (cpunum s))] s
       in obind (Some (lapic_init (lapic_ver w) s)) (\<lambda>_ s.
       obind (dout d (trap_init_percpu (cpus_at w) (idt_at w) (env_init_percpu (gdt_at w) d) s)) (\<lambda>d s.
         Some (Ret d (s\<lparr>cpus := (cpus s)(cpunum s := (cpus s (cpunum s))\<lparr>cpu_status := CPU_STARTED\<rparr>)\<rparr>)))))"

definition mp_main :: "machine \<Rightarrow> dtables \<Rightarrow> kstate \<Rightarrow> (unit, kstate) outcome option" where
  "mp_main w d s =
     obind (mp_setup w d s) (\<lambda>_ s. obind (Some (lock_kernel s)) (\<lambda>_ s. Some (sched_yield s)))"

text \<open>
  The boot processor holds the kernel lock while it starts processor \<open>c\<close> and waits: the other one runs
  \<open>mp_setup\<close> and then spins at the lock.  It shares the memory and the tables, not the registers.
  \<open>mpentry_kstack\<close>, which only the assembly entry code reads, is not part of the state.
\<close>

definition boot_ap :: "machine \<Rightarrow> u32 \<Rightarrow> dtables \<Rightarrow> nat \<Rightarrow> kstate \<Rightarrow> (dtables, kstate) outcome option" where
  "boot_ap w code d c s =
     obind (Some (PADDR code s)) (\<lambda>pa s.
     obind (Some (lapic_startap (cpu_id (cpus s c)) pa s)) (\<lambda>_ s.
     obind (mp_setup w d (s\<lparr>cpunum := c\<rparr>)) (\<lambda>d' t.
       Some (Ret (d\<lparr>idt := idt d', gdt := gdt d'\<rparr>) (t\<lparr>cpunum := cpunum s, cr3 := cr3 s, tlb := tlb s\<rparr>)))))"

fun boot_ap_loop :: "machine \<Rightarrow> u32 \<Rightarrow> nat list \<Rightarrow> dtables \<Rightarrow> kstate \<Rightarrow> (dtables, kstate) outcome option" where
  "boot_ap_loop w code [] d s = Some (Ret d s)"
| "boot_ap_loop w code (c # cs) d s =
     (if c = cpunum s then boot_ap_loop w code cs d s
      else obind (boot_ap w code d c s) (\<lambda>d s. boot_ap_loop w code cs d s))"

definition boot_aps :: "machine \<Rightarrow> dtables \<Rightarrow> kstate \<Rightarrow> (dtables, kstate) outcome option" where
  "boot_aps w d s =
     obind (Some (KADDR MPENTRY_PADDR s)) (\<lambda>code s.
       let s = fold (\<lambda>(i, b). pput8 (code - KERNBASE + of_nat i) b) (enumerate 0 (mpentry_code w)) s
       in boot_ap_loop w code [0..<ncpu s] d s)"

section \<open>The boot processor\<close>

definition i386_init :: "machine \<Rightarrow> dtables \<Rightarrow> kstate \<Rightarrow> (unit, kstate) outcome option" where
  "i386_init w d s =
     obind (map_option (Ret ()) (cons_init (adapter w) (line_status w) s)) (\<lambda>_ s.
       let s = kprintf (''6828 decimal is %o octal!'' @ newline) [VInt 6828] s in
     obind (mem_init (cmos_regs w) (end_at w) (bootstack_at w) (percpu_kstacks_at w) s) (\<lambda>_ s.
       let s = env_init s;
           d = env_init_percpu (gdt_at w) d in
     obind (dout d (trap_init (handler_at w) (syscall_handler_at w) (cpus_at w) (idt_at w) d s)) (\<lambda>d s.
     obind (Some (mp_init (imcr_reg w) s)) (\<lambda>_ s.
     obind (Some (lapic_init (lapic_ver w) s)) (\<lambda>_ s.
     obind (Some (lock_kernel (pic_init s))) (\<lambda>_ s.
     obind (boot_aps w d s) (\<lambda>d s.
     obind (Some (env_create (user_primes_at w) ENV_TYPE_USER s)) (\<lambda>_ s.
     Some (sched_yield s)))))))))"

end
