(* ===== verification/Spec2Isabelle.thy ===== *)
theory Spec2Isabelle
  imports Vm_Spec Console_Buffer Cputs_Spec Mpconfig Kdebug Entry_Pgdir Boot_Loader Boot_Inv User_Spec Fork_Spec Init
begin

text \<open>
  JOS: a verification library for the boot loader, the kernel, the console and monitor, and the C
  library of a small x86 operating system.

  \<^bold>\<open>The program.\<close>  The kernel (\<^verbatim>\<open>kern/\<close>) manages physical pages, page tables and up to 1024
  environments (processes) on up to 8 processors under one lock; environments enter it through
  traps, most of them system calls, and leave it through the scheduler.  The C library (\<^verbatim>\<open>lib/\<close>)
  is linked into user programs and in part (strings, formatted output, line input) into the
  kernel; \<^verbatim>\<open>inc/\<close> holds the constants and structures both sides share.

  \<^bold>\<open>Conventions\<close> (\<open>Prelude\<close>).  Kernel code passes one state, the record \<open>kstate\<close> of theory
  \<open>Kstate\<close>, whose fields are the global variables of the C files and the hardware the code
  touches: memory as a function from word addresses to words, \<open>cr2\<close>, \<open>cr3\<close>, the TLB, port and
  APIC writes as logs, console devices as queues.  A function ends in \<open>Ret\<close> (return), \<open>Panic\<close> (a
  call of \<open>panic\<close>, or the page fault in kernel mode that leads to one) or \<open>Leave\<close> (it never
  returns to its caller: an environment runs, the processor halts or spins, the monitor waits).
  Error codes are values of \<open>jerror\<close> in a sum.  Addresses and C integers are 32-bit words and
  wrap around.

  \<^bold>\<open>Memory management\<close> (\<^verbatim>\<open>kern/pmap.c\<close>, \<^verbatim>\<open>inc/mmu.h\<close>, \<^verbatim>\<open>inc/memlayout.h\<close>).
  \<open>Mmu\<close> has the layout constants and address macros.  \<open>Free_List\<close> states once, as the locale
  \<open>free_stack\<close>, what an intrusive free list promises; it is interpreted for the free pages
  (\<open>Page_Alloc\<close>) and the free environments (\<open>Env_Ops\<close>).  \<open>Page_Alloc\<close> and \<open>Page_Table\<close> are the
  allocator and the page table operations.  \<open>Vm_Inv\<close> is the invariant \<open>vm_inv\<close>: tables form a
  two-level tree, the count of every page is the number of entries that refer to it (plus the
  kernel's own references), and unreferenced pages are free.  \<open>Vm_Walk\<close>, \<open>Vm_Ops\<close>, \<open>User_Mem\<close> and
  \<open>Vm_Free\<close> prove what the operations do and that they keep it; \<open>Vm_Spec\<close> is the contract for
  callers.

  \<^bold>\<open>Environments and scheduling\<close> (\<^verbatim>\<open>kern/env.c\<close>, \<^verbatim>\<open>kern/sched.c\<close>, \<^verbatim>\<open>kern/spinlock.c\<close>).
  \<open>Spinlock\<close> has the lock as code and as a step relation over all processors, with mutual
  exclusion and progress.  \<open>Env_Ops\<close> has the operations on environments and the scheduler;
  \<open>Env_Id\<close> shows when an identifier is accepted, \<open>Sched_Spec\<close> the round-robin order and absence
  of starvation, \<open>Env_Setup\<close> and \<open>Env_Free\<close> creation and destruction of an address space.

  \<^bold>\<open>Traps and system calls\<close> (\<^verbatim>\<open>kern/trap.c\<close>, \<^verbatim>\<open>kern/syscall.c\<close>).
  \<open>Syscall\<close> and \<open>Trap\<close> are the handlers, \<open>User_Access\<close> the accesses through page tables.
  \<open>Kernel_Inv\<close> is the invariant \<open>kinv\<close> of the whole kernel; \<open>Syscall_Inv\<close>, \<open>Kernel_Spec\<close> and
  \<open>Trap_Spec\<close> show that every system call and every trap from user mode keeps it and never
  panics, and what the calls on memory and environments do.  \<open>Cputs_Spec\<close> is the exception:
  \<open>sys_cputs\<close> reads one byte too many.  \<open>Pgfault_Spec\<close> shows that a page fault with an upcall
  resumes the environment with a complete frame on its exception stack.

  \<^bold>\<open>Boot\<close>.  \<open>Boot_Loader\<close> (\<^verbatim>\<open>boot/main.c\<close>) shows that the loader loads every segment of a bootable
  image; \<open>Entry_Pgdir\<close> (\<^verbatim>\<open>kern/entrypgdir.c\<close>) what the first page tables map.  \<open>Mem_Init\<close> has the
  detection of memory and the first free list, \<open>Free_Check\<close> the reordering of the free list by
  \<open>check_page_free_list\<close>, \<open>Boot_Map\<close> the mapping of a list of regions, and \<open>Boot_Spec\<close> the function
  \<open>mem_init\<close> itself with the state it reaches.  \<open>Boot_Inv\<close> shows which address space that is, and that
  \<open>mem_init\<close> and \<open>env_init\<close> together establish the invariant \<open>kinv\<close> which all later theorems assume.
  \<open>Init\<close> (\<^verbatim>\<open>kern/init.c\<close>) has the order of all initialisations, the start of the other processors, and
  panics.

  \<^bold>\<open>Devices\<close>.  \<open>Console\<close> and \<open>Console_Buffer\<close> (\<^verbatim>\<open>kern/console.c\<close>) show that the input
  buffer is a queue and that output stays on the screen; the devices share the locale
  \<open>input_device\<close>.  \<open>Lapic\<close> has the interrupt controllers and the clock, \<open>Descriptors\<close> the segment
  and gate descriptors, \<open>Mpconfig\<close> the multiprocessor tables.

  \<^bold>\<open>Monitor and library\<close>.  \<open>String_Lib\<close>/\<open>String_Spec\<close> (\<^verbatim>\<open>lib/string.c\<close>), \<open>Printfmt\<close>/\<open>Printfmt_Spec\<close>
  (\<^verbatim>\<open>lib/printfmt.c\<close>, \<^verbatim>\<open>lib/printf.c\<close>, \<^verbatim>\<open>kern/printf.c\<close>; the locale \<open>sink_hom\<close> shows that the output does
  not depend on where it goes), \<open>Kprintf\<close>, \<open>Readline\<close> (\<^verbatim>\<open>lib/readline.c\<close>, against an editor
  specification) and \<open>Monitor\<close> (\<^verbatim>\<open>kern/monitor.c\<close>).  \<open>Stabs\<close> and \<open>Kdebug\<close> (\<^verbatim>\<open>kern/kdebug.c\<close>) are the
  search in the debugging symbols and the description of a code address for the back trace, over the
  byte memory of \<open>Byte_Mem\<close>.

  \<^bold>\<open>User library\<close>.  \<open>User_Lib\<close> (\<^verbatim>\<open>lib/syscall.c\<close>, \<^verbatim>\<open>lib/pgfault.c\<close>, \<^verbatim>\<open>lib/fork.c\<close>, \<^verbatim>\<open>lib/ipc.c\<close>,
  \<^verbatim>\<open>lib/libmain.c\<close>, \<^verbatim>\<open>lib/exit.c\<close>, \<^verbatim>\<open>lib/console.c\<close>) is the code that programs run in user mode.  The
  system call instruction is its argument \<open>int30\<close>.  Locales say what it does:
  \<open>kernel_syscalls\<close> (\<open>User_Spec\<close>), that a call which the dispatcher of \<^verbatim>\<open>kern/syscall.c\<close> completes returns
  the dispatcher's result, from which follows that \<open>fork\<close> cannot work on this kernel;
  \<open>page_syscalls\<close> (\<open>Cow_Steps\<close>) and its extension \<open>fork_syscalls\<close> (\<open>Fork_Spec\<close>), that the calls which \<open>fork\<close>
  makes reach their handlers.  The handlers are written and correct (\<open>Kernel_Spec\<close>), only the dispatcher
  does not call them.  With them the library is correct: \<open>duppage\<close> shares a page copy-on-write and \<open>pgfault\<close>
  gives the writer a private copy (\<open>Cow_Steps\<close>, \<open>Cow_Spec\<close>), the loop over all pages (\<open>Fork_Loop\<close>) shares the
  whole address space, and \<open>fork\<close> creates a runnable copy of its caller (\<open>Fork_Spec\<close>).

  \<^bold>\<open>Bounds and fuel.\<close>  Loops over fixed ranges run over lists of indices.  \<open>cons_intr\<close> gets the
  number of waiting bytes plus one as fuel, \<open>readline\<close> and the monitor the number of characters
  that can still be typed plus one; the theorems show that this is enough.  \<open>vputs\<close> has fuel
  \<open>2 ^ 32\<close>, after which the address space wraps.  String loops without a bound are
  \<open>partial_function\<close>s, and the theorems about them show that they return on terminated strings.

  \<open>ipc_send\<close>, \<open>getchar\<close> of user programs and the loop around the monitor after a panic are
  \<open>partial_function\<close>s as well.

  \<^bold>\<open>Not modelled.\<close>  Assembly (\<^verbatim>\<open>*.S\<close>, inline instructions that only load segment registers or
  \<open>cr0\<close>), the time that devices take (waits for ready bits), the text of most
  panic messages, \<open>check_page_alloc\<close>, \<open>check_page\<close>, \<open>check_kern_pgdir\<close> and
  \<open>check_page_installed_pgdir\<close> of \<^verbatim>\<open>kern/pmap.c\<close>, which test the functions above and restore the
  state, the formatting of a user program's panic message (\<^verbatim>\<open>lib/panic.c\<close>), and the example user programs
  (\<^verbatim>\<open>user/\<close>).
\<close>

end
